(* ===== verification/Prelude.thy ===== *)
theory Prelude
  imports Main "HOL-Library.Word"
begin

text \<open>
  Shared vocabulary of the development.

  Go's \<^verbatim>\<open>uint64\<close> is a 64-bit word, so every addition of the model wraps around exactly
  where the program's does.  A Go \<^verbatim>\<open>string\<close> and a Go \<^verbatim>\<open>[]byte\<close> are both sequences of
  bytes and are modelled by \<^typ>\<open>string\<close>, whose characters are bytes.

  A run-time panic (an index or a slice bound out of range, a write to a nil map) is the
  value \<^const>\<open>None\<close> of an option type: a definition whose source can panic returns an
  option, and a theorem that it returns \<^const>\<open>Some\<close> says that it does not.
\<close>

type_synonym uint64 = "64 word"
type_synonym bytes = string

named_theorems raft_locked \<open>definitions of the small accessors that run with the lock held\<close>
named_theorems frame \<open>fields an operation does not write\<close>

subsection \<open>Slices\<close>

definition go_index :: "'a list \<Rightarrow> uint64 \<Rightarrow> 'a option" where
  "go_index xs i = (if unat i < length xs then Some (xs ! unat i) else None)"

definition go_slice_from :: "'a list \<Rightarrow> uint64 \<Rightarrow> 'a list option" where
  "go_slice_from xs i = (if unat i \<le> length xs then Some (drop (unat i) xs) else None)"

lemma go_index_nth:
  "unat i < length xs \<Longrightarrow> go_index xs i = Some (xs ! unat i)"
  by (simp add: go_index_def)

lemma go_index_SomeD:
  "go_index xs i = Some x \<Longrightarrow> unat i < length xs \<and> x = xs ! unat i"
  by (simp add: go_index_def split: if_splits)

lemma go_slice_from_drop:
  "unat i \<le> length xs \<Longrightarrow> go_slice_from xs i = Some (drop (unat i) xs)"
  by (simp add: go_slice_from_def)

subsection \<open>Maps that may be nil\<close>

text \<open>
  A Go map from peer ids to indices; \<^const>\<open>None\<close> is the nil map.  Reading a nil map finds
  nothing, reading a missing key gives zero, writing a nil map panics and deleting from
  it does nothing.
\<close>

type_synonym index_map = "(string \<rightharpoonup> uint64) option"

definition go_map_get :: "index_map \<Rightarrow> string \<Rightarrow> uint64 option" where
  "go_map_get m k = (case m of None \<Rightarrow> None | Some f \<Rightarrow> f k)"

definition go_map_read :: "index_map \<Rightarrow> string \<Rightarrow> uint64" where
  "go_map_read m k = (case go_map_get m k of None \<Rightarrow> 0 | Some v \<Rightarrow> v)"

definition go_map_set :: "index_map \<Rightarrow> string \<Rightarrow> uint64 \<Rightarrow> index_map option" where
  "go_map_set m k v = (case m of None \<Rightarrow> None | Some f \<Rightarrow> Some (Some (f(k \<mapsto> v))))"

definition go_map_delete :: "index_map \<Rightarrow> string \<Rightarrow> index_map" where
  "go_map_delete m k = map_option (\<lambda>f. f(k := None)) m"

lemma go_map_simps [simp]:
  "go_map_get None k = None"
  "go_map_get (Some f) k = f k"
  "go_map_read None k = 0"
  "go_map_set (Some f) k v = Some (Some (f(k \<mapsto> v)))"
  "go_map_set None k v = None"
  "go_map_delete None k = None"
  "go_map_delete (Some f) k = Some (f(k := None))"
  by (simp_all add: go_map_get_def go_map_read_def go_map_set_def go_map_delete_def)

subsection \<open>Words without wrap-around\<close>

lemma unat_of_nat_64:
  "k < 2 ^ 64 \<Longrightarrow> unat (of_nat k :: uint64) = k"
  by (simp add: unat_of_nat take_bit_nat_eq_self)

lemma unat_add_64:
  "unat a + unat b < 2 ^ 64 \<Longrightarrow> unat (a + b :: uint64) = unat a + unat b"
  by (simp add: unat_word_ariths)

lemma unat_add_of_nat_64:
  "unat (a :: uint64) + k < 2 ^ 64 \<Longrightarrow> unat (a + of_nat k) = unat a + k"
  by (simp add: unat_add_64 unat_of_nat_64)

lemma unat_plus_one_64:
  "unat (a :: uint64) + 1 < 2 ^ 64 \<Longrightarrow> unat (a + 1) = unat a + 1"
  using unat_add_of_nat_64 [of a 1] by simp

lemma unat_less_64: "unat (a :: uint64) < 2 ^ 64"
  using unsigned_less [of a] by simp

lemma word_eq_unatI: "unat a = unat b \<Longrightarrow> (a :: uint64) = b"
  by (simp add: word_unat_eq_iff)

lemma of_nat_unat_64: "of_nat (unat a) = (a :: uint64)"
  by simp

end
