(* ===== verification/Types.thy ===== *)
theory Types
  imports Prelude
begin

text \<open>
  The data types of \<^verbatim>\<open>raft/types.go\<close>
  and the errors the packages return.  Field names carry a short prefix where two Go
  structs use the same name.
\<close>

datatype State = Follower | Candidate | Leader

text \<open>
  Error values.  The structs of \<^verbatim>\<open>types.go\<close> keep their fields.  \<open>Errorf\<close> stands for
  \<^verbatim>\<open>errors.New\<close> and \<^verbatim>\<open>fmt.Errorf\<close> and keeps the format string and the arguments,
  \<open>Wrapf\<close> for a \<^verbatim>\<open>fmt.Errorf\<close> that wraps an error with \<^verbatim>\<open>%w\<close>; \<open>ExtErr\<close> is an error
  of a library outside the repository.
\<close>

datatype GoError =
    ErrLogInconsistent uint64 uint64
  | ErrUnknownPeer string
  | ErrMembershipChangePending
  | ErrNotLeader State
  | Errorf string "string list"
  | Wrapf string "string list" GoError
  | CtxCanceled
  | CtxDeadlineExceeded
  | JSONErr
  | ExtErr string

record LogEntry =
  eTerm :: uint64
  eIndex :: uint64
  eCommand :: bytes

text \<open>
  \<^verbatim>\<open>PersistentState.Peers\<close> is a slice that may be nil and \<^verbatim>\<open>SelfMember\<close> a pointer that may
  be nil; \<^verbatim>\<open>NewRaftNode\<close> tests both against nil, so both are options.
\<close>

record PersistentState =
  psCurrentTerm :: uint64
  psVotedFor :: string
  psPeers :: "string list option"
  psSelfMember :: "bool option"
  psLastIncludedIndex :: uint64
  psLastIncludedTerm :: uint64
  psSnapshot :: bytes
  psLog :: "LogEntry list"

record RequestVoteRequest =
  rvTerm :: uint64
  rvCandidateID :: string
  rvLastLogIndex :: uint64
  rvLastLogTerm :: uint64

record RequestVoteResponse =
  rvrTerm :: uint64
  rvrVoteGranted :: bool

record PreVoteRequest =
  pvTerm :: uint64
  pvCandidateID :: string
  pvLastLogIndex :: uint64
  pvLastLogTerm :: uint64

record PreVoteResponse =
  pvrTerm :: uint64
  pvrVoteGranted :: bool

record AppendEntriesRequest =
  aeTerm :: uint64
  aeLeaderID :: string
  aePrevLogIndex :: uint64
  aePrevLogTerm :: uint64
  aeEntries :: "LogEntry list"
  aeLeaderCommit :: uint64

record AppendEntriesResponse =
  aerTerm :: uint64
  aerSuccess :: bool

text \<open>The zero value of each struct, as an empty composite literal gives it.\<close>

definition zeroPersistentState :: PersistentState where
  "zeroPersistentState = \<lparr>psCurrentTerm = 0, psVotedFor = [], psPeers = None,
     psSelfMember = None, psLastIncludedIndex = 0, psLastIncludedTerm = 0,
     psSnapshot = [], psLog = []\<rparr>"

definition zeroLogEntry :: LogEntry where
  "zeroLogEntry = \<lparr>eTerm = 0, eIndex = 0, eCommand = []\<rparr>"

text \<open>Raft's comparison of two logs by their last term and last index.\<close>

definition IsLogAtLeastUpToDate :: "uint64 \<Rightarrow> uint64 \<Rightarrow> uint64 \<Rightarrow> uint64 \<Rightarrow> bool" where
  "IsLogAtLeastUpToDate candidateLastIndex candidateLastTerm localLastIndex localLastTerm =
     (if candidateLastTerm \<noteq> localLastTerm then candidateLastTerm > localLastTerm
      else candidateLastIndex \<ge> localLastIndex)"

lemma IsLogAtLeastUpToDate_refl [simp]: "IsLogAtLeastUpToDate i t i t"
  by (simp add: IsLogAtLeastUpToDate_def)

lemma IsLogAtLeastUpToDate_trans:
  "IsLogAtLeastUpToDate i t j u \<Longrightarrow> IsLogAtLeastUpToDate j u k v \<Longrightarrow> IsLogAtLeastUpToDate i t k v"
  by (auto simp: IsLogAtLeastUpToDate_def split: if_splits)

lemma IsLogAtLeastUpToDate_lex:
  "IsLogAtLeastUpToDate i t j u \<longleftrightarrow> (u, j) = (t, i) \<or> u < t \<or> u = t \<and> j < i"
  by (auto simp: IsLogAtLeastUpToDate_def)

end
