(* ===== verification/GoText.thy ===== *)
theory GoText
  imports Prelude
begin

text \<open>
  What the program uses of Go's \<^verbatim>\<open>strings\<close>, \<^verbatim>\<open>unicode/utf8\<close> and \<^verbatim>\<open>encoding/base64\<close>
  packages, on byte strings.
\<close>

abbreviation byte_of :: "char \<Rightarrow> nat" where
  "byte_of c \<equiv> of_char c"

definition chr_of :: "nat \<Rightarrow> char" where
  "chr_of n = char_of n"

subsection \<open>Package strings\<close>

definition HasPrefix :: "string \<Rightarrow> string \<Rightarrow> bool" where
  "HasPrefix s p = (take (length p) s = p)"

definition HasSuffix :: "string \<Rightarrow> string \<Rightarrow> bool" where
  "HasSuffix s p = HasPrefix (rev s) (rev p)"

definition TrimPrefix :: "string \<Rightarrow> string \<Rightarrow> string" where
  "TrimPrefix s p = (if HasPrefix s p then drop (length p) s else s)"

definition ContainsByte :: "string \<Rightarrow> char \<Rightarrow> bool" where
  "ContainsByte s c = (c \<in> set s)"

text \<open>
  The UTF-8 encodings of the code points with Unicode's White\_Space property, which
  \<^verbatim>\<open>unicode.IsSpace\<close> accepts: six ASCII bytes, U+0085, U+00A0, U+1680, U+2000 to U+200A,
  U+2028, U+2029, U+202F, U+205F and U+3000.
\<close>

definition space_seqs :: "string list" where
  "space_seqs =
    [[CHR 0x09], [CHR 0x0A], [CHR 0x0B], [CHR 0x0C], [CHR 0x0D], [CHR 0x20],
     [CHR 0xC2, CHR 0x85], [CHR 0xC2, CHR 0xA0], [CHR 0xE1, CHR 0x9A, CHR 0x80],
     [CHR 0xE2, CHR 0x80, CHR 0x80], [CHR 0xE2, CHR 0x80, CHR 0x81],
     [CHR 0xE2, CHR 0x80, CHR 0x82], [CHR 0xE2, CHR 0x80, CHR 0x83],
     [CHR 0xE2, CHR 0x80, CHR 0x84], [CHR 0xE2, CHR 0x80, CHR 0x85],
     [CHR 0xE2, CHR 0x80, CHR 0x86], [CHR 0xE2, CHR 0x80, CHR 0x87],
     [CHR 0xE2, CHR 0x80, CHR 0x88], [CHR 0xE2, CHR 0x80, CHR 0x89],
     [CHR 0xE2, CHR 0x80, CHR 0x8A], [CHR 0xE2, CHR 0x80, CHR 0xA8],
     [CHR 0xE2, CHR 0x80, CHR 0xA9], [CHR 0xE2, CHR 0x80, CHR 0xAF],
     [CHR 0xE2, CHR 0x81, CHR 0x9F], [CHR 0xE3, CHR 0x80, CHR 0x80]]"

definition space_prefix :: "string \<Rightarrow> nat" where
  "space_prefix s = (case find (HasPrefix s) space_seqs of None \<Rightarrow> 0 | Some p \<Rightarrow> length p)"

definition space_suffix :: "string \<Rightarrow> nat" where
  "space_suffix s = (case find (HasSuffix s) space_seqs of None \<Rightarrow> 0 | Some p \<Rightarrow> length p)"

function trim_left :: "string \<Rightarrow> string" where
  "trim_left s = (if s = [] \<or> space_prefix s = 0 then s else trim_left (drop (space_prefix s) s))"
  by pat_completeness auto
termination
  by (relation "measure length") auto

function trim_right :: "string \<Rightarrow> string" where
  "trim_right s =
     (if s = [] \<or> space_suffix s = 0 then s else trim_right (take (length s - space_suffix s) s))"
  by pat_completeness auto
termination
  by (relation "measure length") auto

declare trim_left.simps [simp del] trim_right.simps [simp del]

definition TrimSpace :: "string \<Rightarrow> string" where
  "TrimSpace s = trim_right (trim_left s)"

text \<open>\<^verbatim>\<open>strings.Split\<close> by a one-byte separator and \<^verbatim>\<open>strings.SplitN(s, sep, 2)\<close>.\<close>

fun Split :: "string \<Rightarrow> char \<Rightarrow> string list" where
  "Split [] sep = [[]]"
| "Split (c # cs) sep =
     (if c = sep then [] # Split cs sep
      else (case Split cs sep of [] \<Rightarrow> [[c]] | p # ps \<Rightarrow> (c # p) # ps))"

definition SplitN2 :: "string \<Rightarrow> char \<Rightarrow> string list" where
  "SplitN2 s sep =
     (if sep \<in> set s then [takeWhile (\<lambda>c. c \<noteq> sep) s, tl (dropWhile (\<lambda>c. c \<noteq> sep) s)] else [s])"

definition ToUpper_ascii :: "string \<Rightarrow> string" where
  "ToUpper_ascii s =
     map (\<lambda>c. if 97 \<le> byte_of c \<and> byte_of c \<le> 122 then chr_of (byte_of c - 32) else c) s"

subsection \<open>Package unicode/utf8\<close>

definition in_range :: "nat \<Rightarrow> nat \<Rightarrow> char \<Rightarrow> bool" where
  "in_range lo hi c = (lo \<le> byte_of c \<and> byte_of c \<le> hi)"

text \<open>
  The width of the first rune as \<^verbatim>\<open>utf8.DecodeRune\<close> reads it; \<^const>\<open>None\<close> where that
  function returns \<^verbatim>\<open>(RuneError, 1)\<close>, that is on a byte that starts no valid encoding.
\<close>

definition rune_size :: "string \<Rightarrow> nat option" where
  "rune_size s =
     (case s of [] \<Rightarrow> None
      | c0 # r0 \<Rightarrow>
        if in_range 0 127 c0 then Some 1
        else (case r0 of [] \<Rightarrow> None
          | c1 # r1 \<Rightarrow>
            if in_range 194 223 c0 then (if in_range 128 191 c1 then Some 2 else None)
            else (case r1 of [] \<Rightarrow> None
              | c2 # r2 \<Rightarrow>
                if in_range 224 239 c0 then
                  (if in_range (if byte_of c0 = 224 then 160 else 128)
                               (if byte_of c0 = 237 then 159 else 191) c1
                      \<and> in_range 128 191 c2
                   then Some 3 else None)
                else (case r2 of [] \<Rightarrow> None
                  | c3 # r3 \<Rightarrow>
                    if in_range 240 244 c0
                      \<and> in_range (if byte_of c0 = 240 then 144 else 128)
                                 (if byte_of c0 = 244 then 143 else 191) c1
                      \<and> in_range 128 191 c2 \<and> in_range 128 191 c3
                    then Some 4 else None))))"

lemma rune_size_bounds:
  "rune_size s = Some k \<Longrightarrow> 0 < k \<and> k \<le> 4 \<and> k \<le> length s"
  by (auto simp: rune_size_def split: list.splits if_splits)

text \<open>\<^verbatim>\<open>utf8.AppendRune\<close>: surrogates and values above U+10FFFF become U+FFFD.\<close>

definition encode_rune :: "nat \<Rightarrow> string" where
  "encode_rune r =
     (let r = (if 55296 \<le> r \<and> r \<le> 57343 \<or> 1114111 < r then 65533 else r) in
      map chr_of
       (if r \<le> 127 then [r]
        else if r \<le> 2047 then [192 + r div 64, 128 + r mod 64]
        else if r \<le> 65535 then [224 + r div 4096, 128 + (r div 64) mod 64, 128 + r mod 64]
        else [240 + r div 262144, 128 + (r div 4096) mod 64, 128 + (r div 64) mod 64, 128 + r mod 64]))"

definition rune_error :: string where
  "rune_error = map chr_of [239, 191, 189]"

text \<open>\<^verbatim>\<open>utf8.Valid\<close>.\<close>

function valid_utf8 :: "string \<Rightarrow> bool" where
  "valid_utf8 s = (s = [] \<or> (case rune_size s of None \<Rightarrow> False | Some k \<Rightarrow> valid_utf8 (drop k s)))"
  by pat_completeness auto
termination
  by (relation "measure length") (auto dest!: rune_size_bounds)

declare valid_utf8.simps [simp del]

subsection \<open>Package encoding/base64: StdEncoding\<close>

definition b64_alphabet :: string where
  "b64_alphabet = ''ABCDEFGHIJKLMNOPQRSTUVWXYZabcdefghijklmnopqrstuvwxyz0123456789+/''"

definition b64_char :: "nat \<Rightarrow> char" where
  "b64_char v = b64_alphabet ! (v mod 64)"

fun b64_encode :: "bytes \<Rightarrow> string" where
  "b64_encode [] = []"
| "b64_encode [a] =
     [b64_char (byte_of a div 4), b64_char (byte_of a mod 4 * 16), CHR ''='', CHR ''='']"
| "b64_encode [a, b] =
     [b64_char (byte_of a div 4), b64_char (byte_of a mod 4 * 16 + byte_of b div 16),
      b64_char (byte_of b mod 16 * 4), CHR ''='']"
| "b64_encode (a # b # c # r) =
     b64_char (byte_of a div 4) # b64_char (byte_of a mod 4 * 16 + byte_of b div 16)
     # b64_char (byte_of b mod 16 * 4 + byte_of c div 64) # b64_char (byte_of c mod 64)
     # b64_encode r"

definition b64_value :: "char \<Rightarrow> nat option" where
  "b64_value c =
     (let n = byte_of c in
      if 65 \<le> n \<and> n \<le> 90 then Some (n - 65)
      else if 97 \<le> n \<and> n \<le> 122 then Some (n - 71)
      else if 48 \<le> n \<and> n \<le> 57 then Some (n + 4)
      else if n = 43 then Some 62
      else if n = 47 then Some 63
      else None)"

text \<open>
  Decoding reads quanta of four characters; the last one may end in padding, and the
  trailing bits of a padded quantum are not checked (StdEncoding is not strict).
  Carriage returns and newlines are skipped wherever they stand.
\<close>

fun b64_quanta :: "string \<Rightarrow> bytes option" where
  "b64_quanta [] = Some []"
| "b64_quanta (p # q # r # s # rest) =
     (case (b64_value p, b64_value q) of
        (Some vp, Some vq) \<Rightarrow>
          (case b64_value r of
             None \<Rightarrow>
               if r = CHR ''='' \<and> s = CHR ''='' \<and> rest = []
               then Some [chr_of (vp * 4 + vq div 16)] else None
           | Some vr \<Rightarrow>
             (case b64_value s of
                None \<Rightarrow>
                  if s = CHR ''='' \<and> rest = []
                  then Some [chr_of (vp * 4 + vq div 16), chr_of (vq mod 16 * 16 + vr div 4)]
                  else None
              | Some vs \<Rightarrow>
                (case b64_quanta rest of
                   None \<Rightarrow> None
                 | Some out \<Rightarrow>
                   Some (chr_of (vp * 4 + vq div 16) # chr_of (vq mod 16 * 16 + vr div 4)
                         # chr_of (vr mod 4 * 64 + vs) # out))))
      | _ \<Rightarrow> None)"
| "b64_quanta _ = None"

definition b64_decode :: "string \<Rightarrow> bytes option" where
  "b64_decode s = b64_quanta (filter (\<lambda>c. byte_of c \<noteq> 10 \<and> byte_of c \<noteq> 13) s)"

subsection \<open>Facts about bytes, UTF-8 and base64\<close>

lemma chr_of_byte [simp]: "chr_of (byte_of c) = c"
  by (simp add: chr_of_def)

lemma byte_of_chr: "n < 256 \<Longrightarrow> byte_of (chr_of n) = n"
  by (simp add: chr_of_def)

lemma byte_less_256: "byte_of c < 256"
  by (metis of_char_mod_256 mod_less_divisor zero_less_numeral)

lemma rune_size_append:
  assumes "rune_size s = Some k"
  shows "rune_size (take k s @ t) = Some k"
proof -
  from assms obtain c0 r0 where s: "s = c0 # r0" by (cases s) (auto simp: rune_size_def)
  show ?thesis
  proof (cases "in_range 0 127 c0")
    case True
    then show ?thesis using assms s by (auto simp: rune_size_def)
  next
    case False
    then obtain c1 r1 where r0: "r0 = c1 # r1" using assms s by (cases r0) (auto simp: rune_size_def)
    show ?thesis
    proof (cases "in_range 194 223 c0")
      case True
      then show ?thesis using assms s r0 False by (simp add: rune_size_def split: if_splits)
    next
      case F2: False
      then obtain c2 r2 where r1: "r1 = c2 # r2" using assms s r0 False by (cases r1) (auto simp: rune_size_def)
      show ?thesis
      proof (cases "in_range 224 239 c0")
        case True
        then show ?thesis using assms s r0 r1 False F2 by (simp add: rune_size_def split: if_split_asm)
      next
        case F3: False
        then obtain c3 r3 where "r2 = c3 # r3" using assms s r0 r1 False F2 by (cases r2) (auto simp: rune_size_def)
        then show ?thesis using assms s r0 r1 False F2 F3 by (simp add: rune_size_def split: if_split_asm)
      qed
    qed
  qed
qed

lemma valid_utf8_Nil [simp]: "valid_utf8 []"
  by (simp add: valid_utf8.simps)

lemma valid_utf8_ascii: "list_all (\<lambda>c. byte_of c < 128) s \<Longrightarrow> valid_utf8 s"
proof (induction s)
  case (Cons c cs)
  then have "rune_size (c # cs) = Some 1" by (simp add: rune_size_def in_range_def)
  then show ?case using Cons by (simp add: valid_utf8.simps [of "c # cs"])
qed (simp add: valid_utf8.simps)

lemma b64_value_char:
  assumes "v < 64"
  shows "b64_value (b64_char v) = Some v \<and> byte_of (b64_char v) \<noteq> 10 \<and> byte_of (b64_char v) \<noteq> 13"
proof -
  have "list_all (\<lambda>v. b64_value (b64_char v) = Some v \<and> byte_of (b64_char v) \<noteq> 10 \<and> byte_of (b64_char v) \<noteq> 13) [0..<64]"
    by (simp add: upt_rec b64_char_def b64_alphabet_def b64_value_def)
  with assms show ?thesis by (simp add: list_all_iff)
qed

lemma b64_value_pad [simp]: "b64_value (CHR ''='') = None"
  by (simp add: b64_value_def)

lemma b64_quanta_encode: "b64_quanta (b64_encode bs) = Some bs"
proof (induction bs rule: b64_encode.induct)
  case (2 a)
  have "byte_of a div 4 < 64" using byte_less_256 [of a] by (simp add: div_less_iff_less_mult)
  then show ?case by (simp add: b64_value_char)
next
  case (3 a b)
  have "byte_of a div 4 < 64" "byte_of b div 16 < 16" 
    using byte_less_256 [of a] byte_less_256 [of b] by (simp_all add: div_less_iff_less_mult)
  then show ?case by (simp add: b64_value_char)
next
  case (4 a b c r)
  have "byte_of a div 4 < 64" "byte_of b div 16 < 16" "byte_of c div 64 < 4"
    using byte_less_256 [of a] byte_less_256 [of b] byte_less_256 [of c]
    by (simp_all add: div_less_iff_less_mult)
  then show ?case using 4 by (simp add: b64_value_char)
qed simp

lemma b64_char_range: "\<exists>w < 64. b64_char v = b64_char w"
  by (rule exI [of _ "v mod 64"]) (simp add: b64_char_def)

lemma b64_encode_chars:
  "c \<in> set (b64_encode bs) \<Longrightarrow> c = CHR ''='' \<or> (\<exists>v < 64. c = b64_char v)"
  by (induction bs rule: b64_encode.induct) (auto simp: b64_char_range)

lemma b64_encode_no_newline:
  "filter (\<lambda>c. byte_of c \<noteq> 10 \<and> byte_of c \<noteq> 13) (b64_encode bs) = b64_encode bs"
  by (rule filter_True) (auto dest!: b64_encode_chars simp: b64_value_char)

lemma b64_roundtrip: "b64_decode (b64_encode bs) = Some bs"
  by (simp add: b64_decode_def b64_encode_no_newline b64_quanta_encode)

lemma b64_char_ascii: "v < 64 \<Longrightarrow> byte_of (b64_char v) < 128"
  using b64_value_char [of v] by (auto simp: b64_value_def Let_def split: if_splits)

lemma valid_utf8_b64 [simp]: "valid_utf8 (b64_encode bs)"
  by (rule valid_utf8_ascii) (auto simp: list_all_iff b64_char_ascii dest!: b64_encode_chars)

end
