(* ===== verification/Json.thy ===== *)
theory Json
  imports GoText
begin

text \<open>
  What the program uses of Go's \<^verbatim>\<open>encoding/json\<close>: documents as a datatype, the compact
  text that \<^verbatim>\<open>json.Marshal\<close> writes (with its HTML-safe string escapes) and the reader of
  \<^verbatim>\<open>json.Unmarshal\<close> (its scanner, string unquoting and field matching).  A number keeps its
  literal text.
\<close>

datatype json =
    JNull
  | JBool bool
  | JNum string
  | JStr string
  | JArr "json list"
  | JObj "(string \<times> json) list"

subsection \<open>Writing\<close>

definition hex_digits :: string where
  "hex_digits = ''0123456789abcdef''"

definition escape_u00 :: "char \<Rightarrow> string" where
  "escape_u00 c = [CHR 0x5C, CHR ''u'', CHR ''0'', CHR ''0'',
     hex_digits ! (byte_of c div 16), hex_digits ! (byte_of c mod 16)]"

definition escape_ascii :: "char \<Rightarrow> string" where
  "escape_ascii c =
     (if c = CHR 0x5C \<or> c = CHR 0x22 then [CHR 0x5C, c]
      else if c = CHR 0x08 then [CHR 0x5C, CHR ''b'']
      else if c = CHR 0x0C then [CHR 0x5C, CHR ''f'']
      else if c = CHR 0x0A then [CHR 0x5C, CHR ''n'']
      else if c = CHR 0x0D then [CHR 0x5C, CHR ''r'']
      else if c = CHR 0x09 then [CHR 0x5C, CHR ''t'']
      else if byte_of c < 32 \<or> c = CHR ''<'' \<or> c = CHR ''>'' \<or> c = CHR ''&'' then escape_u00 c
      else [c])"

definition line_sep :: string where
  "line_sep = [CHR 0xE2, CHR 0x80, CHR 0xA8]"

definition para_sep :: string where
  "para_sep = [CHR 0xE2, CHR 0x80, CHR 0xA9]"

text \<open>
  The body of a string literal.  A byte that starts no valid UTF-8 encoding is written as
  the escape of U+FFFD; U+2028 and U+2029 are escaped.
\<close>

function encode_chars :: "string \<Rightarrow> string" where
  "encode_chars s =
     (case s of [] \<Rightarrow> []
      | c # cs \<Rightarrow>
        if byte_of c < 128 then escape_ascii c @ encode_chars cs
        else (case rune_size s of
                None \<Rightarrow> CHR 0x5C # ''ufffd'' @ encode_chars cs
              | Some k \<Rightarrow>
                (if take k s = line_sep then CHR 0x5C # ''u2028''
                 else if take k s = para_sep then CHR 0x5C # ''u2029''
                 else take k s) @ encode_chars (drop k s)))"
  by pat_completeness auto
termination
  by (relation "measure length") (auto dest!: rune_size_bounds)

declare encode_chars.simps [simp del]

definition print_string :: "string \<Rightarrow> string" where
  "print_string s = CHR 0x22 # encode_chars s @ [CHR 0x22]"

fun print_json :: "json \<Rightarrow> string"
  and print_elems :: "json list \<Rightarrow> string"
  and print_members :: "(string \<times> json) list \<Rightarrow> string" where
  "print_json JNull = ''null''"
| "print_json (JBool b) = (if b then ''true'' else ''false'')"
| "print_json (JNum n) = n"
| "print_json (JStr s) = print_string s"
| "print_json (JArr vs) = CHR ''['' # print_elems vs @ '']''"
| "print_json (JObj ms) = CHR ''{'' # print_members ms @ ''}''"
| "print_elems [] = []"
| "print_elems [v] = print_json v"
| "print_elems (v # w # vs) = print_json v @ CHR '','' # print_elems (w # vs)"
| "print_members [] = []"
| "print_members [(k, v)] = print_string k @ CHR '':'' # print_json v"
| "print_members ((k, v) # m # ms) =
     print_string k @ CHR '':'' # print_json v @ CHR '','' # print_members (m # ms)"

fun decimal :: "nat \<Rightarrow> string" where
  "decimal n = (if n < 10 then [chr_of (48 + n)] else decimal (n div 10) @ [chr_of (48 + n mod 10)])"

declare decimal.simps [simp del]

subsection \<open>Reading\<close>

definition is_digit :: "char \<Rightarrow> bool" where
  "is_digit c = in_range 48 57 c"

definition json_space :: "char \<Rightarrow> bool" where
  "json_space c = (c = CHR 0x20 \<or> c = CHR 0x09 \<or> c = CHR 0x0D \<or> c = CHR 0x0A)"

definition skip_space :: "string \<Rightarrow> string" where
  "skip_space s = dropWhile json_space s"

definition hex_value :: "char \<Rightarrow> nat option" where
  "hex_value c =
     (if in_range 48 57 c then Some (byte_of c - 48)
      else if in_range 97 102 c then Some (byte_of c - 87)
      else if in_range 65 70 c then Some (byte_of c - 55)
      else None)"

text \<open>Four hexadecimal digits at the head of the text.\<close>

definition hex4 :: "string \<Rightarrow> nat option" where
  "hex4 s = (case s of
      a # b # c # d # r \<Rightarrow>
        (case (hex_value a, hex_value b, hex_value c, hex_value d) of
           (Some x, Some y, Some z, Some w) \<Rightarrow> Some (((x * 16 + y) * 16 + z) * 16 + w)
         | _ \<Rightarrow> None)
    | _ \<Rightarrow> None)"

definition high_surrogate :: "nat \<Rightarrow> bool" where
  "high_surrogate r = (55296 \<le> r \<and> r \<le> 56319)"

definition low_surrogate :: "nat \<Rightarrow> bool" where
  "low_surrogate r = (56320 \<le> r \<and> r \<le> 57343)"

text \<open>
  The text after a backslash and \<^verbatim>\<open>u\<close>: the bytes the escape stands for and how many
  characters it takes.  A surrogate is joined with a following escaped low surrogate;
  any other surrogate reads as U+FFFD.
\<close>

definition unquote_u :: "string \<Rightarrow> (string \<times> nat) option" where
  "unquote_u s =
     (case hex4 s of None \<Rightarrow> None
      | Some r \<Rightarrow>
        if high_surrogate r \<and> take 2 (drop 4 s) = [CHR 0x5C, CHR ''u''] then
          (case hex4 (drop 6 s) of
             None \<Rightarrow> Some (rune_error, 4)
           | Some r2 \<Rightarrow>
             if low_surrogate r2
             then Some (encode_rune (65536 + (r - 55296) * 1024 + (r2 - 56320)), 10)
             else Some (rune_error, 4))
        else if high_surrogate r \<or> low_surrogate r then Some (rune_error, 4)
        else Some (encode_rune r, 4))"

definition unescape :: "char \<Rightarrow> char option" where
  "unescape c =
     (if c = CHR 0x22 \<or> c = CHR 0x5C \<or> c = CHR ''/'' then Some c
      else if c = CHR ''b'' then Some (CHR 0x08)
      else if c = CHR ''f'' then Some (CHR 0x0C)
      else if c = CHR ''n'' then Some (CHR 0x0A)
      else if c = CHR ''r'' then Some (CHR 0x0D)
      else if c = CHR ''t'' then Some (CHR 0x09)
      else None)"

text \<open>The text after an opening quote: the unquoted string and what follows the closing one.\<close>

function parse_chars :: "string \<Rightarrow> (string \<times> string) option" where
  "parse_chars s =
     (case s of [] \<Rightarrow> None
      | c # cs \<Rightarrow>
        if c = CHR 0x22 then Some ([], cs)
        else if c = CHR 0x5C then
          (case cs of [] \<Rightarrow> None
           | e # es \<Rightarrow>
             if e = CHR ''u'' then
               (case unquote_u es of None \<Rightarrow> None
                | Some (out, k) \<Rightarrow> map_option (apfst ((@) out)) (parse_chars (drop k es)))
             else
               (case unescape e of None \<Rightarrow> None
                | Some d \<Rightarrow> map_option (apfst ((#) d)) (parse_chars es)))
        else if byte_of c < 32 then None
        else if byte_of c < 128 then map_option (apfst ((#) c)) (parse_chars cs)
        else
          (case rune_size s of
             None \<Rightarrow> map_option (apfst ((@) rune_error)) (parse_chars cs)
           | Some k \<Rightarrow> map_option (apfst ((@) (take k s))) (parse_chars (drop k s))))"
  by pat_completeness auto
termination
  by (relation "measure length") (auto dest!: rune_size_bounds)

declare parse_chars.simps [simp del]

text \<open>
  A number literal: an optional minus sign, zero or a digit string without a leading
  zero, an optional fraction and an optional exponent.
\<close>

definition parse_fraction :: "string \<Rightarrow> (string \<times> string) option" where
  "parse_fraction s = (case s of
      [] \<Rightarrow> Some ([], s)
    | c # cs \<Rightarrow>
      if c = CHR ''.'' then
        (if takeWhile is_digit cs = [] then None
         else Some (c # takeWhile is_digit cs, dropWhile is_digit cs))
      else Some ([], s))"

definition parse_exponent :: "string \<Rightarrow> (string \<times> string) option" where
  "parse_exponent s = (case s of
      [] \<Rightarrow> Some ([], s)
    | c # cs \<Rightarrow>
      if c = CHR ''e'' \<or> c = CHR ''E'' then
        (let sg = (case cs of d # ds \<Rightarrow> if d = CHR ''+'' \<or> d = CHR ''-'' then [d] else [] | [] \<Rightarrow> []);
             r = drop (length sg) cs in
         if takeWhile is_digit r = [] then None
         else Some (c # sg @ takeWhile is_digit r, dropWhile is_digit r))
      else Some ([], s))"

definition parse_number :: "string \<Rightarrow> (string \<times> string) option" where
  "parse_number s =
     (let sg = (case s of c # cs \<Rightarrow> if c = CHR ''-'' then [c] else [] | [] \<Rightarrow> []);
          r = drop (length sg) s;
          ip = (case r of c # cs \<Rightarrow> if c = CHR ''0'' then [c] else takeWhile is_digit r | [] \<Rightarrow> []);
          r = drop (length ip) r in
      if ip = [] then None
      else
        (case parse_fraction r of None \<Rightarrow> None
         | Some (fp, r) \<Rightarrow>
           (case parse_exponent r of None \<Rightarrow> None
            | Some (ep, r) \<Rightarrow> Some (sg @ ip @ fp @ ep, r))))"

text \<open>
  The value reader.  \<open>depth\<close> is Go's bound of 10000 nested arrays and objects, and
  \<open>fuel\<close> bounds the recursion: two calls consume at least one character, so twice the
  length of the text is enough (lemma \<open>parse_value_fuel\<close>).
\<close>

fun parse_value :: "nat \<Rightarrow> nat \<Rightarrow> string \<Rightarrow> (json \<times> string) option"
  and parse_elems :: "nat \<Rightarrow> nat \<Rightarrow> string \<Rightarrow> (json list \<times> string) option"
  and parse_members :: "nat \<Rightarrow> nat \<Rightarrow> string \<Rightarrow> ((string \<times> json) list \<times> string) option" where
  "parse_value 0 depth s = None"
| "parse_value (Suc fuel) depth s0 =
     (case skip_space s0 of [] \<Rightarrow> None
      | c # cs \<Rightarrow>
        if c = CHR 0x22 then map_option (apfst JStr) (parse_chars cs)
        else if c = CHR ''['' then
          (if depth = 0 then None
           else if take 1 (skip_space cs) = '']'' then Some (JArr [], drop 1 (skip_space cs))
           else map_option (apfst JArr) (parse_elems fuel (depth - 1) cs))
        else if c = CHR ''{'' then
          (if depth = 0 then None
           else if take 1 (skip_space cs) = ''}'' then Some (JObj [], drop 1 (skip_space cs))
           else map_option (apfst JObj) (parse_members fuel (depth - 1) cs))
        else if take 4 (c # cs) = ''null'' then Some (JNull, drop 4 (c # cs))
        else if take 4 (c # cs) = ''true'' then Some (JBool True, drop 4 (c # cs))
        else if take 5 (c # cs) = ''false'' then Some (JBool False, drop 5 (c # cs))
        else map_option (apfst JNum) (parse_number (c # cs)))"
| "parse_elems 0 depth s = None"
| "parse_elems (Suc fuel) depth s =
     (case parse_value fuel depth s of None \<Rightarrow> None
      | Some (v, r) \<Rightarrow>
        (case skip_space r of [] \<Rightarrow> None
         | c # cs \<Rightarrow>
           if c = CHR '']'' then Some ([v], cs)
           else if c = CHR '','' then map_option (apfst ((#) v)) (parse_elems fuel depth cs)
           else None))"
| "parse_members 0 depth s = None"
| "parse_members (Suc fuel) depth s =
     (case skip_space s of [] \<Rightarrow> None
      | q # qs \<Rightarrow>
        if q \<noteq> CHR 0x22 then None
        else
          (case parse_chars qs of None \<Rightarrow> None
           | Some (k, r) \<Rightarrow>
             (case skip_space r of [] \<Rightarrow> None
              | d # ds \<Rightarrow>
                if d \<noteq> CHR '':'' then None
                else
                  (case parse_value fuel depth ds of None \<Rightarrow> None
                   | Some (v, r) \<Rightarrow>
                     (case skip_space r of [] \<Rightarrow> None
                      | c # cs \<Rightarrow>
                        if c = CHR ''}'' then Some ([(k, v)], cs)
                        else if c = CHR '','' then
                          map_option (apfst ((#) (k, v))) (parse_members fuel depth cs)
                        else None)))))"

definition max_depth :: nat where
  "max_depth = 10000"

text \<open>The whole text is one value with white space around it.\<close>

definition parse_json :: "string \<Rightarrow> json option" where
  "parse_json s =
     (case parse_value (Suc (2 * length s)) max_depth s of
        Some (v, r) \<Rightarrow> if skip_space r = [] then Some v else None
      | None \<Rightarrow> None)"

subsection \<open>Decoding into struct fields\<close>

text \<open>
  \<^verbatim>\<open>foldName\<close>: a key matches a field name of the struct exactly or else up to case.  The
  Kelvin sign folds to K and the long s to S; no other rune outside ASCII folds into it.
\<close>

fun fold_name :: "string \<Rightarrow> string" where
  "fold_name [] = []"
| "fold_name (c # cs) =
     (if c = CHR 0xC5 \<and> take 1 cs = [CHR 0xBF] then CHR ''S'' # fold_name (drop 1 cs)
      else if c = CHR 0xE2 \<and> take 2 cs = [CHR 0x84, CHR 0xAA] then CHR ''K'' # fold_name (drop 2 cs)
      else (if in_range 97 122 c then chr_of (byte_of c - 32) else c) # fold_name cs)"

definition field_match :: "string \<Rightarrow> string list \<Rightarrow> string option" where
  "field_match key names =
     (if key \<in> set names then Some key
      else find (\<lambda>f. fold_name f = fold_name key) names)"

text \<open>A string field: null leaves it unchanged, any other type is an error.\<close>

definition decode_string :: "json \<Rightarrow> string \<Rightarrow> string option" where
  "decode_string v old = (case v of JStr s \<Rightarrow> Some s | JNull \<Rightarrow> Some old | _ \<Rightarrow> None)"

text \<open>\<^verbatim>\<open>strconv.ParseUint\<close> of a number literal, for an unsigned type of the given size.\<close>

definition parse_uint :: "nat \<Rightarrow> string \<Rightarrow> nat option" where
  "parse_uint bound s =
     (if s = [] \<or> \<not> list_all is_digit s then None
      else (let n = foldl (\<lambda>a c. a * 10 + (byte_of c - 48)) 0 s in
            if n < bound then Some n else None))"

definition decode_uint64 :: "json \<Rightarrow> uint64 \<Rightarrow> uint64 option" where
  "decode_uint64 v old =
     (case v of JNum n \<Rightarrow> map_option of_nat (parse_uint (2 ^ 64) n) | JNull \<Rightarrow> Some old | _ \<Rightarrow> None)"

definition decode_uint8 :: "json \<Rightarrow> char option" where
  "decode_uint8 v =
     (case v of JNum n \<Rightarrow> map_option chr_of (parse_uint 256 n) | JNull \<Rightarrow> Some (CHR 0x00) | _ \<Rightarrow> None)"

text \<open>
  A \<^verbatim>\<open>[]byte\<close> field: a string is base64, null is the nil slice and an array gives the
  bytes one by one.
\<close>

fun decode_uint8s :: "json list \<Rightarrow> bytes option" where
  "decode_uint8s [] = Some []"
| "decode_uint8s (v # vs) =
     (case decode_uint8 v of None \<Rightarrow> None | Some b \<Rightarrow> map_option ((#) b) (decode_uint8s vs))"

definition decode_bytes :: "json \<Rightarrow> bytes option" where
  "decode_bytes v =
     (case v of JStr s \<Rightarrow> b64_decode s | JNull \<Rightarrow> Some [] | JArr vs \<Rightarrow> decode_uint8s vs | _ \<Rightarrow> None)"

text \<open>
  A struct: the members in order, each into the field its key matches; members that
  match no field are skipped.  \<open>set\<close> decodes a value into a field of the struct.
\<close>

fun decode_members :: "string list \<Rightarrow> (string \<Rightarrow> json \<Rightarrow> 'a \<Rightarrow> 'a option) \<Rightarrow> (string \<times> json) list \<Rightarrow> 'a \<Rightarrow> 'a option" where
  "decode_members names set_field [] a = Some a"
| "decode_members names set_field ((k, v) # ms) a =
     (case field_match k names of
        None \<Rightarrow> decode_members names set_field ms a
      | Some f \<Rightarrow>
        (case set_field f v a of None \<Rightarrow> None | Some a' \<Rightarrow> decode_members names set_field ms a'))"

definition decode_struct :: "string list \<Rightarrow> (string \<Rightarrow> json \<Rightarrow> 'a \<Rightarrow> 'a option) \<Rightarrow> json \<Rightarrow> 'a \<Rightarrow> 'a option" where
  "decode_struct names set_field v a =
     (case v of JObj ms \<Rightarrow> decode_members names set_field ms a | JNull \<Rightarrow> Some a | _ \<Rightarrow> None)"

subsection \<open>Reading back a string literal\<close>

lemma hex_value_digit:
  assumes "k < 16"
  shows "hex_value (hex_digits ! k) = Some k"
proof -
  have "list_all (\<lambda>k. hex_value (hex_digits ! k) = Some k) [0..<16]"
    by (simp add: upt_rec hex_digits_def hex_value_def in_range_def)
  with assms show ?thesis by (simp add: list_all_iff)
qed

lemma append_singleton_eq: "(@) [c] = (#) c"
  by (rule ext) simp

lemma unquote_u_ascii:
  assumes "byte_of c < 128"
  shows "unquote_u (CHR ''0'' # CHR ''0'' # hex_digits ! (byte_of c div 16) # hex_digits ! (byte_of c mod 16) # t)
           = Some ([c], 4)"
proof -
  have "hex_value (CHR ''0'') = Some 0" by (simp add: hex_value_def in_range_def)
  moreover have "(byte_of c div 16) * 16 + byte_of c mod 16 = byte_of c" by simp
  ultimately show ?thesis using assms
    by (simp add: unquote_u_def hex4_def hex_value_digit high_surrogate_def low_surrogate_def encode_rune_def Let_def)
qed

lemma parse_escape_ascii:
  assumes "byte_of c < 128"
  shows "parse_chars (escape_ascii c @ t) = map_option (apfst ((#) c)) (parse_chars t)"
  using assms unquote_u_ascii [OF assms, of t]
  by (auto simp: escape_ascii_def escape_u00_def parse_chars.simps [of "_ # _"] unescape_def
      append_singleton_eq)

lemma encode_rune_sep:
  "encode_rune 8232 = line_sep" "encode_rune 8233 = para_sep"
  by (simp_all add: encode_rune_def line_sep_def para_sep_def chr_of_def char_of_eq_iff)

lemma parse_escape_sep:
  "parse_chars (CHR 0x5C # ''u2028'' @ t) = map_option (apfst ((@) line_sep)) (parse_chars t)"
  "parse_chars (CHR 0x5C # ''u2029'' @ t) = map_option (apfst ((@) para_sep)) (parse_chars t)"
  by (simp_all add: parse_chars.simps [of "_ # _"] unquote_u_def hex4_def hex_value_def in_range_def
      high_surrogate_def low_surrogate_def encode_rune_sep)

lemma parse_rune:
  assumes k: "rune_size s = Some k" and "s = c # cs" and "\<not> byte_of c < 128"
  shows "parse_chars (take k s @ t) = map_option (apfst ((@) (take k s))) (parse_chars t)"
proof -
  from k have "0 < k" "k \<le> length s" using rune_size_bounds by blast+
  then obtain ds where d: "take k s = c # ds" using assms(2) by (cases k) auto
  have "c \<noteq> CHR 0x22" "c \<noteq> CHR 0x5C" using assms(3) by auto
  moreover have "take k (take k s @ t) = take k s" "drop k (take k s @ t) = t"
    using \<open>k \<le> length s\<close> by simp_all
  ultimately show ?thesis using assms(3) d rune_size_append [OF k, of t]
    by (simp add: parse_chars.simps [of "c # ds @ t"])
qed

lemma parse_encode_chars:
  "valid_utf8 s \<Longrightarrow> parse_chars (encode_chars s @ CHR 0x22 # r) = Some (s, r)"
proof (induction s rule: encode_chars.induct)
  case (1 s)
  show ?case
  proof (cases s)
    case Nil
    then show ?thesis by (simp add: encode_chars.simps parse_chars.simps)
  next
    case (Cons c cs)
    show ?thesis
    proof (cases "byte_of c < 128")
      case True
      have "rune_size s = Some 1" using True Cons by (simp add: rune_size_def in_range_def)
      then have "valid_utf8 cs" using 1(4) Cons by (simp add: valid_utf8.simps [of "c # cs"])
      then have "parse_chars (encode_chars cs @ CHR 0x22 # r) = Some (cs, r)"
        using 1(1) Cons True by blast
      then show ?thesis using True Cons
        by (simp add: encode_chars.simps [of "c # cs"] parse_escape_ascii)
    next
      case False
      obtain k where k: "rune_size s = Some k" and v: "valid_utf8 (drop k s)"
        using 1(4) Cons by (auto simp: valid_utf8.simps [of "c # cs"] split: option.splits)
      have ih: "parse_chars (encode_chars (drop k s) @ CHR 0x22 # r) = Some (drop k s, r)"
        using 1(3) [OF Cons False k v] .
      have whole: "encode_chars s =
          (if take k s = line_sep then CHR 0x5C # ''u2028''
           else if take k s = para_sep then CHR 0x5C # ''u2029'' else take k s) @ encode_chars (drop k s)"
        using Cons False k by (subst encode_chars.simps) simp
      show ?thesis unfolding whole
        using ih parse_escape_sep parse_rune [OF k Cons False]
          append_take_drop_id [of k s] by (auto simp del: append_take_drop_id)
    qed
  qed
qed

subsection \<open>Round trip\<close>

definition num_lit :: "string \<Rightarrow> bool" where
  "num_lit n = (n \<noteq> [] \<and> list_all is_digit n \<and> (n = ''0'' \<or> hd n \<noteq> CHR ''0''))"

fun json_ok :: "json \<Rightarrow> bool" where
  "json_ok JNull = True"
| "json_ok (JBool b) = True"
| "json_ok (JNum n) = num_lit n"
| "json_ok (JStr s) = valid_utf8 s"
| "json_ok (JArr vs) = (\<forall>v \<in> set vs. json_ok v)"
| "json_ok (JObj ms) = (\<forall>m \<in> set ms. valid_utf8 (fst m) \<and> json_ok (snd m))"

fun json_depth :: "json \<Rightarrow> nat" where
  "json_depth (JArr vs) = Suc (Max (insert 0 (set (map json_depth vs))))"
| "json_depth (JObj ms) = Suc (Max (insert 0 (set (map (\<lambda>m. json_depth (snd m)) ms))))"
| "json_depth _ = 0"

definition delim :: "string \<Rightarrow> bool" where
  "delim r = (r = [] \<or> hd r \<in> {CHR '','', CHR '']'', CHR ''}''})"

lemma delim_Cons [simp]:
  "delim (CHR '','' # r)" "delim (CHR '']'' # r)" "delim (CHR ''}'' # r)" "delim []"
  by (simp_all add: delim_def)

lemma takeWhile_digits:
  assumes "list_all is_digit n" and "delim r"
  shows "takeWhile is_digit (n @ r) = n" and "dropWhile is_digit (n @ r) = r"
proof -
  have "takeWhile is_digit r = []" "dropWhile is_digit r = r"
    using assms(2) by (cases r; auto simp: delim_def is_digit_def in_range_def)+
  then show "takeWhile is_digit (n @ r) = n" "dropWhile is_digit (n @ r) = r"
    using assms(1) by (simp_all add: list_all_iff takeWhile_append2 dropWhile_append2)
qed

lemma parse_number_lit:
  assumes "num_lit n" and "delim r"
  shows "parse_number (n @ r) = Some (n, r)"
proof -
  obtain c cs where n: "n = c # cs" using assms(1) by (cases n) (auto simp: num_lit_def)
  have c: "is_digit c" and ds: "list_all is_digit n" and z: "c = CHR ''0'' \<longrightarrow> cs = []"
    using assms(1) n by (auto simp: num_lit_def)
  have nm: "c \<noteq> CHR ''-''" using c by (auto simp: is_digit_def in_range_def)
  have tl: "takeWhile is_digit (c # cs @ r) = c # cs"
    using takeWhile_digits [OF ds assms(2)] n by simp
  have fe: "parse_fraction r = Some ([], r)" "parse_exponent r = Some ([], r)"
    using assms(2) by (cases r; auto simp: delim_def parse_fraction_def parse_exponent_def)+
  show ?thesis
    using n nm z tl fe by (auto simp: parse_number_def Let_def)
qed

lemma is_digit_not_special:
  "is_digit c \<Longrightarrow> \<not> json_space c \<and> c \<noteq> CHR '']'' \<and> c \<noteq> CHR ''}'' \<and> c \<noteq> CHR 0x22 \<and> c \<noteq> CHR ''[''
     \<and> c \<noteq> CHR ''{'' \<and> c \<noteq> CHR ''n'' \<and> c \<noteq> CHR ''t'' \<and> c \<noteq> CHR ''f''"
  by (auto simp: is_digit_def in_range_def json_space_def)

lemma print_json_head:
  assumes "json_ok v"
  obtains c cs where "print_json v = c # cs" "\<not> json_space c" "c \<noteq> CHR '']''" "c \<noteq> CHR ''}''"
proof (cases v)
  case (JNum n)
  then obtain c cs where "n = c # cs" "is_digit c"
    using assms by (cases n) (auto simp: num_lit_def)
  then show ?thesis using JNum that [of c cs] is_digit_not_special [of c] by simp
next
  case (JBool b)
  then show ?thesis using that by (cases b) (auto simp: json_space_def)
qed (auto simp: print_string_def json_space_def that split: if_splits)

lemma skip_space_Cons [simp]: "\<not> json_space c \<Longrightarrow> skip_space (c # cs) = c # cs"
  by (simp add: skip_space_def)

lemma json_space_delims [simp]:
  "\<not> json_space (CHR '','')" "\<not> json_space (CHR '']'')" "\<not> json_space (CHR ''}'')"
  "\<not> json_space (CHR ''['')" "\<not> json_space (CHR ''{'')" "\<not> json_space (CHR '':'')"
  "\<not> json_space (CHR 0x22)"
  by (simp_all add: json_space_def)

lemma skip_print_json:
  "json_ok v \<Longrightarrow> skip_space (print_json v @ r) = print_json v @ r"
  by (metis append_Cons print_json_head skip_space_Cons)

lemma parse_value_num:
  assumes "num_lit n" and "delim r"
  shows "parse_value (Suc fuel) depth (n @ r) = Some (JNum n, r)"
proof -
  obtain c cs where n: "n = c # cs" and c: "is_digit c"
    using assms(1) by (cases n) (auto simp: num_lit_def)
  show ?thesis
    using parse_number_lit [OF assms] n is_digit_not_special [OF c] by simp
qed

lemma parse_value_str:
  "valid_utf8 s \<Longrightarrow> parse_value (Suc fuel) depth (print_string s @ r) = Some (JStr s, r)"
  using parse_encode_chars [of s r] by (simp add: print_string_def)

lemma take_print_json:
  "json_ok v \<Longrightarrow> take 1 (skip_space (print_json v @ r)) \<noteq> '']'' \<and> take 1 (skip_space (print_json v @ r)) \<noteq> ''}''"
  by (erule print_json_head) simp

lemma print_json_nonempty: "json_ok v \<Longrightarrow> 0 < length (print_json v)"
  by (erule print_json_head) simp

lemma print_elems_Cons:
  "print_elems (v # vs) = print_json v @ (if vs = [] then [] else CHR '','' # print_elems vs)"
  by (cases vs) simp_all

lemma print_members_Cons:
  "print_members ((k, v) # ms) =
     print_string k @ CHR '':'' # print_json v @ (if ms = [] then [] else CHR '','' # print_members ms)"
  by (cases ms) auto

declare print_elems.simps(2,3) [simp del] print_members.simps(2,3) [simp del]

lemma parse_print:
  "json_ok v \<Longrightarrow> json_depth v \<le> depth \<Longrightarrow> delim r \<Longrightarrow> length (print_json v) < fuel \<Longrightarrow>
     parse_value fuel depth (print_json v @ r) = Some (v, r)"
  "\<forall>v \<in> set vs. json_ok v \<and> json_depth v \<le> depth \<Longrightarrow> vs \<noteq> [] \<Longrightarrow> Suc (length (print_elems vs)) < fuel \<Longrightarrow>
     parse_elems fuel depth (print_elems vs @ CHR '']'' # r) = Some (vs, r)"
  "\<forall>m \<in> set ms. valid_utf8 (fst m) \<and> json_ok (snd m) \<and> json_depth (snd m) \<le> depth \<Longrightarrow> ms \<noteq> [] \<Longrightarrow>
     Suc (length (print_members ms)) < fuel \<Longrightarrow>
     parse_members fuel depth (print_members ms @ CHR ''}'' # r) = Some (ms, r)"
proof (induction v and vs and ms arbitrary: fuel depth r and fuel depth r and fuel depth r
    rule: print_json_print_elems_print_members.induct)
  case (5 vs)
  then obtain f where f: "fuel = Suc f" by (cases fuel) auto
  obtain d where d: "depth = Suc d" using 5 by (cases depth) auto
  show ?case
  proof (cases vs)
    case (Cons v ws)
    have "\<forall>v \<in> set vs. json_ok v \<and> json_depth v \<le> d" using 5(2,3) d by auto
    then have "parse_elems f d (print_elems vs @ CHR '']'' # r) = Some (vs, r)"
      using 5(1,5) Cons f by auto
    moreover have "take 1 (skip_space (print_elems vs @ CHR '']'' # r)) \<noteq> '']''"
      using Cons 5(2) take_print_json [of v] by (simp add: print_elems_Cons)
    ultimately show ?thesis using f d by simp
  qed (use f d in simp)
next
  case (6 ms)
  then obtain f where f: "fuel = Suc f" by (cases fuel) auto
  obtain d where d: "depth = Suc d" using 6 by (cases depth) auto
  show ?case
  proof (cases ms)
    case (Cons m ws)
    have "\<forall>m \<in> set ms. valid_utf8 (fst m) \<and> json_ok (snd m) \<and> json_depth (snd m) \<le> d"
      using 6(2,3) d by auto
    then have "parse_members f d (print_members ms @ CHR ''}'' # r) = Some (ms, r)"
      using 6(1,5) Cons f by auto
    moreover have "take 1 (skip_space (print_members ms @ CHR ''}'' # r)) \<noteq> ''}''"
      using Cons by (cases m) (simp add: print_members_Cons print_string_def)
    ultimately show ?thesis using f d by simp
  qed (use f d in simp)
next
  case (8 v)
  then obtain f where f: "fuel = Suc f" by (cases fuel) auto
  then show ?case using 8 by (simp add: print_elems_Cons)
next
  case (9 v w vs)
  then obtain f where f: "fuel = Suc f" by (cases fuel) auto
  have "0 < length (print_json v)" using 9(3) print_json_nonempty by simp
  then show ?case using 9 f by (simp add: print_elems_Cons [of v])
next
  case (11 k v)
  then obtain f where f: "fuel = Suc f" by (cases fuel) auto
  then show ?case using 11 parse_encode_chars [of k] by (simp add: print_members_Cons print_string_def)
next
  case (12 k v m ms)
  then obtain f where f: "fuel = Suc f" by (cases fuel) auto
  then show ?case using 12 parse_encode_chars [of k] by (simp add: print_members_Cons [of k] print_string_def)
next
  case (3 n)
  then show ?case using parse_value_num by (cases fuel) auto
next
  case (4 s)
  then show ?case using parse_value_str by (cases fuel) auto
qed (auto simp: gr0_conv_Suc json_space_def neq0_conv elim!: less_natE)

lemma parse_print_json:
  "json_ok v \<Longrightarrow> json_depth v \<le> max_depth \<Longrightarrow> parse_json (print_json v) = Some v"
  using parse_print(1) [of v max_depth "[]" "Suc (2 * length (print_json v))"]
  by (simp add: parse_json_def skip_space_def del: parse_value.simps)

subsection \<open>Numbers\<close>

lemma digit_chr: "n < 10 \<Longrightarrow> is_digit (chr_of (48 + n)) \<and> byte_of (chr_of (48 + n)) = 48 + n"
  by (simp add: is_digit_def in_range_def byte_of_chr)

lemma decimal_digits: "list_all is_digit (decimal n) \<and> decimal n \<noteq> []"
proof (induction n rule: decimal.induct)
  case (1 n)
  then show ?case by (subst (1 2) decimal.simps) (simp add: digit_chr)
qed

lemma decimal_hd: "0 < n \<Longrightarrow> hd (decimal n) \<noteq> CHR ''0''"
proof (induction n rule: decimal.induct)
  case (1 n)
  show ?case
  proof (cases "n < 10")
    case True
    then have "byte_of (chr_of (48 + n)) \<noteq> byte_of (CHR ''0'')" using 1(2) by (simp add: byte_of_chr)
    then have "chr_of (48 + n) \<noteq> CHR ''0''" by metis
    then show ?thesis using True by (simp add: decimal.simps [of n])
  next
    case False
    then show ?thesis using 1 decimal_digits [of "n div 10"]
      by (simp add: decimal.simps [of n] div_greater_zero_iff)
  qed
qed

lemma num_lit_decimal [simp]: "num_lit (decimal n)"
proof (cases "n = 0")
  case True
  then show ?thesis
    by (simp add: decimal.simps num_lit_def chr_of_def is_digit_def in_range_def char_of_eq_iff)
next
  case False
  then show ?thesis using decimal_digits [of n] decimal_hd [of n] by (simp add: num_lit_def)
qed

lemma foldl_decimal: "foldl (\<lambda>a c. a * 10 + (byte_of c - 48)) 0 (decimal n) = n"
proof (induction n rule: decimal.induct)
  case (1 n)
  then show ?case
    by (cases "n < 10") (simp_all add: decimal.simps [of n] byte_of_chr)
qed

lemma parse_uint_decimal: "n < bound \<Longrightarrow> parse_uint bound (decimal n) = Some n"
  using decimal_digits [of n] foldl_decimal [of n] by (simp add: parse_uint_def)

lemma decode_uint64_decimal [simp]: "decode_uint64 (JNum (decimal (unat w))) old = Some w"
  by (simp add: decode_uint64_def parse_uint_decimal unat_less_64 [simplified])

subsection \<open>The fuel of the reader is enough\<close>

lemma skip_space_length: "length (skip_space s) \<le> length s"
  by (simp add: skip_space_def length_dropWhile_le)

lemma skip_space_Cons_length: "skip_space s = c # cs \<Longrightarrow> length cs < length s"
  using skip_space_length [of s] by simp

lemma parse_chars_length: "parse_chars s = Some (out, r) \<Longrightarrow> length r < length s"
proof (induction s arbitrary: out r rule: parse_chars.induct)
  case (1 s)
  show ?case
  proof (cases s)
    case Nil
    then show ?thesis using 1(6) by (simp add: parse_chars.simps)
  next
    case (Cons c cs)
    show ?thesis using 1(6) 1(1-5) [OF Cons] Cons
      by (auto simp: parse_chars.simps [of "c # cs"] split: if_splits list.splits option.splits prod.splits)
        (fastforce dest!: rune_size_bounds)+
  qed
qed

lemma parse_number_length: "parse_number s = Some (n, r) \<Longrightarrow> length r \<le> length s"
proof -
  have f: "parse_fraction s = Some (n, r) \<Longrightarrow> length r \<le> length s" for s n r
    using length_dropWhile_le [of is_digit "tl s"]
    by (auto simp: parse_fraction_def split: list.splits if_splits)
  have e: "parse_exponent s = Some (n, r) \<Longrightarrow> length r \<le> length s" for s n r
    using length_dropWhile_le [of is_digit "tl s"] length_dropWhile_le [of is_digit "tl (tl s)"]
    by (auto simp: parse_exponent_def Let_def split: list.splits if_splits)
  assume "parse_number s = Some (n, r)"
  then show ?thesis
    by (auto simp: parse_number_def Let_def split: if_splits option.splits prod.splits dest!: f e)
qed

lemma parse_length:
  "parse_value fuel depth s = Some (v, r) \<Longrightarrow> length r \<le> length s"
  "parse_elems fuel depth s = Some (vs, r) \<Longrightarrow> length r \<le> length s"
  "parse_members fuel depth s = Some (ms, r) \<Longrightarrow> length r \<le> length s"
proof (induction fuel depth s and fuel depth s and fuel depth s arbitrary: v r and vs r and ms r
    rule: parse_value_parse_elems_parse_members.induct)
  case (2 fuel depth s0)
  obtain c cs where s: "skip_space s0 = c # cs" using 2(3) by (auto split: list.splits)
  have l: "length cs < length s0" "length (skip_space cs) \<le> length cs"
    using s skip_space_Cons_length skip_space_length by blast+
  show ?case using 2(3) 2(1,2) [OF s] s l parse_number_length [of "c # cs"] parse_chars_length [of cs]
    by (auto simp del: take_Suc_Cons split: if_splits)
next
  case (4 fuel depth s)
  then show ?case
    by (fastforce split: option.splits prod.splits list.splits if_splits dest: skip_space_Cons_length)
next
  case (6 fuel depth s)
  then show ?case
    by (fastforce split: option.splits prod.splits list.splits if_splits
        dest: skip_space_Cons_length parse_chars_length)
qed simp_all

lemma parse_fuel:
  "2 * length s < fuel \<Longrightarrow> parse_value (Suc fuel) depth s = parse_value fuel depth s"
  "Suc (2 * length s) < fuel \<Longrightarrow> parse_elems (Suc fuel) depth s = parse_elems fuel depth s"
  "Suc (2 * length s) < fuel \<Longrightarrow> parse_members (Suc fuel) depth s = parse_members fuel depth s"
proof (induction fuel depth s and fuel depth s and fuel depth s
    rule: parse_value_parse_elems_parse_members.induct)
  case (2 fuel depth s0)
  show ?case
  proof (cases "skip_space s0")
    case (Cons c cs)
    then have "length cs < length s0" by (rule skip_space_Cons_length)
    then have "Suc (2 * length cs) < fuel" using 2(3) by simp
    then show ?thesis using 2(1,2) [OF Cons] Cons
      by (simp only: parse_value.simps list.case) auto
  qed simp
next
  case (4 fuel depth s)
  have v: "parse_value (Suc fuel) depth s = parse_value fuel depth s" using 4 by simp
  have "parse_elems (Suc fuel) depth cs = parse_elems fuel depth cs"
    if "parse_value fuel depth s = Some (x, r)" "skip_space r = c # cs" "c \<noteq> CHR '']''" "c = CHR '',''" for x r c cs
    using 4(2) [OF that(1) refl that(2,3,4)] 4(3) that parse_length(1) skip_space_Cons_length by fastforce
  then show ?case
    unfolding parse_elems.simps(2) v
    by (auto split: option.split prod.split list.split)
next
  case (6 fuel depth s)
  have v: "parse_value (Suc fuel) depth ds = parse_value fuel depth ds"
    if "skip_space s = q # qs" "\<not> q \<noteq> CHR 0x22" "parse_chars qs = Some (k, r)" "skip_space r = d # ds"
      "\<not> d \<noteq> CHR '':''" for q qs k r d ds
    using 6(1) [OF that(1,2,3) refl that(4,5)] 6(3) parse_chars_length [OF that(3)]
      skip_space_Cons_length [OF that(1)] skip_space_Cons_length [OF that(4)] by simp
  have m: "parse_members (Suc fuel) depth cs = parse_members fuel depth cs"
    if "skip_space s = q # qs" "\<not> q \<noteq> CHR 0x22" "parse_chars qs = Some (k, r)" "skip_space r = d # ds"
      "\<not> d \<noteq> CHR '':''" "parse_value fuel depth ds = Some (w, t)" "skip_space t = c # cs"
      "c \<noteq> CHR ''}''" "c = CHR '',''" for q qs k r d ds w t c cs
    using 6(2) [OF that(1,2,3) refl that(4,5,6) refl that(7,8,9)] 6(3) that
      parse_chars_length [OF that(3)] skip_space_Cons_length [OF that(1)] skip_space_Cons_length [OF that(4)]
      skip_space_Cons_length [OF that(7)] parse_length(1) [OF that(6)] by simp
  show ?case
    unfolding parse_members.simps(2)
    using v m by (simp split: option.split prod.split list.split)
qed simp_all

lemma parse_value_fuel:
  "parse_value (Suc (2 * length s) + k) depth s = parse_value (Suc (2 * length s)) depth s"
  by (induction k) (simp_all add: parse_fuel(1) del: parse_value.simps)

subsection \<open>Types with a JSON form\<close>

text \<open>
  What the program relies on for every Go type it marshals: within \<open>ok\<close>, the JSON form of a
  value is read back as that value.  Inside the locale the text forms follow.
\<close>

definition unmarshal :: "(json \<Rightarrow> 'a option) \<Rightarrow> bytes \<Rightarrow> 'a option" where
  "unmarshal dec data = Option.bind (parse_json data) dec"

locale json_codec =
  fixes enc :: "'a \<Rightarrow> json" and dec :: "json \<Rightarrow> 'a option" and ok :: "'a \<Rightarrow> bool"
  assumes enc_ok: "ok x \<Longrightarrow> json_ok (enc x)"
    and enc_depth: "ok x \<Longrightarrow> json_depth (enc x) \<le> max_depth"
    and dec_enc: "ok x \<Longrightarrow> dec (enc x) = Some x"
begin

lemma unmarshal_marshal: "ok x \<Longrightarrow> unmarshal dec (print_json (enc x)) = Some x"
  unfolding unmarshal_def parse_print_json [OF enc_ok enc_depth] by (simp add: dec_enc)

lemma marshal_inj: "ok x \<Longrightarrow> ok y \<Longrightarrow> print_json (enc x) = print_json (enc y) \<Longrightarrow> x = y"
  by (metis unmarshal_marshal option.inject)

end

end
