(* ===== verification/Membership.thy ===== *)
theory Membership
  imports Types Json
begin

text \<open>
  Membership changes as log commands (\<^verbatim>\<open>raft/membership.go\<close>): validation, the JSON encoding
  and the decoding that tells a membership command from any other command.
\<close>

definition membershipCommandOperation :: string where
  "membershipCommandOperation = ''raft_membership''"

definition MembershipAddPeer :: string where
  "MembershipAddPeer = ''add_peer''"

definition MembershipRemovePeer :: string where
  "MembershipRemovePeer = ''remove_peer''"

record MembershipChange =
  mcType :: string
  mcPeerID :: string

record membershipCommand =
  cmdOperation :: string
  cmdType :: string
  cmdPeerID :: string

definition zeroMembershipChange :: MembershipChange where
  "zeroMembershipChange = \<lparr>mcType = [], mcPeerID = []\<rparr>"

definition ValidateChange :: "MembershipChange \<Rightarrow> GoError option" where
  "ValidateChange c =
     (if TrimSpace (mcPeerID c) = [] then Some (Errorf ''membership peer id is required'' [])
      else if TrimSpace (mcPeerID c) \<noteq> mcPeerID c then
        Some (Errorf ''membership peer id must not contain surrounding whitespace'' [])
      else if mcType c = MembershipAddPeer \<or> mcType c = MembershipRemovePeer then None
      else Some (Errorf ''unsupported membership change %q'' [mcType c]))"

definition membershipCommand_json :: "membershipCommand \<Rightarrow> json" where
  "membershipCommand_json c = JObj
     [(''operation'', JStr (cmdOperation c)), (''type'', JStr (cmdType c)),
      (''peer_id'', JStr (cmdPeerID c))]"

definition set_membershipCommand :: "string \<Rightarrow> json \<Rightarrow> membershipCommand \<Rightarrow> membershipCommand option" where
  "set_membershipCommand f v c =
     (if f = ''operation'' then map_option (\<lambda>s. c\<lparr>cmdOperation := s\<rparr>) (decode_string v (cmdOperation c))
      else if f = ''type'' then map_option (\<lambda>s. c\<lparr>cmdType := s\<rparr>) (decode_string v (cmdType c))
      else map_option (\<lambda>s. c\<lparr>cmdPeerID := s\<rparr>) (decode_string v (cmdPeerID c)))"

text \<open>Reading into a zero \<^verbatim>\<open>membershipCommand\<close>.\<close>

definition membershipCommand_of_json :: "json \<Rightarrow> membershipCommand option" where
  "membershipCommand_of_json v =
     decode_struct [''operation'', ''type'', ''peer_id''] set_membershipCommand v
       \<lparr>cmdOperation = [], cmdType = [], cmdPeerID = []\<rparr>"

definition membershipCommand_utf8 :: "membershipCommand \<Rightarrow> bool" where
  "membershipCommand_utf8 c = (valid_utf8 (cmdOperation c) \<and> valid_utf8 (cmdType c) \<and> valid_utf8 (cmdPeerID c))"

definition EncodeMembershipChange :: "MembershipChange \<Rightarrow> GoError + bytes" where
  "EncodeMembershipChange change =
     (case ValidateChange change of
        Some err \<Rightarrow> Inl err
      | None \<Rightarrow> Inr (print_json (membershipCommand_json
          \<lparr>cmdOperation = membershipCommandOperation, cmdType = mcType change,
           cmdPeerID = mcPeerID change\<rparr>)))"

text \<open>The Go function returns the change, whether the command is one, and an error.\<close>

definition DecodeMembershipChange :: "bytes \<Rightarrow> MembershipChange \<times> bool \<times> GoError option" where
  "DecodeMembershipChange data =
     (case unmarshal membershipCommand_of_json data of
        None \<Rightarrow> (zeroMembershipChange, False, None)
      | Some command \<Rightarrow>
        if cmdOperation command \<noteq> membershipCommandOperation
        then (zeroMembershipChange, False, None)
        else
          (let change = \<lparr>mcType = cmdType command, mcPeerID = cmdPeerID command\<rparr> in
           case ValidateChange change of
             Some err \<Rightarrow> (zeroMembershipChange, True, Some err)
           | None \<Rightarrow> (change, True, None)))"

text \<open>Whether a command is a membership change, the boolean every caller tests first.\<close>

definition is_membership :: "bytes \<Rightarrow> bool" where
  "is_membership data = fst (snd (DecodeMembershipChange data))"

subsection \<open>Facts\<close>

lemma ValidateChange_None:
  "ValidateChange c = None \<longleftrightarrow>
     mcPeerID c \<noteq> [] \<and> TrimSpace (mcPeerID c) = mcPeerID c
     \<and> mcType c \<in> {MembershipAddPeer, MembershipRemovePeer}"
  by (auto simp: ValidateChange_def)

lemma Decode_ok_valid:
  "DecodeMembershipChange data = (change, True, None) \<Longrightarrow> ValidateChange change = None"
  by (auto simp: DecodeMembershipChange_def Let_def split: option.splits if_splits)

lemma Decode_error_is_membership:
  "DecodeMembershipChange data = (change, ok, Some err) \<Longrightarrow> ok"
  by (auto simp: DecodeMembershipChange_def Let_def split: option.splits if_splits)

lemma ascii_names:
  "valid_utf8 ''operation''" "valid_utf8 ''type''" "valid_utf8 ''peer_id''" "valid_utf8 ''key''"
  "valid_utf8 ''value''"
  by (simp_all add: valid_utf8_ascii)

interpretation membership_codec: json_codec membershipCommand_json membershipCommand_of_json membershipCommand_utf8
  by unfold_locales
    (simp_all add: membershipCommand_utf8_def membershipCommand_json_def ascii_names max_depth_def
      membershipCommand_of_json_def decode_struct_def field_match_def set_membershipCommand_def decode_string_def)

text \<open>A valid change with a UTF-8 peer id that is encoded is decoded as itself.\<close>

lemma DecodeMembershipChange_Encode:
  assumes "EncodeMembershipChange ch = Inr data" and "valid_utf8 (mcPeerID ch)"
  shows "DecodeMembershipChange data = (ch, True, None)"
proof -
  let ?c = "\<lparr>cmdOperation = membershipCommandOperation, cmdType = mcType ch, cmdPeerID = mcPeerID ch\<rparr>"
  have v: "ValidateChange ch = None" "data = print_json (membershipCommand_json ?c)"
    using assms(1) by (auto simp: EncodeMembershipChange_def split: option.splits)
  then have "membershipCommand_utf8 ?c"
    using assms(2) by (auto simp: membershipCommand_utf8_def ValidateChange_None membershipCommandOperation_def
        MembershipAddPeer_def MembershipRemovePeer_def valid_utf8_ascii)
  then have "unmarshal membershipCommand_of_json data = Some ?c"
    unfolding v(2) by (rule membership_codec.unmarshal_marshal)
  then show ?thesis using v(1) by (cases ch) (simp add: DecodeMembershipChange_def Let_def)
qed

end
