(* ===== verification/Node.thy ===== *)
theory Node
  imports Membership
begin

text \<open>
  The Raft node of \<^verbatim>\<open>raft/node.go\<close>: its state, the accessors that run with the lock held,
  the RPC handlers and the operations on the local log.

  Every exported method of the Go type takes the node's mutex, so each is one atomic
  step: a function from the node to the node, with the method's results.  The stable store
  behind the node is an interface value; its \<^verbatim>\<open>Save\<close> method is the parameter \<open>sv\<close>, which
  takes the store's own state and returns it updated, with an error or none.  The node
  keeps whatever it wrote before \<^verbatim>\<open>Save\<close> failed, as the code does.

  Slices held by the node are never shared with a caller (every one that enters or leaves
  is copied by \<^verbatim>\<open>cloneLog\<close>, \<^verbatim>\<open>clonePeers\<close> or \<^verbatim>\<open>append([]byte(nil), ...)\<close>), so lists model
  them by value.
\<close>

type_synonym 's saver = "'s \<Rightarrow> PersistentState \<Rightarrow> GoError option \<times> 's"
type_synonym 's loader = "'s \<Rightarrow> GoError + PersistentState"

record 's RaftNode =
  nid :: string
  peers :: "string list"
  selfMember :: bool
  membershipConfigured :: bool
  state :: State
  leaderID :: string
  currentTerm :: uint64
  votedFor :: string
  nlog :: "LogEntry list"
  commitIndex :: uint64
  lastApplied :: uint64
  lastIncludedIndex :: uint64
  lastIncludedTerm :: uint64
  snapshot :: bytes
  nextIndex :: index_map
  matchIndex :: index_map
  store :: "'s option"
  commitReady :: bool

subsection \<open>Copies and list helpers\<close>

definition cloneLog :: "LogEntry list \<Rightarrow> LogEntry list" where
  "cloneLog log = map (\<lambda>entry. entry\<lparr>eCommand := [] @ eCommand entry\<rparr>) log"

lemma cloneLog_id [simp]: "cloneLog log = log"
  by (simp add: cloneLog_def)

text \<open>\<^verbatim>\<open>append([]string(nil), peers...)\<close> is the nil slice when there are no peers.\<close>

definition clonePeers :: "string list \<Rightarrow> string list option" where
  "clonePeers ps = (if ps = [] then None else Some ps)"

definition slice_elems :: "'a list option \<Rightarrow> 'a list" where
  "slice_elems s = (case s of None \<Rightarrow> [] | Some xs \<Rightarrow> xs)"

lemma slice_elems_clonePeers [simp]: "slice_elems (clonePeers ps) = ps"
  by (simp add: slice_elems_def clonePeers_def)

fun containsPeer :: "string list \<Rightarrow> string \<Rightarrow> bool" where
  "containsPeer [] i = False"
| "containsPeer (p # ps) i = (if p = i then True else containsPeer ps i)"

lemma containsPeer_set [simp]: "containsPeer ps i \<longleftrightarrow> i \<in> set ps"
  by (induction ps) auto

fun removePeer :: "string list \<Rightarrow> string \<Rightarrow> string list" where
  "removePeer [] i = []"
| "removePeer (p # ps) i = (if p \<noteq> i then p # removePeer ps i else removePeer ps i)"

lemma removePeer_filter: "removePeer ps i = filter (\<lambda>p. p \<noteq> i) ps"
  by (induction ps) auto

fun normalizeEntries :: "uint64 \<Rightarrow> LogEntry list \<Rightarrow> LogEntry list" where
  "normalizeEntries startIndex [] = []"
| "normalizeEntries startIndex (entry # entries) =
     entry\<lparr>eIndex := startIndex, eCommand := [] @ eCommand entry\<rparr>
     # normalizeEntries (startIndex + 1) entries"

definition majority :: "nat \<Rightarrow> nat" where
  "majority clusterSize = clusterSize div 2 + 1"

subsection \<open>Accessors with the lock held\<close>

definition isMemberLocked :: "'s RaftNode \<Rightarrow> string \<Rightarrow> bool" where
  "isMemberLocked n i =
     (if i = nid n then selfMember n
      else if containsPeer (peers n) i then True
      else selfMember n \<and> \<not> membershipConfigured n)"

definition clusterSizeLocked :: "'s RaftNode \<Rightarrow> nat" where
  "clusterSizeLocked n = (if selfMember n then length (peers n) + 1 else length (peers n))"

definition firstLogIndexLocked :: "'s RaftNode \<Rightarrow> uint64" where
  "firstLogIndexLocked n = lastIncludedIndex n + 1"

definition lastLogIndexLocked :: "'s RaftNode \<Rightarrow> uint64" where
  "lastLogIndexLocked n = (if nlog n = [] then lastIncludedIndex n else eIndex (last (nlog n)))"

definition lastLogTermLocked :: "'s RaftNode \<Rightarrow> uint64" where
  "lastLogTermLocked n = (if nlog n = [] then lastIncludedTerm n else eTerm (last (nlog n)))"

definition containsLogIndexLocked :: "'s RaftNode \<Rightarrow> uint64 \<Rightarrow> bool" where
  "containsLogIndexLocked n index =
     (index \<ge> firstLogIndexLocked n \<and> index \<le> lastLogIndexLocked n)"

definition logTermAtLocked :: "'s RaftNode \<Rightarrow> uint64 \<Rightarrow> uint64 option" where
  "logTermAtLocked n index =
     (if index = 0 then Some 0
      else if index = lastIncludedIndex n then Some (lastIncludedTerm n)
      else if \<not> containsLogIndexLocked n index then Some 0
      else map_option eTerm (go_index (nlog n) (index - firstLogIndexLocked n)))"

definition cloneEntriesFromLocked :: "'s RaftNode \<Rightarrow> uint64 \<Rightarrow> LogEntry list option" where
  "cloneEntriesFromLocked n startIndex =
     (let startIndex = (if startIndex \<le> lastIncludedIndex n then firstLogIndexLocked n else startIndex)
      in if startIndex > lastLogIndexLocked n then Some []
         else map_option cloneLog (go_slice_from (nlog n) (startIndex - firstLogIndexLocked n)))"

definition signalCommitReadyLocked :: "'s RaftNode \<Rightarrow> 's RaftNode" where
  "signalCommitReadyLocked n = n\<lparr>commitReady := True\<rparr>"

fun pending_from :: "uint64 \<Rightarrow> LogEntry list \<Rightarrow> bool" where
  "pending_from applied [] = False"
| "pending_from applied (entry # entries) =
     (if eIndex entry \<le> applied then pending_from applied entries
      else if is_membership (eCommand entry) then True
      else pending_from applied entries)"

definition hasPendingMembershipChangeLocked :: "'s RaftNode \<Rightarrow> bool" where
  "hasPendingMembershipChangeLocked n = pending_from (lastApplied n) (nlog n)"

subsection \<open>Persistence\<close>

definition persistent_of :: "'s RaftNode \<Rightarrow> PersistentState" where
  "persistent_of n = \<lparr>psCurrentTerm = currentTerm n, psVotedFor = votedFor n,
     psPeers = clonePeers (peers n), psSelfMember = Some (selfMember n),
     psLastIncludedIndex = lastIncludedIndex n, psLastIncludedTerm = lastIncludedTerm n,
     psSnapshot = snapshot n, psLog = cloneLog (nlog n)\<rparr>"

definition persistLocked :: "'s saver \<Rightarrow> 's RaftNode \<Rightarrow> GoError option \<times> 's RaftNode" where
  "persistLocked sv n =
     (case store n of
        None \<Rightarrow> (None, n)
      | Some s \<Rightarrow> (case sv s (persistent_of n) of (err, s') \<Rightarrow> (err, n\<lparr>store := Some s'\<rparr>)))"

definition persist_err :: "'s saver \<Rightarrow> 's RaftNode \<Rightarrow> GoError option" where
  "persist_err sv n = (case store n of None \<Rightarrow> None | Some s \<Rightarrow> fst (sv s (persistent_of n)))"

definition persist_store :: "'s saver \<Rightarrow> 's RaftNode \<Rightarrow> 's option" where
  "persist_store sv n = (case store n of None \<Rightarrow> None | Some s \<Rightarrow> Some (snd (sv s (persistent_of n))))"

text \<open>Saving writes nothing but the store.\<close>

lemma persistLocked_pair:
  "persistLocked sv n = (persist_err sv n, n\<lparr>store := persist_store sv n\<rparr>)"
  by (cases n) (auto simp: persistLocked_def persist_err_def persist_store_def split: option.split prod.split)

definition NewRaftNode :: "'s loader \<Rightarrow> string \<Rightarrow> string list \<Rightarrow> 's option \<Rightarrow> GoError + 's RaftNode" where
  "NewRaftNode ld i ps st =
     (let node = \<lparr>nid = i, peers = slice_elems (clonePeers ps), selfMember = True,
          membershipConfigured = (length ps > 0), state = Follower, leaderID = [],
          currentTerm = 0, votedFor = [], nlog = [], commitIndex = 0, lastApplied = 0,
          lastIncludedIndex = 0, lastIncludedTerm = 0, snapshot = [], nextIndex = None,
          matchIndex = None, store = st, commitReady = False\<rparr> in
      case st of
        None \<Rightarrow> Inr node
      | Some s \<Rightarrow>
        (case ld s of
           Inl err \<Rightarrow> Inl err
         | Inr pst \<Rightarrow>
           Inr (node\<lparr>
             currentTerm := psCurrentTerm pst,
             votedFor := psVotedFor pst,
             peers := (case psPeers pst of None \<Rightarrow> peers node | Some xs \<Rightarrow> slice_elems (clonePeers xs)),
             selfMember := (case psSelfMember pst of None \<Rightarrow> selfMember node | Some b \<Rightarrow> b),
             membershipConfigured :=
               (if psPeers pst \<noteq> None \<or> psSelfMember pst \<noteq> None then True else membershipConfigured node),
             lastIncludedIndex := psLastIncludedIndex pst,
             lastIncludedTerm := psLastIncludedTerm pst,
             snapshot := psSnapshot pst,
             commitIndex := psLastIncludedIndex pst,
             lastApplied := psLastIncludedIndex pst,
             nlog := cloneLog (psLog pst)\<rparr>)))"

definition Members :: "'s RaftNode \<Rightarrow> string list" where
  "Members n = (if selfMember n then [nid n] else []) @ peers n"

definition NextIndex :: "'s RaftNode \<Rightarrow> string \<Rightarrow> uint64" where
  "NextIndex n peerID = go_map_read (nextIndex n) peerID"

definition MatchIndex :: "'s RaftNode \<Rightarrow> string \<Rightarrow> uint64" where
  "MatchIndex n peerID = go_map_read (matchIndex n) peerID"

subsection \<open>Advancing the commit index\<close>

definition replicatedCount :: "'s RaftNode \<Rightarrow> uint64 \<Rightarrow> nat" where
  "replicatedCount n index =
     1 + length (filter (\<lambda>peerID. go_map_read (matchIndex n) peerID \<ge> index) (peers n))"

function advance_loop :: "'s RaftNode \<Rightarrow> uint64 \<Rightarrow> 's RaftNode option" where
  "advance_loop n index =
     (if index > commitIndex n then
        (case logTermAtLocked n index of
           None \<Rightarrow> None
         | Some t \<Rightarrow>
           if t \<noteq> currentTerm n then advance_loop n (index - 1)
           else if replicatedCount n index \<ge> majority (clusterSizeLocked n)
           then Some (signalCommitReadyLocked (n\<lparr>commitIndex := index\<rparr>))
           else advance_loop n (index - 1))
      else Some n)"
  by pat_completeness auto
termination
  by (relation "measure (\<lambda>(n, index). unat index)") (auto intro!: measure_unat)

declare advance_loop.simps [simp del]

definition advanceCommitLocked :: "'s RaftNode \<Rightarrow> 's RaftNode option" where
  "advanceCommitLocked n =
     (if state n \<noteq> Leader \<or> \<not> selfMember n then Some n
      else advance_loop n (lastLogIndexLocked n))"

definition initLeaderProgressLocked :: "'s RaftNode \<Rightarrow> 's RaftNode option" where
  "initLeaderProgressLocked n =
     (let next = lastLogIndexLocked n + 1 in
      advanceCommitLocked
        (n\<lparr>nextIndex := Some (\<lambda>p. if p \<in> set (peers n) then Some next else None),
           matchIndex := Some (\<lambda>p. if p \<in> set (peers n) then Some 0 else None)\<rparr>))"

subsection \<open>Role changes\<close>

definition BecomeFollower :: "'s saver \<Rightarrow> 's RaftNode \<Rightarrow> uint64 \<Rightarrow> GoError option \<times> 's RaftNode" where
  "BecomeFollower sv n term =
     (let n = n\<lparr>state := Follower, leaderID := [], nextIndex := None, matchIndex := None\<rparr>;
          n = (if term > currentTerm n then n\<lparr>currentTerm := term, votedFor := []\<rparr> else n)
      in persistLocked sv n)"

definition BecomeCandidate :: "'s saver \<Rightarrow> 's RaftNode \<Rightarrow> GoError option \<times> 's RaftNode" where
  "BecomeCandidate sv n =
     persistLocked sv (n\<lparr>state := Candidate, leaderID := [], nextIndex := None, matchIndex := None,
       currentTerm := currentTerm n + 1, votedFor := nid n\<rparr>)"

definition BecomeLeader :: "'s saver \<Rightarrow> 's RaftNode \<Rightarrow> (GoError option \<times> 's RaftNode) option" where
  "BecomeLeader sv n =
     (case initLeaderProgressLocked (n\<lparr>state := Leader, leaderID := nid n\<rparr>) of
        None \<Rightarrow> None
      | Some n \<Rightarrow> Some (persistLocked sv n))"

definition SetVotedFor :: "'s saver \<Rightarrow> 's RaftNode \<Rightarrow> string \<Rightarrow> GoError option \<times> 's RaftNode" where
  "SetVotedFor sv n candidateID = persistLocked sv (n\<lparr>votedFor := candidateID\<rparr>)"

subsection \<open>Vote handlers\<close>

definition RequestVote ::
  "'s saver \<Rightarrow> 's RaftNode \<Rightarrow> RequestVoteRequest \<Rightarrow> RequestVoteResponse \<times> GoError option \<times> 's RaftNode" where
  "RequestVote sv n req =
     (let resp = \<lparr>rvrTerm = currentTerm n, rvrVoteGranted = False\<rparr> in
      if rvTerm req < currentTerm n then (resp, None, n)
      else if \<not> selfMember n then (resp, None, n)
      else if \<not> isMemberLocked n (rvCandidateID req) then (resp, None, n)
      else
        (let (n, changed) =
           (if rvTerm req > currentTerm n
            then (n\<lparr>currentTerm := rvTerm req, votedFor := [], leaderID := [],
                    nextIndex := None, matchIndex := None, state := Follower\<rparr>, True)
            else (n, False));
           resp = resp\<lparr>rvrTerm := currentTerm n\<rparr>;
           canVoteForCandidate = (votedFor n = [] \<or> votedFor n = rvCandidateID req);
           logIsFreshEnough = IsLogAtLeastUpToDate (rvLastLogIndex req) (rvLastLogTerm req)
             (lastLogIndexLocked n) (lastLogTermLocked n);
           (n, resp, changed) =
             (if canVoteForCandidate \<and> logIsFreshEnough
              then (n\<lparr>votedFor := rvCandidateID req\<rparr>, resp\<lparr>rvrVoteGranted := True\<rparr>, True)
              else (n, resp, changed))
         in if \<not> changed then (resp, None, n)
            else (case persistLocked sv n of (err, n) \<Rightarrow> (resp, err, n))))"

definition PreVote :: "'s RaftNode \<Rightarrow> PreVoteRequest \<Rightarrow> PreVoteResponse \<times> GoError option" where
  "PreVote n req =
     (let resp = \<lparr>pvrTerm = currentTerm n, pvrVoteGranted = False\<rparr> in
      if pvTerm req < currentTerm n then (resp, None)
      else if \<not> selfMember n then (resp, None)
      else if \<not> isMemberLocked n (pvCandidateID req) then (resp, None)
      else (resp\<lparr>pvrVoteGranted :=
              IsLogAtLeastUpToDate (pvLastLogIndex req) (pvLastLogTerm req)
                (lastLogIndexLocked n) (lastLogTermLocked n)\<rparr>, None))"

subsection \<open>AppendEntries\<close>

text \<open>
  The loop of \<^verbatim>\<open>appendEntriesToLogLocked\<close> over the entries that are left, the first of them
  at \<open>index\<close>.  The result says whether the log changed.
\<close>

fun append_loop :: "'s RaftNode \<Rightarrow> uint64 \<Rightarrow> LogEntry list \<Rightarrow> (bool \<times> 's RaftNode) option" where
  "append_loop n index [] = Some (False, n)"
| "append_loop n index (entry # entries) =
     (if index \<le> lastIncludedIndex n then append_loop n (index + 1) entries
      else if containsLogIndexLocked n index then
        (case go_index (nlog n) (index - firstLogIndexLocked n) of
           None \<Rightarrow> None
         | Some local \<Rightarrow>
           if eTerm local \<noteq> eTerm entry then
             Some (True, n\<lparr>nlog := take (unat (index - firstLogIndexLocked n)) (nlog n)
                               @ normalizeEntries index (entry # entries)\<rparr>)
           else append_loop n (index + 1) entries)
      else Some (True, n\<lparr>nlog := nlog n @ normalizeEntries index (entry # entries)\<rparr>))"

definition appendEntriesToLogLocked ::
  "'s RaftNode \<Rightarrow> uint64 \<Rightarrow> uint64 \<Rightarrow> LogEntry list \<Rightarrow> (GoError + bool \<times> 's RaftNode) option" where
  "appendEntriesToLogLocked n prevLogIndex prevLogTerm entries =
     (case (if prevLogIndex > 0 then logTermAtLocked n prevLogIndex else Some prevLogTerm) of
        None \<Rightarrow> None
      | Some t \<Rightarrow>
        if t \<noteq> prevLogTerm then Some (Inl (ErrLogInconsistent prevLogIndex prevLogTerm))
        else map_option Inr (append_loop n (prevLogIndex + 1) entries))"

definition HandleAppendEntries ::
  "'s saver \<Rightarrow> 's RaftNode \<Rightarrow> AppendEntriesRequest
     \<Rightarrow> (AppendEntriesResponse \<times> GoError option \<times> 's RaftNode) option" where
  "HandleAppendEntries sv n req =
     (let resp = \<lparr>aerTerm = currentTerm n, aerSuccess = False\<rparr> in
      if aeTerm req < currentTerm n then Some (resp, None, n)
      else if \<not> isMemberLocked n (aeLeaderID req) then Some (resp, None, n)
      else
        (let (n, changed) =
           (if aeTerm req > currentTerm n
            then (n\<lparr>currentTerm := aeTerm req, votedFor := [], leaderID := [],
                    nextIndex := None, matchIndex := None\<rparr>, True)
            else (n, False));
           n = (if state n \<noteq> Follower then n\<lparr>nextIndex := None, matchIndex := None\<rparr> else n);
           n = n\<lparr>state := Follower, leaderID := aeLeaderID req\<rparr>
         in
         case appendEntriesToLogLocked n (aePrevLogIndex req) (aePrevLogTerm req) (aeEntries req) of
           None \<Rightarrow> None
         | Some (Inl _) \<Rightarrow>
             (let resp = resp\<lparr>aerTerm := currentTerm n\<rparr> in
              if changed then (case persistLocked sv n of (err, n) \<Rightarrow> Some (resp, err, n))
              else Some (resp, None, n))
         | Some (Inr (logChanged, n)) \<Rightarrow>
             (let changed = (changed \<or> logChanged);
                  nextCommit = min (aeLeaderCommit req) (lastLogIndexLocked n);
                  n = (if aeLeaderCommit req > commitIndex n \<and> nextCommit > commitIndex n
                       then signalCommitReadyLocked (n\<lparr>commitIndex := nextCommit\<rparr>) else n);
                  resp = resp\<lparr>aerTerm := currentTerm n, aerSuccess := True\<rparr> in
              if \<not> changed then Some (resp, None, n)
              else (case persistLocked sv n of (err, n) \<Rightarrow> Some (resp, err, n)))))"

subsection \<open>The leader's log\<close>

definition AppendLocal ::
  "'s saver \<Rightarrow> 's RaftNode \<Rightarrow> bytes \<Rightarrow> (LogEntry \<times> GoError option \<times> 's RaftNode) option" where
  "AppendLocal sv n command =
     (case DecodeMembershipChange command of (_, ok, derr) \<Rightarrow>
        if ok \<and> derr \<noteq> None then Some (zeroLogEntry, derr, n)
        else if ok \<and> hasPendingMembershipChangeLocked n
        then Some (zeroLogEntry, Some ErrMembershipChangePending, n)
        else
          (let entry = \<lparr>eTerm = currentTerm n, eIndex = lastLogIndexLocked n + 1, eCommand = command\<rparr>;
               n = n\<lparr>nlog := nlog n @ [entry]\<rparr> in
           case (if state n = Leader then advanceCommitLocked n else Some n) of
             None \<Rightarrow> None
           | Some n \<Rightarrow> (case persistLocked sv n of (err, n) \<Rightarrow> Some (entry, err, n))))"

definition BuildAppendEntries :: "'s RaftNode \<Rightarrow> string \<Rightarrow> (GoError + AppendEntriesRequest) option" where
  "BuildAppendEntries n peerID =
     (case go_map_get (nextIndex n) peerID of
        None \<Rightarrow> Some (Inl (ErrUnknownPeer peerID))
      | Some next \<Rightarrow>
        (let next = (if next \<le> lastIncludedIndex n then firstLogIndexLocked n else next);
             prevLogIndex = next - 1 in
         case logTermAtLocked n prevLogIndex of
           None \<Rightarrow> None
         | Some prevLogTerm \<Rightarrow>
           (case cloneEntriesFromLocked n next of
              None \<Rightarrow> None
            | Some entries \<Rightarrow>
              Some (Inr \<lparr>aeTerm = currentTerm n, aeLeaderID = nid n, aePrevLogIndex = prevLogIndex,
                aePrevLogTerm = prevLogTerm, aeEntries = entries, aeLeaderCommit = commitIndex n\<rparr>))))"

definition RecordReplicationSuccess ::
  "'s RaftNode \<Rightarrow> string \<Rightarrow> uint64 \<Rightarrow> (GoError option \<times> 's RaftNode) option" where
  "RecordReplicationSuccess n peerID mIndex =
     (case go_map_get (nextIndex n) peerID of
        None \<Rightarrow> Some (Some (ErrUnknownPeer peerID), n)
      | Some _ \<Rightarrow>
        (case go_map_set (matchIndex n) peerID mIndex of
           None \<Rightarrow> None
         | Some ms \<Rightarrow>
           (case go_map_set (nextIndex n) peerID (mIndex + 1) of
              None \<Rightarrow> None
            | Some ns \<Rightarrow>
              map_option (Pair None) (advanceCommitLocked (n\<lparr>matchIndex := ms, nextIndex := ns\<rparr>)))))"

definition RecordReplicationFailure ::
  "'s RaftNode \<Rightarrow> string \<Rightarrow> (GoError option \<times> 's RaftNode) option" where
  "RecordReplicationFailure n peerID =
     (case go_map_get (nextIndex n) peerID of
        None \<Rightarrow> Some (Some (ErrUnknownPeer peerID), n)
      | Some next \<Rightarrow>
        if next > 1 then
          (if next \<le> lastIncludedIndex n + 1 then Some (None, n)
           else (case go_map_set (nextIndex n) peerID (next - 1) of
                   None \<Rightarrow> None
                 | Some ns \<Rightarrow> Some (None, n\<lparr>nextIndex := ns\<rparr>)))
        else Some (None, n))"

subsection \<open>Snapshots\<close>

definition ShouldSnapshot :: "'s RaftNode \<Rightarrow> uint64 \<Rightarrow> bool" where
  "ShouldSnapshot n threshold = (threshold > 0 \<and> lastApplied n \<ge> lastIncludedIndex n + threshold)"

definition Compact :: "'s saver \<Rightarrow> 's RaftNode \<Rightarrow> bytes \<Rightarrow> (GoError option \<times> 's RaftNode) option" where
  "Compact sv n snap =
     (if lastApplied n \<le> lastIncludedIndex n then Some (None, n)
      else
        (let index = lastApplied n; first = firstLogIndexLocked n in
         case logTermAtLocked n index of
           None \<Rightarrow> None
         | Some term \<Rightarrow>
           if term = 0 then Some (Some (ErrLogInconsistent index 0), n)
           else
             (case (if index < first then Some []
                    else if index \<ge> lastLogIndexLocked n then Some []
                    else map_option cloneLog (go_slice_from (nlog n) (index - first + 1))) of
                None \<Rightarrow> None
              | Some log \<Rightarrow>
                Some (persistLocked sv (n\<lparr>nlog := log, lastIncludedIndex := index,
                  lastIncludedTerm := term, snapshot := snap\<rparr>)))))"

subsection \<open>Membership changes\<close>

definition applyMembershipChangeLocked ::
  "'s RaftNode \<Rightarrow> MembershipChange \<Rightarrow> (GoError option \<times> 's RaftNode) option" where
  "applyMembershipChangeLocked n change =
     (let n = n\<lparr>membershipConfigured := True\<rparr> in
      if mcType change = MembershipAddPeer then
        map_option (Pair None) (advanceCommitLocked
          (if mcPeerID change = nid n then n\<lparr>selfMember := True\<rparr>
           else if \<not> containsPeer (peers n) (mcPeerID change) then
             (let n = n\<lparr>peers := peers n @ [mcPeerID change]\<rparr> in
              case (state n, nextIndex n, matchIndex n) of
                (Leader, Some ns, Some ms) \<Rightarrow>
                  n\<lparr>nextIndex := Some (ns(mcPeerID change \<mapsto> lastLogIndexLocked n + 1)),
                    matchIndex := Some (ms(mcPeerID change \<mapsto> 0))\<rparr>
              | _ \<Rightarrow> n)
           else n))
      else if mcType change = MembershipRemovePeer then
        map_option (Pair None) (advanceCommitLocked
          (if mcPeerID change = nid n then
             n\<lparr>selfMember := False, state := Follower, leaderID := [], votedFor := [],
               nextIndex := None, matchIndex := None\<rparr>
           else
             n\<lparr>peers := removePeer (peers n) (mcPeerID change),
               nextIndex := go_map_delete (nextIndex n) (mcPeerID change),
               matchIndex := go_map_delete (matchIndex n) (mcPeerID change)\<rparr>))
      else Some (Some (Errorf ''unsupported membership change %q'' [mcType change]), n))"

definition ApplyMembershipChange ::
  "'s saver \<Rightarrow> 's RaftNode \<Rightarrow> MembershipChange \<Rightarrow> (GoError option \<times> 's RaftNode) option" where
  "ApplyMembershipChange sv n change =
     (case ValidateChange change of
        Some err \<Rightarrow> Some (Some err, n)
      | None \<Rightarrow>
        (case applyMembershipChangeLocked n change of
           None \<Rightarrow> None
         | Some (Some err, n) \<Rightarrow> Some (Some err, n)
         | Some (None, n) \<Rightarrow> Some (persistLocked sv n)))"

definition applyCommittedMembershipChange ::
  "'s saver \<Rightarrow> 's RaftNode \<Rightarrow> MembershipChange \<Rightarrow> uint64 \<Rightarrow> (GoError option \<times> 's RaftNode) option" where
  "applyCommittedMembershipChange sv n change index =
     (case applyMembershipChangeLocked n change of
        None \<Rightarrow> None
      | Some (Some err, n) \<Rightarrow> Some (Some err, n)
      | Some (None, n) \<Rightarrow>
        Some (persistLocked sv (if index > lastApplied n then n\<lparr>lastApplied := index\<rparr> else n)))"

subsection \<open>Applying committed entries\<close>

definition nextCommittedEntry :: "'s RaftNode \<Rightarrow> LogEntry option option" where
  "nextCommittedEntry n =
     (let next = lastApplied n + 1 in
      if next > commitIndex n \<or> \<not> containsLogIndexLocked n next then Some None
      else map_option Some (go_index (nlog n) (next - firstLogIndexLocked n)))"

definition markApplied :: "'s RaftNode \<Rightarrow> uint64 \<Rightarrow> 's RaftNode" where
  "markApplied n index = (if index > lastApplied n then n\<lparr>lastApplied := index\<rparr> else n)"

text \<open>
  \<^verbatim>\<open>ApplyCommitted\<close> run by one goroutine.  The state machine is an interface value; its
  \<^verbatim>\<open>Apply\<close> method is the parameter \<open>ap\<close>, over the machine's own state.  The loop has no
  bound of its own, so \<^const>\<open>None\<close> stands for a panic and for not returning.
\<close>

type_synonym 'm applier = "'m \<Rightarrow> LogEntry \<Rightarrow> GoError option \<times> 'm"

partial_function (option) ApplyCommitted ::
  "'s saver \<Rightarrow> 'm applier \<Rightarrow> 's RaftNode \<Rightarrow> 'm \<Rightarrow> (GoError option \<times> 's RaftNode \<times> 'm) option" where
  "ApplyCommitted sv ap n m =
     Option.bind (nextCommittedEntry n) (\<lambda>next.
       case next of
         None \<Rightarrow> Some (None, n, m)
       | Some entry \<Rightarrow>
         (case DecodeMembershipChange (eCommand entry) of (change, ok, derr) \<Rightarrow>
            if ok then
              (case derr of
                 Some err \<Rightarrow> Some (Some err, n, m)
               | None \<Rightarrow>
                 Option.bind (applyCommittedMembershipChange sv n change (eIndex entry)) (\<lambda>r.
                   case r of (err, n') \<Rightarrow>
                     (case err of
                        Some e \<Rightarrow> Some (Some e, n', m)
                      | None \<Rightarrow> ApplyCommitted sv ap n' m)))
            else
              (case ap m entry of (err, m') \<Rightarrow>
                 (case err of
                    Some e \<Rightarrow> Some (Some e, n, m')
                  | None \<Rightarrow> ApplyCommitted sv ap (markApplied n (eIndex entry)) m'))))"

end
