(* ===== verification/NodeLog.thy ===== *)
theory NodeLog
  imports Node
begin

text \<open>
  The log of a node seen through natural-number positions.  \<open>log_ok\<close> is the representation
  invariant of the log: the entries carry consecutive indices that start right after the
  snapshot and leave room below \<open>2 ^ 64\<close>.  Under it the index arithmetic of
  \<^verbatim>\<open>raft/node.go\<close> never wraps around and no slice access is out of range, and the log is the
  abstract object \<open>entry_at\<close> / \<open>term_at\<close>: a map from positions to entries and terms.
\<close>

fun contiguous :: "uint64 \<Rightarrow> LogEntry list \<Rightarrow> bool" where
  "contiguous i [] = True"
| "contiguous i (e # es) = (eIndex e = i \<and> contiguous (i + 1) es)"

abbreviation base :: "'s RaftNode \<Rightarrow> nat" where
  "base n \<equiv> unat (lastIncludedIndex n)"

abbreviation log_end :: "'s RaftNode \<Rightarrow> nat" where
  "log_end n \<equiv> unat (lastIncludedIndex n) + length (nlog n)"

definition log_ok :: "'s RaftNode \<Rightarrow> bool" where
  "log_ok n = (contiguous (lastIncludedIndex n + 1) (nlog n) \<and> log_end n + 1 < 2 ^ 64)"

definition entry_at :: "'s RaftNode \<Rightarrow> nat \<Rightarrow> LogEntry option" where
  "entry_at n k = (if base n < k \<and> k \<le> log_end n then Some (nlog n ! (k - base n - 1)) else None)"

definition term_at :: "'s RaftNode \<Rightarrow> nat \<Rightarrow> uint64" where
  "term_at n k =
     (if k = 0 then 0 else if k = base n then lastIncludedTerm n
      else case entry_at n k of None \<Rightarrow> 0 | Some e \<Rightarrow> eTerm e)"

subsection \<open>Consecutive indices\<close>

lemma contiguous_nth:
  "contiguous i es \<Longrightarrow> k < length es \<Longrightarrow> eIndex (es ! k) = i + of_nat k"
proof (induction es arbitrary: i k)
  case (Cons e es)
  then show ?case by (cases k) (auto simp: add.assoc add.commute)
qed simp

lemma contiguous_append:
  "contiguous i (xs @ ys) \<longleftrightarrow> contiguous i xs \<and> contiguous (i + of_nat (length xs)) ys"
  by (induction xs arbitrary: i) (auto simp: add.assoc)

lemma contiguous_take: "contiguous i xs \<Longrightarrow> contiguous i (take k xs)"
  by (metis append_take_drop_id contiguous_append)

lemma contiguous_drop:
  "contiguous i xs \<Longrightarrow> k \<le> length xs \<Longrightarrow> contiguous (i + of_nat k) (drop k xs)"
  by (metis append_take_drop_id contiguous_append length_take min.absorb2)

lemma contiguous_normalize [simp]: "contiguous i (normalizeEntries i es)"
  by (induction es arbitrary: i) auto

lemma length_normalize [simp]: "length (normalizeEntries i es) = length es"
  by (induction es arbitrary: i) auto

lemma nth_normalize:
  "k < length es \<Longrightarrow> normalizeEntries i es ! k = (es ! k)\<lparr>eIndex := i + of_nat k\<rparr>"
proof (induction es arbitrary: i k)
  case (Cons e es)
  then show ?case by (cases k) (auto simp: add.assoc add.commute)
qed simp

lemma normalize_contiguous: "contiguous i es \<Longrightarrow> normalizeEntries i es = es"
  by (induction es arbitrary: i) auto

subsection \<open>The accessors under the representation invariant\<close>

lemma log_ok_bound: "log_ok n \<Longrightarrow> log_end n + 1 < 2 ^ 64"
  by (simp add: log_ok_def)

lemma log_ok_contiguous: "log_ok n \<Longrightarrow> contiguous (lastIncludedIndex n + 1) (nlog n)"
  by (simp add: log_ok_def)

lemma lastLogIndex_eq:
  assumes "log_ok n"
  shows "lastLogIndexLocked n = lastIncludedIndex n + of_nat (length (nlog n))"
proof (cases "nlog n = []")
  case False
  then have "eIndex (last (nlog n)) = lastIncludedIndex n + 1 + of_nat (length (nlog n) - 1)"
    using contiguous_nth [OF log_ok_contiguous [OF assms], of "length (nlog n) - 1"]
    by (simp add: last_conv_nth)
  moreover have "1 + of_nat (length (nlog n) - 1) = (of_nat (length (nlog n)) :: uint64)"
    using False by (cases "nlog n") simp_all
  ultimately show ?thesis using False by (simp add: lastLogIndexLocked_def add.assoc)
qed (simp add: lastLogIndexLocked_def)

lemma unat_lastLogIndex:
  assumes "log_ok n"
  shows "unat (lastLogIndexLocked n) = log_end n"
  using log_ok_bound [OF assms] by (simp add: lastLogIndex_eq [OF assms] unat_add_of_nat_64)

lemma unat_firstLogIndex:
  assumes "log_ok n"
  shows "unat (firstLogIndexLocked n) = base n + 1"
  using log_ok_bound [OF assms] by (simp add: firstLogIndexLocked_def unat_plus_one_64)

lemma containsLogIndex_iff:
  assumes "log_ok n"
  shows "containsLogIndexLocked n i \<longleftrightarrow> base n < unat i \<and> unat i \<le> log_end n"
  by (auto simp: containsLogIndexLocked_def word_le_nat_alt unat_lastLogIndex [OF assms]
      unat_firstLogIndex [OF assms])

lemma unat_log_offset:
  assumes "log_ok n" and "base n < unat i"
  shows "unat (i - firstLogIndexLocked n) = unat i - base n - 1"
proof -
  have "firstLogIndexLocked n \<le> i"
    using assms by (simp add: word_le_nat_alt unat_firstLogIndex)
  then show ?thesis using assms(1) by (simp add: unat_sub unat_firstLogIndex)
qed

lemma go_index_log:
  assumes "log_ok n" and "containsLogIndexLocked n i"
  shows "go_index (nlog n) (i - firstLogIndexLocked n) = entry_at n (unat i)"
  using assms by (auto simp: containsLogIndex_iff unat_log_offset go_index_def entry_at_def)

lemma entry_at_contains:
  "log_ok n \<Longrightarrow> containsLogIndexLocked n i \<longleftrightarrow> entry_at n (unat i) \<noteq> None"
  by (simp add: containsLogIndex_iff entry_at_def)

lemma logTermAt_eq:
  assumes "log_ok n"
  shows "logTermAtLocked n i = Some (term_at n (unat i))"
proof -
  have "i = 0 \<longleftrightarrow> unat i = 0" by (simp add: unat_eq_zero)
  moreover have "i = lastIncludedIndex n \<longleftrightarrow> unat i = base n"
    by (simp only: word_unat_eq_iff)
  ultimately show ?thesis
    using go_index_log [OF assms, of i] entry_at_contains [OF assms, of i]
    by (auto simp: logTermAtLocked_def term_at_def split: option.splits)
qed

lemma entry_at_index:
  assumes "log_ok n" and "entry_at n k = Some e"
  shows "unat (eIndex e) = k"
proof -
  have k: "base n < k" "k \<le> log_end n" and e: "e = nlog n ! (k - base n - 1)"
    using assms(2) by (auto simp: entry_at_def split: if_splits)
  then have "eIndex e = lastIncludedIndex n + 1 + of_nat (k - base n - 1)"
    using contiguous_nth [OF log_ok_contiguous [OF assms(1)], of "k - base n - 1"] by simp
  also have "\<dots> = lastIncludedIndex n + of_nat (Suc (k - base n - 1))"
    by simp
  also have "Suc (k - base n - 1) = k - base n"
    using k by simp
  finally have "eIndex e = lastIncludedIndex n + of_nat (k - base n)" .
  moreover have "base n + (k - base n) < 2 ^ 64"
    using k log_ok_bound [OF assms(1)] by linarith
  then have "unat (lastIncludedIndex n + of_nat (k - base n)) = base n + (k - base n)"
    by (rule unat_add_of_nat_64)
  ultimately show ?thesis using k by simp
qed

lemma cloneEntriesFrom_eq:
  assumes "log_ok n"
  shows "cloneEntriesFromLocked n i = Some (drop (unat i - base n - 1) (nlog n))"
proof (cases "i \<le> lastIncludedIndex n")
  case True
  then have "unat i - base n - 1 = 0" by (simp add: word_le_nat_alt)
  moreover have "firstLogIndexLocked n > lastLogIndexLocked n \<longleftrightarrow> nlog n = []"
    using unat_firstLogIndex [OF assms] unat_lastLogIndex [OF assms] by (auto simp: word_less_nat_alt)
  ultimately show ?thesis using True
    by (simp add: cloneEntriesFromLocked_def go_slice_from_def Let_def)
next
  case False
  then have i: "base n < unat i" by (simp add: word_le_nat_alt)
  have "i > lastLogIndexLocked n \<longleftrightarrow> log_end n < unat i"
    by (simp add: word_less_nat_alt unat_lastLogIndex [OF assms])
  then show ?thesis using False i
    by (auto simp: cloneEntriesFromLocked_def go_slice_from_def Let_def unat_log_offset [OF assms i])
qed

lemma lastLogTerm_eq:
  assumes "log_ok n" and "0 < log_end n"
  shows "lastLogTermLocked n = term_at n (log_end n)"
  using assms by (auto simp: lastLogTermLocked_def term_at_def entry_at_def last_conv_nth)

end
