(* ===== verification/NodeAppend.thy ===== *)
theory NodeAppend
  imports NodeLog
begin

text \<open>
  What \<^verbatim>\<open>HandleAppendEntries\<close> does to the log.  The reference is \<open>merge_log\<close>, Raft's rule on
  plain lists: walk both lists while the terms agree, and at the first disagreement drop
  the local rest in favour of the leader's.  The index arithmetic and the early returns of
  \<^verbatim>\<open>appendEntriesToLogLocked\<close> compute exactly that.
\<close>

fun merge_log :: "LogEntry list \<Rightarrow> LogEntry list \<Rightarrow> LogEntry list" where
  "merge_log old [] = old"
| "merge_log [] new = new"
| "merge_log (old # olds) (new # news) =
     (if eTerm old = eTerm new then old # merge_log olds news else new # news)"

text \<open>The log after entries sent for the positions after \<open>p\<close>, given what lies up to \<open>p\<close>.\<close>

definition appended :: "'s RaftNode \<Rightarrow> nat \<Rightarrow> LogEntry list \<Rightarrow> LogEntry list" where
  "appended n p es =
     take (p - base n) (nlog n)
     @ merge_log (drop (p - base n) (nlog n))
         (drop (base n - p) (normalizeEntries (of_nat (p + 1)) es))"

lemma merge_log_Nil [simp]: "merge_log [] new = new"
  by (cases new) auto

lemma length_merge_log: "length (merge_log old new) \<ge> length new"
  by (induction old new rule: merge_log.induct) auto

lemma length_merge_log_le: "length (merge_log old new) \<le> max (length old) (length new)"
  by (induction old new rule: merge_log.induct) auto

lemma contiguous_merge_log:
  "contiguous i old \<Longrightarrow> contiguous i new \<Longrightarrow> contiguous i (merge_log old new)"
  by (induction old new arbitrary: i rule: merge_log.induct) auto

lemma merge_log_nth_term:
  "k < length new \<Longrightarrow> eTerm (merge_log old new ! k) = eTerm (new ! k)"
proof (induction old new arbitrary: k rule: merge_log.induct)
  case (3 old olds new news)
  then show ?case by (cases k) auto
qed auto

lemma merge_log_idem: "merge_log (merge_log old new) new = merge_log old new"
proof (induction old new rule: merge_log.induct)
  case (2 v va)
  have "merge_log xs xs = xs" for xs by (induction xs) auto
  then show ?case by simp
next
  case (3 old olds new news)
  have "merge_log xs xs = xs" for xs by (induction xs) auto
  with 3 show ?case by auto
qed simp

lemma contiguous_appended:
  assumes "log_ok n" and "p \<le> log_end n"
  shows "contiguous (lastIncludedIndex n + 1) (appended n p es)"
proof (cases "p < base n")
  case True
  have "unat (lastIncludedIndex n) = base n" by simp
  then have eq: "of_nat (base n) = lastIncludedIndex n" by (simp add: of_nat_unat_64)
  have "contiguous (lastIncludedIndex n + 1) (drop (base n - p) (normalizeEntries (of_nat (p + 1)) es))"
  proof (cases "base n - p \<le> length es")
    case le: True
    then have "contiguous (of_nat (p + 1) + of_nat (base n - p))
        (drop (base n - p) (normalizeEntries (of_nat (p + 1)) es))"
      by (intro contiguous_drop) simp_all
    moreover have "of_nat (p + 1) + of_nat (base n - p) = lastIncludedIndex n + 1"
      using True eq by (simp add: of_nat_diff)
    ultimately show ?thesis by (simp only:)
  qed simp
  then show ?thesis using True log_ok_contiguous [OF assms(1)]
    by (simp add: appended_def contiguous_merge_log)
next
  case False
  let ?q = "p - base n"
  have q: "?q \<le> length (nlog n)" using assms(2) False by simp
  have "of_nat (p + 1) = lastIncludedIndex n + 1 + (of_nat ?q :: uint64)"
    using False by (simp add: of_nat_diff of_nat_unat_64)
  then have "contiguous (lastIncludedIndex n + 1 + of_nat ?q) (normalizeEntries (of_nat (p + 1)) es)"
    by (metis contiguous_normalize)
  moreover have "contiguous (lastIncludedIndex n + 1 + of_nat ?q) (drop ?q (nlog n))"
    using q log_ok_contiguous [OF assms(1)] by (rule contiguous_drop [rotated])
  ultimately have "contiguous (lastIncludedIndex n + 1 + of_nat ?q)
      (merge_log (drop ?q (nlog n)) (normalizeEntries (of_nat (p + 1)) es))"
    by (rule contiguous_merge_log [rotated])
  moreover have "length (take ?q (nlog n)) = ?q" "base n - p = 0" using q False by simp_all
  ultimately show ?thesis
    unfolding appended_def contiguous_append
    using contiguous_take [OF log_ok_contiguous [OF assms(1)]] by (simp only: drop_0 simp_thms)
qed

lemma length_appended:
  assumes "p \<le> log_end n"
  shows "p + length es \<le> base n + length (appended n p es)"
    and "base n + length (appended n p es) \<le> max (log_end n) (p + length es)"
proof -
  let ?q = "p - base n" and ?new = "drop (base n - p) (normalizeEntries (of_nat (p + 1)) es)"
  have q: "length (take ?q (nlog n)) = ?q" using assms by simp
  have "length ?new \<le> length (merge_log (drop ?q (nlog n)) ?new)" by (rule length_merge_log)
  then have "length es - (base n - p) \<le> length (merge_log (drop ?q (nlog n)) ?new)" by simp
  with q show "p + length es \<le> base n + length (appended n p es)"
    unfolding appended_def length_append by linarith
  have "length (merge_log (drop ?q (nlog n)) ?new) \<le> max (length (nlog n) - ?q) (length es - (base n - p))"
    using length_merge_log_le [of "drop ?q (nlog n)" ?new] by simp
  with q assms show "base n + length (appended n p es) \<le> max (log_end n) (p + length es)"
    unfolding appended_def length_append by linarith
qed

lemma append_loop_appended:
  assumes "log_ok n" and "unat index = p + 1" and "p \<le> log_end n" and "p + length es + 1 < 2 ^ 64"
  shows "append_loop n index es
    = Some (appended n p es \<noteq> nlog n, n\<lparr>nlog := appended n p es\<rparr>)"
  using assms
proof (induction es arbitrary: index p)
  case Nil
  then show ?case by (simp add: appended_def)
next
  case (Cons e es)
  have idx: "index = of_nat (p + 1)"
    using Cons.prems(2) by (metis of_nat_unat_64)
  have idx': "unat (index + 1) = p + 1 + 1"
    using Cons.prems(2,4) by (simp add: unat_plus_one_64)
  have norm: "normalizeEntries (of_nat (p + 1)) (e # es)
      = e\<lparr>eIndex := index\<rparr> # normalizeEntries (of_nat (p + 1 + 1)) es"
    using idx by (simp add: add.commute)
  consider (skip) "p + 1 \<le> base n" | (inside) "base n < p + 1" "p + 1 \<le> log_end n" | (past) "base n < p + 1" "p = log_end n"
    using Cons.prems(3) by linarith
  then show ?case
  proof cases
    case skip
    then have "index \<le> lastIncludedIndex n" using Cons.prems(2) by (simp add: word_le_nat_alt)
    moreover have "append_loop n (index + 1) es
        = Some (appended n (p + 1) es \<noteq> nlog n, n\<lparr>nlog := appended n (p + 1) es\<rparr>)"
      using Cons.IH [OF Cons.prems(1) idx'] Cons.prems(4) skip by simp
    moreover have "appended n (p + 1) es = appended n p (e # es)"
      using skip norm by (simp add: appended_def drop_Cons' Suc_diff_Suc)
    ultimately show ?thesis by simp
  next
    case inside
    let ?q = "p - base n"
    have ni: "\<not> index \<le> lastIncludedIndex n" and ci: "containsLogIndexLocked n index"
      using inside Cons.prems(1,2) by (simp_all add: word_le_nat_alt containsLogIndex_iff)
    have loc: "go_index (nlog n) (index - firstLogIndexLocked n) = Some (nlog n ! ?q)"
      using inside Cons.prems(1,2) ci by (simp add: go_index_log entry_at_def)
    have off: "unat (index - firstLogIndexLocked n) = ?q"
      using inside Cons.prems(1,2) by (simp add: unat_log_offset)
    have dq: "drop ?q (nlog n) = nlog n ! ?q # drop (Suc ?q) (nlog n)"
      using inside by (intro Cons_nth_drop_Suc [symmetric]) simp
    have tq: "take (Suc ?q) (nlog n) = take ?q (nlog n) @ [nlog n ! ?q]"
      using inside by (intro take_Suc_conv_app_nth) simp
    show ?thesis
    proof (cases "eTerm (nlog n ! ?q) = eTerm e")
      case True
      have "append_loop n (index + 1) es
          = Some (appended n (p + 1) es \<noteq> nlog n, n\<lparr>nlog := appended n (p + 1) es\<rparr>)"
        using Cons.IH [OF Cons.prems(1) idx'] Cons.prems(4) inside by simp
      moreover have "appended n (p + 1) es = appended n p (e # es)"
        using inside True norm dq tq by (simp add: appended_def Suc_diff_le)
      ultimately show ?thesis using ni ci loc True by simp
    next
      case False
      have ap: "appended n p (e # es) = take ?q (nlog n) @ normalizeEntries index (e # es)"
        using inside False norm dq idx by (simp add: appended_def)
      have "appended n p (e # es) ! ?q = e\<lparr>eIndex := index\<rparr>"
        using inside by (simp add: ap nth_append)
      then have "appended n p (e # es) \<noteq> nlog n" using False by auto
      then show ?thesis using ni ci loc False ap off by simp
    qed
  next
    case past
    have ni: "\<not> index \<le> lastIncludedIndex n" and ci: "\<not> containsLogIndexLocked n index"
      using past Cons.prems(1,2) by (simp_all add: word_le_nat_alt containsLogIndex_iff)
    have ap: "appended n p (e # es) = nlog n @ normalizeEntries index (e # es)"
      using past idx by (simp add: appended_def)
    then show ?thesis using ni ci by simp
  qed
qed

end
