(* ===== verification/NodeCommit.thy ===== *)
theory NodeCommit
  imports NodeAppend
begin

text \<open>
  How far a leader commits.  The loop of \<^verbatim>\<open>advanceCommitLocked\<close> counts down from the end of
  the log; it moves the commit index to the highest position whose entry is of the current
  term and is held by a majority, and leaves it alone when there is none.
\<close>

definition committable :: "'s RaftNode \<Rightarrow> nat \<Rightarrow> bool" where
  "committable n k =
     (term_at n k = currentTerm n
      \<and> majority (clusterSizeLocked n) \<le> replicatedCount n (of_nat k))"

text \<open>The highest committable position in \<open>(commitIndex, hi]\<close>.\<close>

definition best_commit :: "'s RaftNode \<Rightarrow> nat \<Rightarrow> nat option" where
  "best_commit n hi = find (committable n) (rev [Suc (unat (commitIndex n))..<Suc hi])"

definition commit_to :: "'s RaftNode \<Rightarrow> nat option \<Rightarrow> 's RaftNode" where
  "commit_to n k =
     (case k of None \<Rightarrow> n
      | Some k \<Rightarrow> signalCommitReadyLocked (n\<lparr>commitIndex := of_nat k\<rparr>))"

lemma best_commit_step:
  "unat (commitIndex n) < Suc k \<Longrightarrow>
     best_commit n (Suc k) = (if committable n (Suc k) then Some (Suc k) else best_commit n k)"
  by (simp add: best_commit_def)

lemma best_commit_None_le: "hi \<le> unat (commitIndex n) \<Longrightarrow> best_commit n hi = None"
  by (simp add: best_commit_def)

lemma find_rev_upt_Some:
  "find P (rev [a..<b]) = Some k \<longleftrightarrow> a \<le> k \<and> k < b \<and> P k \<and> (\<forall>j. k < j \<and> j < b \<longrightarrow> \<not> P j)"
proof (induction b)
  case (Suc b)
  show ?case
  proof (cases "a \<le> b")
    case True
    then show ?thesis using Suc by (auto simp: less_Suc_eq)
  qed auto
qed simp

lemma best_commit_Some:
  "best_commit n hi = Some k \<longleftrightarrow>
     unat (commitIndex n) < k \<and> k \<le> hi \<and> committable n k \<and> (\<forall>j. k < j \<and> j \<le> hi \<longrightarrow> \<not> committable n j)"
  unfolding best_commit_def find_rev_upt_Some less_Suc_eq_le Suc_le_eq ..

lemma best_commit_None:
  "best_commit n hi = None \<longleftrightarrow> (\<forall>k. unat (commitIndex n) < k \<and> k \<le> hi \<longrightarrow> \<not> committable n k)"
  by (auto simp: best_commit_def find_None_iff less_Suc_eq_le Suc_le_eq simp del: upt_Suc)

lemma advance_loop_best:
  assumes "log_ok n"
  shows "advance_loop n index = Some (commit_to n (best_commit n (unat index)))"
proof (induction "unat index" arbitrary: index)
  case 0
  then have "\<not> index > commitIndex n" by (simp add: word_less_nat_alt)
  with 0 show ?case by (simp add: advance_loop.simps [of n index] best_commit_None_le commit_to_def)
next
  case (Suc k)
  have k: "unat (index - 1) = k" using Suc(2) by (metis One_nat_def diff_Suc_1 unat_minus_one unat_0 nat.distinct(1))
  have IH: "advance_loop n (index - 1) = Some (commit_to n (best_commit n k))"
    using Suc(1) [of "index - 1"] k by simp
  have idx: "of_nat (Suc k) = index" using Suc(2) by (metis of_nat_unat_64)
  show ?case
  proof (cases "index > commitIndex n")
    case True
    then have c: "unat (commitIndex n) < Suc k" using Suc(2) by (simp add: word_less_nat_alt)
    show ?thesis
      using True IH idx best_commit_step [OF c] Suc(2) [symmetric]
      by (subst advance_loop.simps)
        (auto simp: logTermAt_eq [OF assms] committable_def commit_to_def simp del: of_nat_Suc)
  next
    case False
    then have "unat index \<le> unat (commitIndex n)" by (simp add: word_less_nat_alt)
    then show ?thesis using False by (simp add: advance_loop.simps [of n index] best_commit_None_le commit_to_def)
  qed
qed

lemma advanceCommit_eq:
  assumes "log_ok n"
  shows "advanceCommitLocked n =
    Some (if state n = Leader \<and> selfMember n then commit_to n (best_commit n (log_end n)) else n)"
  using advance_loop_best [OF assms, of "lastLogIndexLocked n"]
  by (simp add: advanceCommitLocked_def unat_lastLogIndex [OF assms])

subsection \<open>What the commit step keeps\<close>

lemma commit_to_frame [simp, frame]:
  "nid (commit_to n k) = nid n" "peers (commit_to n k) = peers n"
  "selfMember (commit_to n k) = selfMember n"
  "membershipConfigured (commit_to n k) = membershipConfigured n"
  "state (commit_to n k) = state n" "leaderID (commit_to n k) = leaderID n"
  "currentTerm (commit_to n k) = currentTerm n" "votedFor (commit_to n k) = votedFor n"
  "nlog (commit_to n k) = nlog n" "lastApplied (commit_to n k) = lastApplied n"
  "lastIncludedIndex (commit_to n k) = lastIncludedIndex n"
  "lastIncludedTerm (commit_to n k) = lastIncludedTerm n"
  "snapshot (commit_to n k) = snapshot n" "nextIndex (commit_to n k) = nextIndex n"
  "matchIndex (commit_to n k) = matchIndex n" "store (commit_to n k) = store n"
  by (simp_all add: commit_to_def signalCommitReadyLocked_def split: option.split)

lemma commit_to_best_range:
  assumes "log_ok n"
  shows "commitIndex n \<le> commitIndex (commit_to n (best_commit n (log_end n)))"
    and "unat (commitIndex n) \<le> log_end n \<Longrightarrow>
           unat (commitIndex (commit_to n (best_commit n (log_end n)))) \<le> log_end n"
proof -
  have "unat (commitIndex n) \<le> unat (commitIndex (commit_to n (best_commit n (log_end n))))
    \<and> (unat (commitIndex n) \<le> log_end n \<longrightarrow>
         unat (commitIndex (commit_to n (best_commit n (log_end n)))) \<le> log_end n)"
  proof (cases "best_commit n (log_end n)")
    case (Some k)
    then have "unat (commitIndex n) < k" "k \<le> log_end n" by (simp_all add: best_commit_Some)
    moreover have "unat (of_nat k :: uint64) = k"
      using \<open>k \<le> log_end n\<close> log_ok_bound [OF assms] by (intro unat_of_nat_64) linarith
    ultimately show ?thesis using Some by (simp add: commit_to_def signalCommitReadyLocked_def)
  qed (simp add: commit_to_def)
  then show "commitIndex n \<le> commitIndex (commit_to n (best_commit n (log_end n)))"
    and "unat (commitIndex n) \<le> log_end n \<Longrightarrow>
           unat (commitIndex (commit_to n (best_commit n (log_end n)))) \<le> log_end n"
    by (simp_all add: word_le_nat_alt)
qed

end
