(* ===== verification/NodeInv.thy ===== *)
theory NodeInv
  imports NodeCommit
begin

text \<open>
  The invariant of a node, \<open>node_ok\<close>, and its preservation by every operation of
  \<^verbatim>\<open>raft/node.go\<close> and by the helper steps of \<^verbatim>\<open>raft/election.go\<close>.  With it no operation
  panics: each lemma also gives the operation's result as \<^const>\<open>Some\<close>.
\<close>

text \<open>A leader, and only a leader, has progress maps, with an entry for each of its peers.\<close>

definition progress_peers :: "'s RaftNode \<Rightarrow> string set option" where
  "progress_peers n = (if state n = Leader then Some (set (peers n)) else None)"

definition progress_ok :: "'s RaftNode \<Rightarrow> bool" where
  "progress_ok n =
     (map_option dom (nextIndex n) = progress_peers n \<and> map_option dom (matchIndex n) = progress_peers n)"

definition membership_ok :: "'s RaftNode \<Rightarrow> bool" where
  "membership_ok n = (distinct (peers n) \<and> nid n \<notin> set (peers n))"

definition index_ok :: "'s RaftNode \<Rightarrow> bool" where
  "index_ok n =
     (lastIncludedIndex n \<le> lastApplied n \<and> lastApplied n \<le> commitIndex n
      \<and> unat (commitIndex n) \<le> log_end n)"

definition node_ok :: "'s RaftNode \<Rightarrow> bool" where
  "node_ok n = (log_ok n \<and> progress_ok n \<and> membership_ok n \<and> index_ok n)"

lemmas ok_defs = log_ok_def progress_ok_def progress_peers_def membership_ok_def index_ok_def

lemma node_okI:
  "log_ok n \<Longrightarrow> progress_ok n \<Longrightarrow> membership_ok n \<Longrightarrow> index_ok n \<Longrightarrow> node_ok n"
  by (simp add: node_ok_def)

lemma node_okD:
  "node_ok n \<Longrightarrow> log_ok n" "node_ok n \<Longrightarrow> progress_ok n"
  "node_ok n \<Longrightarrow> membership_ok n" "node_ok n \<Longrightarrow> index_ok n"
  by (simp_all add: node_ok_def)

lemma progress_ok_cases:
  assumes "progress_ok n"
  obtains (leader) f g where "state n = Leader" "nextIndex n = Some f" "matchIndex n = Some g"
      "dom f = set (peers n)" "dom g = set (peers n)"
    | (other) "state n \<noteq> Leader" "nextIndex n = None" "matchIndex n = None"
  using assms by (auto simp: progress_ok_def progress_peers_def split: if_splits)

subsection \<open>Updates that keep the invariant\<close>

lemma node_ok_store [simp]: "node_ok (n\<lparr>store := s\<rparr>) = node_ok n"
  by (simp add: node_ok_def ok_defs)

lemma node_ok_votedFor [simp]: "node_ok (n\<lparr>votedFor := v\<rparr>) = node_ok n"
  by (simp add: node_ok_def ok_defs)

lemma node_ok_leaderID [simp]: "node_ok (n\<lparr>leaderID := v\<rparr>) = node_ok n"
  by (simp add: node_ok_def ok_defs)

lemma node_ok_currentTerm [simp]: "node_ok (n\<lparr>currentTerm := t\<rparr>) = node_ok n"
  by (simp add: node_ok_def ok_defs)

lemma node_ok_membershipConfigured [simp]: "node_ok (n\<lparr>membershipConfigured := t\<rparr>) = node_ok n"
  by (simp add: node_ok_def ok_defs)

lemma node_ok_selfMember [simp]: "node_ok (n\<lparr>selfMember := t\<rparr>) = node_ok n"
  by (simp add: node_ok_def ok_defs)

lemma node_ok_snapshot [simp]: "node_ok (n\<lparr>snapshot := t\<rparr>) = node_ok n"
  by (simp add: node_ok_def ok_defs)

text \<open>Losing the leader role: the role changes and both maps become nil.\<close>

lemma node_ok_step_down:
  "node_ok n \<Longrightarrow> st \<noteq> Leader \<Longrightarrow> node_ok (n\<lparr>state := st, nextIndex := None, matchIndex := None\<rparr>)"
  by (simp add: node_ok_def ok_defs)

lemma node_ok_persist [simp]: "node_ok (snd (persistLocked sv n)) = node_ok n"
  by (simp add: persistLocked_pair)

lemma node_ok_commit:
  assumes "node_ok n"
  shows "node_ok (commit_to n (best_commit n (log_end n)))"
proof -
  let ?m = "commit_to n (best_commit n (log_end n))"
  have "log_ok n" "index_ok n" using assms by (simp_all add: node_ok_def)
  then have "index_ok ?m"
    using commit_to_best_range [of n] by (auto simp: index_ok_def)
  then show ?thesis
    using assms by (simp add: node_ok_def log_ok_def progress_ok_def progress_peers_def membership_ok_def)
qed

lemma advanceCommit_ok:
  assumes "node_ok n"
  obtains n' where "advanceCommitLocked n = Some n'" "node_ok n'"
  using assms advanceCommit_eq [of n] node_ok_commit [of n] by (auto simp: node_ok_def split: if_splits)

text \<open>A node after \<^verbatim>\<open>advanceCommitLocked\<close>.\<close>

definition settled :: "'s RaftNode \<Rightarrow> 's RaftNode" where
  "settled n = (if state n = Leader \<and> selfMember n then commit_to n (best_commit n (log_end n)) else n)"

lemma advanceCommit_settled: "log_ok n \<Longrightarrow> advanceCommitLocked n = Some (settled n)"
  by (simp add: settled_def advanceCommit_eq)

lemma node_ok_settled: "node_ok n \<Longrightarrow> node_ok (settled n)"
  by (simp add: settled_def node_ok_commit)

lemma settled_frame [simp]:
  "nlog (settled n) = nlog n" "lastIncludedIndex (settled n) = lastIncludedIndex n"
  "lastIncludedTerm (settled n) = lastIncludedTerm n" "nid (settled n) = nid n"
  "lastApplied (settled n) = lastApplied n" "currentTerm (settled n) = currentTerm n"
  "store (settled n) = store n" "peers (settled n) = peers n" "selfMember (settled n) = selfMember n"
  "votedFor (settled n) = votedFor n" "state (settled n) = state n" "leaderID (settled n) = leaderID n"
  "nextIndex (settled n) = nextIndex n" "matchIndex (settled n) = matchIndex n"
  "snapshot (settled n) = snapshot n" "membershipConfigured (settled n) = membershipConfigured n"
  by (simp_all add: settled_def)

subsection \<open>Role changes and votes\<close>

lemma BecomeFollower_ok:
  assumes "node_ok n"
  shows "node_ok (snd (BecomeFollower sv n t))"
  using node_ok_step_down [OF assms, of Follower]
  by (simp add: BecomeFollower_def Let_def persistLocked_pair node_ok_def ok_defs)

lemma BecomeCandidate_ok:
  assumes "node_ok n"
  shows "node_ok (snd (BecomeCandidate sv n))"
  using node_ok_step_down [OF assms, of Candidate]
  by (simp add: BecomeCandidate_def persistLocked_pair node_ok_def ok_defs)

text \<open>
  \<^verbatim>\<open>RequestVote\<close> in three parts: when it refuses outright, the step to a newer term, and the
  test for granting the vote.
\<close>

definition vote_refused :: "'s RaftNode \<Rightarrow> RequestVoteRequest \<Rightarrow> bool" where
  "vote_refused n req =
     (rvTerm req < currentTerm n \<or> \<not> selfMember n \<or> \<not> isMemberLocked n (rvCandidateID req))"

definition adopt_term :: "'s RaftNode \<Rightarrow> uint64 \<Rightarrow> 's RaftNode" where
  "adopt_term n t =
     (if t > currentTerm n
      then n\<lparr>currentTerm := t, votedFor := [], leaderID := [], nextIndex := None,
             matchIndex := None, state := Follower\<rparr>
      else n)"

definition vote_granted :: "'s RaftNode \<Rightarrow> RequestVoteRequest \<Rightarrow> bool" where
  "vote_granted n req =
     ((votedFor n = [] \<or> votedFor n = rvCandidateID req)
      \<and> IsLogAtLeastUpToDate (rvLastLogIndex req) (rvLastLogTerm req)
           (lastLogIndexLocked n) (lastLogTermLocked n))"

definition vote_node :: "'s RaftNode \<Rightarrow> RequestVoteRequest \<Rightarrow> 's RaftNode" where
  "vote_node n req =
     (let m = adopt_term n (rvTerm req) in
      if vote_granted m req then m\<lparr>votedFor := rvCandidateID req\<rparr> else m)"

lemma RequestVote_refused:
  "vote_refused n req \<Longrightarrow>
     RequestVote sv n req = (\<lparr>rvrTerm = currentTerm n, rvrVoteGranted = False\<rparr>, None, n)"
  by (auto simp: RequestVote_def vote_refused_def Let_def)

lemma RequestVote_considered:
  assumes "\<not> vote_refused n req"
  shows "RequestVote sv n req =
    (\<lparr>rvrTerm = rvTerm req, rvrVoteGranted = vote_granted (adopt_term n (rvTerm req)) req\<rparr>,
     (if rvTerm req > currentTerm n \<or> vote_granted (adopt_term n (rvTerm req)) req
      then persist_err sv (vote_node n req) else None),
     (if rvTerm req > currentTerm n \<or> vote_granted (adopt_term n (rvTerm req)) req
      then (vote_node n req)\<lparr>store := persist_store sv (vote_node n req)\<rparr> else n))"
proof -
  have t: "\<not> rvTerm req < currentTerm n" "selfMember n" "isMemberLocked n (rvCandidateID req)"
    using assms by (auto simp: vote_refused_def)
  show ?thesis
  proof (cases "rvTerm req > currentTerm n")
    case True
    then show ?thesis using t
      by (simp add: RequestVote_def Let_def persistLocked_pair vote_node_def vote_granted_def adopt_term_def)
  next
    case False
    then have "currentTerm n = rvTerm req" using t(1) by simp
    then show ?thesis using t
      by (simp add: RequestVote_def Let_def persistLocked_pair vote_node_def vote_granted_def adopt_term_def)
  qed
qed

lemma node_ok_adopt_term: "node_ok n \<Longrightarrow> node_ok (adopt_term n t)"
  by (simp add: adopt_term_def node_ok_def ok_defs)

lemma node_ok_vote_node: "node_ok n \<Longrightarrow> node_ok (vote_node n req)"
  by (simp add: vote_node_def Let_def node_ok_adopt_term)

lemma RequestVote_ok:
  assumes "node_ok n" and "RequestVote sv n req = (resp, err, n')"
  shows "node_ok n'"
  using assms node_ok_vote_node [OF assms(1), of req]
  by (cases "vote_refused n req") (auto simp: RequestVote_refused RequestVote_considered)

lemma RequestVote_granted:
  assumes "RequestVote sv n req = (resp, None, n')" and "rvrVoteGranted resp"
  shows "persistLocked sv (vote_node n req) = (None, n')" and "votedFor (vote_node n req) = rvCandidateID req"
    and "currentTerm (vote_node n req) = rvTerm req" and "store (vote_node n req) = store n"
proof -
  have f: "\<not> vote_refused n req" using assms by (cases "vote_refused n req") (auto simp: RequestVote_refused)
  then have g: "vote_granted (adopt_term n (rvTerm req)) req" using assms by (auto simp: RequestVote_considered)
  then show "persistLocked sv (vote_node n req) = (None, n')"
    using assms(1) f by (auto simp: RequestVote_considered persistLocked_pair)
  show "votedFor (vote_node n req) = rvCandidateID req" "currentTerm (vote_node n req) = rvTerm req"
      "store (vote_node n req) = store n"
    using g f by (auto simp: vote_node_def Let_def vote_refused_def adopt_term_def)
qed

lemma RequestVote_taken:
  assumes "votedFor n \<noteq> []" and "votedFor n \<noteq> rvCandidateID req" and "currentTerm n = rvTerm req"
  shows "\<not> rvrVoteGranted (fst (RequestVote sv n req))"
  using assms
  by (cases "vote_refused n req") (simp_all add: RequestVote_refused RequestVote_considered vote_granted_def adopt_term_def)

subsection \<open>AppendEntries\<close>

definition append_refused :: "'s RaftNode \<Rightarrow> AppendEntriesRequest \<Rightarrow> bool" where
  "append_refused n req = (aeTerm req < currentTerm n \<or> \<not> isMemberLocked n (aeLeaderID req))"

text \<open>The node that has accepted the sender as leader of the request's term.\<close>

definition follow_node :: "'s RaftNode \<Rightarrow> AppendEntriesRequest \<Rightarrow> 's RaftNode" where
  "follow_node n req =
     n\<lparr>state := Follower, leaderID := aeLeaderID req, currentTerm := aeTerm req,
       votedFor := (if aeTerm req > currentTerm n then [] else votedFor n),
       nextIndex := (if aeTerm req > currentTerm n \<or> state n \<noteq> Follower then None else nextIndex n),
       matchIndex := (if aeTerm req > currentTerm n \<or> state n \<noteq> Follower then None else matchIndex n)\<rparr>"

definition prev_matches :: "'s RaftNode \<Rightarrow> AppendEntriesRequest \<Rightarrow> bool" where
  "prev_matches n req =
     (aePrevLogIndex req = 0 \<or> term_at n (unat (aePrevLogIndex req)) = aePrevLogTerm req)"

text \<open>The request's entries start inside or right after the local log and stay below \<open>2 ^ 64\<close>.\<close>

definition anchored :: "'s RaftNode \<Rightarrow> AppendEntriesRequest \<Rightarrow> bool" where
  "anchored n req =
     (unat (aePrevLogIndex req) \<le> log_end n
      \<and> unat (aePrevLogIndex req) + length (aeEntries req) + 1 < 2 ^ 64)"

definition follow_commit :: "'s RaftNode \<Rightarrow> uint64 \<Rightarrow> 's RaftNode" where
  "follow_commit n c =
     (let nextCommit = min c (lastLogIndexLocked n) in
      if c > commitIndex n \<and> nextCommit > commitIndex n
      then signalCommitReadyLocked (n\<lparr>commitIndex := nextCommit\<rparr>) else n)"

definition append_node :: "'s RaftNode \<Rightarrow> AppendEntriesRequest \<Rightarrow> 's RaftNode" where
  "append_node n req =
     follow_commit ((follow_node n req)\<lparr>nlog := appended n (unat (aePrevLogIndex req)) (aeEntries req)\<rparr>)
       (aeLeaderCommit req)"

definition append_changes :: "'s RaftNode \<Rightarrow> AppendEntriesRequest \<Rightarrow> bool" where
  "append_changes n req =
     (aeTerm req > currentTerm n \<or> appended n (unat (aePrevLogIndex req)) (aeEntries req) \<noteq> nlog n)"

lemma follow_node_frame [simp]:
  "nlog (follow_node n req) = nlog n" "lastIncludedIndex (follow_node n req) = lastIncludedIndex n"
  "lastIncludedTerm (follow_node n req) = lastIncludedTerm n" "peers (follow_node n req) = peers n"
  "nid (follow_node n req) = nid n" "selfMember (follow_node n req) = selfMember n"
  "commitIndex (follow_node n req) = commitIndex n" "lastApplied (follow_node n req) = lastApplied n"
  "currentTerm (follow_node n req) = aeTerm req" "state (follow_node n req) = Follower"
  "leaderID (follow_node n req) = aeLeaderID req" "store (follow_node n req) = store n"
  "membershipConfigured (follow_node n req) = membershipConfigured n"
  "snapshot (follow_node n req) = snapshot n"
  by (simp_all add: follow_node_def)

lemma log_view_follow [simp]:
  "log_ok (follow_node n req) = log_ok n" "entry_at (follow_node n req) k = entry_at n k"
  "term_at (follow_node n req) k = term_at n k" "appended (follow_node n req) p es = appended n p es"
  by (simp_all add: log_ok_def entry_at_def term_at_def appended_def)

lemma HandleAppendEntries_refused:
  "append_refused n req \<Longrightarrow>
     HandleAppendEntries sv n req = Some (\<lparr>aerTerm = currentTerm n, aerSuccess = False\<rparr>, None, n)"
  by (auto simp: HandleAppendEntries_def append_refused_def Let_def)

lemma HandleAppendEntries_step:
  assumes "\<not> append_refused n req"
  shows "HandleAppendEntries sv n req =
    (case appendEntriesToLogLocked (follow_node n req) (aePrevLogIndex req) (aePrevLogTerm req) (aeEntries req) of
       None \<Rightarrow> None
     | Some (Inl _) \<Rightarrow>
         Some (\<lparr>aerTerm = aeTerm req, aerSuccess = False\<rparr>,
               (if aeTerm req > currentTerm n then persist_err sv (follow_node n req) else None),
               (if aeTerm req > currentTerm n
                then (follow_node n req)\<lparr>store := persist_store sv (follow_node n req)\<rparr>
                else follow_node n req))
     | Some (Inr (logChanged, m)) \<Rightarrow>
         (let m' = follow_commit m (aeLeaderCommit req) in
          Some (\<lparr>aerTerm = currentTerm m', aerSuccess = True\<rparr>,
               (if aeTerm req > currentTerm n \<or> logChanged then persist_err sv m' else None),
               (if aeTerm req > currentTerm n \<or> logChanged
                then m'\<lparr>store := persist_store sv m'\<rparr> else m'))))"
proof -
  have t: "\<not> aeTerm req < currentTerm n" "isMemberLocked n (aeLeaderID req)"
    using assms by (auto simp: append_refused_def)
  have f: "follow_node n req =
    (let m = (if aeTerm req > currentTerm n
              then n\<lparr>currentTerm := aeTerm req, votedFor := [], leaderID := [],
                     nextIndex := None, matchIndex := None\<rparr> else n);
         m = (if state m \<noteq> Follower then m\<lparr>nextIndex := None, matchIndex := None\<rparr> else m)
     in m\<lparr>state := Follower, leaderID := aeLeaderID req\<rparr>)"
    using t(1) by (cases n) (auto simp: follow_node_def Let_def)
  show ?thesis
  proof (cases "aeTerm req > currentTerm n")
    case True
    then show ?thesis using t f
      by (simp add: HandleAppendEntries_def Let_def persistLocked_pair follow_commit_def
          split: option.split sum.split prod.split)
  next
    case False
    then have "currentTerm n = aeTerm req" using t(1) by simp
    then show ?thesis using t f
      by (simp add: HandleAppendEntries_def Let_def persistLocked_pair follow_commit_def
          split: option.split sum.split prod.split)
  qed
qed

lemma HandleAppendEntries_mismatch:
  assumes "log_ok n" and "\<not> append_refused n req" and "\<not> prev_matches n req"
  shows "HandleAppendEntries sv n req =
    Some (\<lparr>aerTerm = aeTerm req, aerSuccess = False\<rparr>,
          (if aeTerm req > currentTerm n then persist_err sv (follow_node n req) else None),
          (if aeTerm req > currentTerm n
           then (follow_node n req)\<lparr>store := persist_store sv (follow_node n req)\<rparr>
           else follow_node n req))"
proof -
  have "aePrevLogIndex req > 0" using assms(3) by (simp add: prev_matches_def word_gt_0)
  then have "appendEntriesToLogLocked (follow_node n req) (aePrevLogIndex req) (aePrevLogTerm req) (aeEntries req)
      = Some (Inl (ErrLogInconsistent (aePrevLogIndex req) (aePrevLogTerm req)))"
    using assms by (simp add: appendEntriesToLogLocked_def logTermAt_eq prev_matches_def)
  then show ?thesis using assms(2) by (simp add: HandleAppendEntries_step)
qed

lemma HandleAppendEntries_match:
  assumes "log_ok n" and "\<not> append_refused n req" and "prev_matches n req" and "anchored n req"
  shows "HandleAppendEntries sv n req =
    Some (\<lparr>aerTerm = aeTerm req, aerSuccess = True\<rparr>,
          (if append_changes n req then persist_err sv (append_node n req) else None),
          (if append_changes n req
           then (append_node n req)\<lparr>store := persist_store sv (append_node n req)\<rparr>
           else append_node n req))"
proof -
  let ?p = "unat (aePrevLogIndex req)" and ?m = "follow_node n req"
  have p: "unat (aePrevLogIndex req + 1) = ?p + 1"
    using assms(4) by (intro unat_plus_one_64) (simp add: anchored_def)
  have "append_loop ?m (aePrevLogIndex req + 1) (aeEntries req)
      = Some (appended ?m ?p (aeEntries req) \<noteq> nlog ?m, ?m\<lparr>nlog := appended ?m ?p (aeEntries req)\<rparr>)"
    using assms(1,4) p by (intro append_loop_appended) (simp_all add: anchored_def)
  then have "appendEntriesToLogLocked ?m (aePrevLogIndex req) (aePrevLogTerm req) (aeEntries req)
      = Some (Inr (appended n ?p (aeEntries req) \<noteq> nlog n, ?m\<lparr>nlog := appended n ?p (aeEntries req)\<rparr>))"
    using assms(1,3) by (auto simp: appendEntriesToLogLocked_def logTermAt_eq prev_matches_def)
  then show ?thesis using assms(2)
    by (simp add: HandleAppendEntries_step append_node_def append_changes_def Let_def follow_commit_def
        signalCommitReadyLocked_def)
qed

text \<open>A request that does not contradict an entry the node already knows to be committed.\<close>

definition respects_commit :: "'s RaftNode \<Rightarrow> AppendEntriesRequest \<Rightarrow> bool" where
  "respects_commit n req =
     (\<forall>j < length (aeEntries req).
        base n < unat (aePrevLogIndex req) + 1 + j
        \<longrightarrow> unat (aePrevLogIndex req) + 1 + j \<le> unat (commitIndex n)
        \<longrightarrow> term_at n (unat (aePrevLogIndex req) + 1 + j) = eTerm (aeEntries req ! j))"

lemma merge_log_keeps:
  assumes "c \<le> length old" and "\<forall>j < c. j < length new \<longrightarrow> eTerm (old ! j) = eTerm (new ! j)"
  shows "take c (merge_log old new) = take c old \<and> c \<le> length (merge_log old new)"
  using assms
proof (induction old new arbitrary: c rule: merge_log.induct)
  case (3 old olds new news)
  show ?case
  proof (cases c)
    case (Suc d)
    have "eTerm old = eTerm new" using 3(3) Suc by force
    moreover have "\<forall>j < d. j < length news \<longrightarrow> eTerm (olds ! j) = eTerm (news ! j)"
      using 3(3) Suc by force
    ultimately show ?thesis using 3(1) [of d] 3(2) Suc by simp
  qed simp
qed auto

lemma appended_keeps_committed:
  assumes "unat (aePrevLogIndex req) \<le> log_end n" and "unat (commitIndex n) \<le> log_end n"
    and "respects_commit n req"
  defines "c \<equiv> unat (commitIndex n) - base n" and "p \<equiv> unat (aePrevLogIndex req)"
  shows "take c (appended n p (aeEntries req)) = take c (nlog n)
    \<and> c \<le> length (appended n p (aeEntries req))"
proof -
  let ?q = "p - base n" and ?new = "drop (base n - p) (normalizeEntries (of_nat (p + 1)) (aeEntries req))"
  have q: "?q \<le> length (nlog n)" using assms(1) by (simp add: p_def)
  show ?thesis
  proof (cases "c \<le> ?q")
    case True
    then show ?thesis using q by (simp add: appended_def)
  next
    case False
    have "take (c - ?q) (merge_log (drop ?q (nlog n)) ?new) = take (c - ?q) (drop ?q (nlog n))
      \<and> c - ?q \<le> length (merge_log (drop ?q (nlog n)) ?new)"
    proof (rule merge_log_keeps)
      show "c - ?q \<le> length (drop ?q (nlog n))" using assms(2) by (simp add: c_def)
      show "\<forall>j < c - ?q. j < length ?new \<longrightarrow> eTerm (drop ?q (nlog n) ! j) = eTerm (?new ! j)"
      proof (intro allI impI)
        fix j assume j: "j < c - ?q" "j < length ?new"
        let ?i = "base n - p + j"
        have i: "?i < length (aeEntries req)" using j(2) by simp
        have k: "p + 1 + ?i = base n + 1 + (?q + j)" by simp
        have "term_at n (p + 1 + ?i) = eTerm (aeEntries req ! ?i)"
          using assms(3) i j(1) k unfolding respects_commit_def p_def [symmetric] c_def by auto
        moreover have "term_at n (p + 1 + ?i) = eTerm (nlog n ! (?q + j))"
          unfolding k using j(1) assms(2) by (auto simp: term_at_def entry_at_def c_def)
        ultimately show "eTerm (drop ?q (nlog n) ! j) = eTerm (?new ! j)"
          using i q by (simp add: nth_normalize add.commute)
      qed
    qed
    moreover have "length (take ?q (nlog n)) = ?q" using q by simp
    moreover have "take c (nlog n) = take ?q (nlog n) @ take (c - ?q) (drop ?q (nlog n))"
      using False take_add [of ?q "c - ?q" "nlog n"] by simp
    ultimately show ?thesis using False unfolding appended_def by simp linarith
  qed
qed

lemma log_ok_append_node:
  assumes "log_ok n" and "anchored n req"
  shows "log_ok (append_node n req)" and "log_end (append_node n req) \<ge> unat (aePrevLogIndex req) + length (aeEntries req)"
proof -
  let ?a = "appended n (unat (aePrevLogIndex req)) (aeEntries req)"
  have "base n + length ?a + 1 < 2 ^ 64"
    using length_appended(2) [of "unat (aePrevLogIndex req)" n "aeEntries req"] assms(2)
      log_ok_bound [OF assms(1)] unfolding anchored_def by linarith
  moreover have n: "nlog (append_node n req) = ?a" "lastIncludedIndex (append_node n req) = lastIncludedIndex n"
    by (simp_all add: append_node_def follow_commit_def signalCommitReadyLocked_def Let_def)
  ultimately show "log_ok (append_node n req)"
    using contiguous_appended [OF assms(1)] assms(2) by (simp add: log_ok_def anchored_def)
  show "log_end (append_node n req) \<ge> unat (aePrevLogIndex req) + length (aeEntries req)"
    using length_appended(1) [of "unat (aePrevLogIndex req)" n "aeEntries req"] assms(2) n by (simp add: anchored_def)
qed

lemma term_at_pos_range: "term_at n k \<noteq> 0 \<Longrightarrow> 0 < k \<and> k \<le> log_end n"
  by (auto simp: term_at_def entry_at_def split: if_splits option.splits)

lemma anchoredI:
  assumes "prev_matches n req" and "aePrevLogTerm req \<noteq> 0 \<or> aePrevLogIndex req = 0"
    and "unat (aePrevLogIndex req) + length (aeEntries req) + 1 < 2 ^ 64"
  shows "anchored n req"
  using assms term_at_pos_range [of n "unat (aePrevLogIndex req)"]
  by (auto simp: anchored_def prev_matches_def)

lemma node_ok_follow:
  assumes "node_ok n"
  shows "node_ok (follow_node n req)"
proof -
  have "progress_ok n" using assms by (rule node_okD)
  then have "progress_ok (follow_node n req)"
    by (cases rule: progress_ok_cases)
      (auto simp: progress_ok_def progress_peers_def follow_node_def)
  then show ?thesis using assms by (simp add: node_ok_def membership_ok_def index_ok_def)
qed

lemma follow_commit_frame [simp]:
  "nlog (follow_commit n c) = nlog n" "lastIncludedIndex (follow_commit n c) = lastIncludedIndex n"
  "lastIncludedTerm (follow_commit n c) = lastIncludedTerm n" "peers (follow_commit n c) = peers n"
  "nid (follow_commit n c) = nid n" "selfMember (follow_commit n c) = selfMember n"
  "lastApplied (follow_commit n c) = lastApplied n" "currentTerm (follow_commit n c) = currentTerm n"
  "state (follow_commit n c) = state n" "leaderID (follow_commit n c) = leaderID n"
  "votedFor (follow_commit n c) = votedFor n" "nextIndex (follow_commit n c) = nextIndex n"
  "matchIndex (follow_commit n c) = matchIndex n" "store (follow_commit n c) = store n"
  "membershipConfigured (follow_commit n c) = membershipConfigured n" "snapshot (follow_commit n c) = snapshot n"
  by (simp_all add: follow_commit_def signalCommitReadyLocked_def Let_def)

lemma follow_commit_index:
  "commitIndex (follow_commit n c) = max (commitIndex n) (min c (lastLogIndexLocked n))"
  by (auto simp: follow_commit_def signalCommitReadyLocked_def Let_def max_def min_def)

lemma node_ok_append_node:
  assumes "node_ok n" and "anchored n req" and "respects_commit n req"
  shows "node_ok (append_node n req)"
proof -
  have l: "log_ok n" and i: "index_ok n" using assms(1) by (simp_all add: node_ok_def)
  have l': "log_ok (append_node n req)" by (rule log_ok_append_node [OF l assms(2)])
  have "unat (commitIndex n) - base n \<le> length (appended n (unat (aePrevLogIndex req)) (aeEntries req))"
    using appended_keeps_committed [of req n] assms(2,3) i by (simp add: anchored_def index_ok_def)
  then have "unat (commitIndex n) \<le> log_end (append_node n req)" by (simp add: append_node_def)
  moreover have "lastLogIndexLocked ((follow_node n req)\<lparr>nlog := appended n (unat (aePrevLogIndex req)) (aeEntries req)\<rparr>)
      = lastLogIndexLocked (append_node n req)"
    by (simp add: append_node_def lastLogIndexLocked_def)
  ultimately have "index_ok (append_node n req)"
    using i unat_lastLogIndex [OF l']
    by (auto simp: index_ok_def append_node_def follow_commit_index max_def min_def word_le_nat_alt)
  moreover have "progress_ok (append_node n req)" "membership_ok (append_node n req)"
    using node_ok_follow [OF assms(1), of req]
    by (simp_all add: append_node_def node_ok_def progress_ok_def progress_peers_def membership_ok_def)
  ultimately show ?thesis using l' by (simp add: node_ok_def)
qed

lemma HandleAppendEntries_ok:
  assumes "node_ok n" and "prev_matches n req \<Longrightarrow> anchored n req \<and> respects_commit n req"
  obtains resp err n' where "HandleAppendEntries sv n req = Some (resp, err, n')" "node_ok n'"
proof -
  have l: "log_ok n" using assms(1) by (rule node_okD)
  consider "append_refused n req" | "\<not> append_refused n req" "\<not> prev_matches n req"
    | "\<not> append_refused n req" "prev_matches n req" by blast
  then show ?thesis
  proof cases
    case 1
    then show ?thesis using that assms(1) by (simp add: HandleAppendEntries_refused)
  next
    case 2
    then show ?thesis using that node_ok_follow [OF assms(1)] by (simp add: HandleAppendEntries_mismatch [OF l])
  next
    case 3
    then show ?thesis
      using that node_ok_append_node [OF assms(1)] assms(2) by (simp add: HandleAppendEntries_match [OF l])
  qed
qed

subsection \<open>The leader's operations\<close>

text \<open>Fresh progress maps, before the commit index is reconsidered.\<close>

definition started :: "'s RaftNode \<Rightarrow> 's RaftNode" where
  "started n = n\<lparr>nextIndex := Some (\<lambda>p. if p \<in> set (peers n) then Some (lastLogIndexLocked n + 1) else None),
     matchIndex := Some (\<lambda>p. if p \<in> set (peers n) then Some 0 else None)\<rparr>"

lemma started_frame [simp]:
  "nlog (started n) = nlog n" "lastIncludedIndex (started n) = lastIncludedIndex n"
  "lastIncludedTerm (started n) = lastIncludedTerm n" "nid (started n) = nid n"
  "commitIndex (started n) = commitIndex n" "lastApplied (started n) = lastApplied n"
  "currentTerm (started n) = currentTerm n" "store (started n) = store n" "peers (started n) = peers n"
  "selfMember (started n) = selfMember n" "votedFor (started n) = votedFor n" "state (started n) = state n"
  "leaderID (started n) = leaderID n" "snapshot (started n) = snapshot n"
  "membershipConfigured (started n) = membershipConfigured n"
  by (simp_all add: started_def)

lemma node_ok_started: "node_ok n \<Longrightarrow> node_ok (started (n\<lparr>state := Leader, leaderID := l\<rparr>))"
  by (auto simp: started_def node_ok_def ok_defs dom_def)

lemma initLeaderProgress_eq: "log_ok n \<Longrightarrow> initLeaderProgressLocked n = Some (settled (started n))"
  using advanceCommit_settled [of "started n"]
  by (simp add: initLeaderProgressLocked_def started_def Let_def log_ok_def)

text \<open>There is room for one more entry.\<close>

definition has_room :: "'s RaftNode \<Rightarrow> bool" where
  "has_room n = (log_end n + 2 < 2 ^ 64)"

lemma node_ok_snoc:
  assumes "node_ok n" and "has_room n"
  shows "node_ok (n\<lparr>nlog := nlog n @ [\<lparr>eTerm = t, eIndex = lastLogIndexLocked n + 1, eCommand = c\<rparr>]\<rparr>)"
proof -
  have l: "log_ok n" using assms(1) by (rule node_okD)
  then show ?thesis
    using assms lastLogIndex_eq [OF l]
    by (auto simp: node_ok_def ok_defs has_room_def contiguous_append add.commute add.left_commute)
qed

text \<open>Why \<^verbatim>\<open>AppendLocal\<close> refuses a command, and the log and commit index when it does not.\<close>

definition append_error :: "'s RaftNode \<Rightarrow> bytes \<Rightarrow> GoError option" where
  "append_error n command =
     (case DecodeMembershipChange command of (_, ok, derr) \<Rightarrow>
        if ok \<and> derr \<noteq> None then derr
        else if ok \<and> hasPendingMembershipChangeLocked n then Some ErrMembershipChangePending
        else None)"

definition local_entry :: "'s RaftNode \<Rightarrow> bytes \<Rightarrow> LogEntry" where
  "local_entry n command =
     \<lparr>eTerm = currentTerm n, eIndex = lastLogIndexLocked n + 1, eCommand = command\<rparr>"

definition extended :: "'s RaftNode \<Rightarrow> bytes \<Rightarrow> 's RaftNode" where
  "extended n command =
     settled (n\<lparr>nlog := nlog n @ [local_entry n command]\<rparr>)"

lemma node_ok_extended:
  assumes "node_ok n" and "has_room n"
  shows "node_ok (extended n command)"
  using node_ok_settled [OF node_ok_snoc [OF assms]] by (simp add: extended_def local_entry_def)

lemma AppendLocal_rejected:
  "append_error n command = Some err \<Longrightarrow> AppendLocal sv n command = Some (zeroLogEntry, Some err, n)"
  by (cases "DecodeMembershipChange command" rule: prod_cases3)
    (auto simp: AppendLocal_def append_error_def split: if_splits)

lemma AppendLocal_appends:
  assumes "node_ok n" and "has_room n" and "append_error n command = None"
  shows "AppendLocal sv n command =
    Some (local_entry n command, persist_err sv (extended n command),
          (extended n command)\<lparr>store := persist_store sv (extended n command)\<rparr>)"
proof -
  let ?m = "n\<lparr>nlog := nlog n @ [local_entry n command]\<rparr>"
  have l: "log_ok ?m" using node_ok_snoc [OF assms(1,2)] by (simp add: node_ok_def local_entry_def)
  have x: "(if state ?m = Leader then advanceCommitLocked ?m else Some ?m) = Some (extended n command)"
    using advanceCommit_settled [OF l] by (simp add: extended_def settled_def)
  obtain c ok derr where d: "DecodeMembershipChange command = (c, ok, derr)" by (cases rule: prod_cases3)
  then have "\<not> (ok \<and> derr \<noteq> None)" "\<not> (ok \<and> hasPendingMembershipChangeLocked n)"
    using assms(3) by (auto simp: append_error_def split: if_splits)
  then show ?thesis
    unfolding AppendLocal_def d prod.case Let_def local_entry_def [symmetric] x
    by (simp only: if_False option.case persistLocked_pair prod.case)
qed

lemma AppendLocal_ok:
  assumes "node_ok n" and "has_room n"
  obtains e err n' where "AppendLocal sv n command = Some (e, err, n')" "node_ok n'"
proof (cases "append_error n command")
  case None
  then show ?thesis using that AppendLocal_appends [OF assms] node_ok_extended [OF assms] by simp
next
  case (Some err)
  then show ?thesis using that AppendLocal_rejected [OF Some] assms(1) by blast
qed

lemma RecordReplicationSuccess_ok:
  assumes "node_ok n"
  obtains err n' where "RecordReplicationSuccess n peerID k = Some (err, n')" "node_ok n'"
proof -
  have "progress_ok n" using assms by (rule node_okD)
  then show ?thesis
  proof (cases rule: progress_ok_cases)
    case (leader f g)
    show ?thesis
    proof (cases "f peerID")
      case None
      then show ?thesis using that assms leader by (simp add: RecordReplicationSuccess_def)
    next
      case (Some v)
      let ?m = "n\<lparr>matchIndex := Some (g(peerID \<mapsto> k)), nextIndex := Some (f(peerID \<mapsto> k + 1))\<rparr>"
      have "peerID \<in> set (peers n)" using Some leader by auto
      then have "node_ok ?m" using assms leader by (auto simp: node_ok_def ok_defs)
      then obtain m' where "advanceCommitLocked ?m = Some m'" "node_ok m'" by (rule advanceCommit_ok)
      then show ?thesis using that Some leader by (simp add: RecordReplicationSuccess_def)
    qed
  next
    case other
    then show ?thesis using that assms by (simp add: RecordReplicationSuccess_def)
  qed
qed

lemma RecordReplicationFailure_ok:
  assumes "node_ok n"
  obtains err n' where "RecordReplicationFailure n peerID = Some (err, n')" "node_ok n'"
proof -
  have "progress_ok n" using assms by (rule node_okD)
  then show ?thesis
  proof (cases rule: progress_ok_cases)
    case (leader f g)
    show ?thesis
    proof (cases "f peerID")
      case None
      then show ?thesis using that assms leader by (simp add: RecordReplicationFailure_def)
    next
      case (Some v)
      have "peerID \<in> set (peers n)" using Some leader by auto
      then have "node_ok (n\<lparr>nextIndex := Some (f(peerID \<mapsto> v - 1))\<rparr>)"
        using assms leader by (auto simp: node_ok_def ok_defs)
      then show ?thesis using that Some leader assms
        by (cases "1 < v \<and> \<not> v \<le> lastIncludedIndex n + 1") (auto simp: RecordReplicationFailure_def)
    qed
  next
    case other
    then show ?thesis using that assms by (simp add: RecordReplicationFailure_def)
  qed
qed

subsection \<open>Snapshots\<close>

text \<open>The node whose log up to the last applied position is replaced by a snapshot.\<close>

definition compacted :: "'s RaftNode \<Rightarrow> bytes \<Rightarrow> 's RaftNode" where
  "compacted n snap =
     n\<lparr>nlog := drop (unat (lastApplied n) - base n) (nlog n), lastIncludedIndex := lastApplied n,
       lastIncludedTerm := term_at n (unat (lastApplied n)), snapshot := snap\<rparr>"

lemma Compact_eq:
  assumes "node_ok n"
  shows "Compact sv n snap =
    Some (if lastApplied n \<le> lastIncludedIndex n then (None, n)
          else if term_at n (unat (lastApplied n)) = 0 then (Some (ErrLogInconsistent (lastApplied n) 0), n)
          else persistLocked sv (compacted n snap))"
proof (cases "lastApplied n \<le> lastIncludedIndex n \<or> term_at n (unat (lastApplied n)) = 0")
  case True
  then show ?thesis using assms by (auto simp: Compact_def Let_def logTermAt_eq node_ok_def)
next
  case False
  let ?a = "unat (lastApplied n)"
  have l: "log_ok n" and i: "?a \<le> log_end n"
    using assms by (auto simp: node_ok_def index_ok_def word_le_nat_alt)
  have lt: "base n < ?a" using False by (simp add: word_le_nat_alt)
  have c: "containsLogIndexLocked n (lastApplied n)" using lt i by (simp add: containsLogIndex_iff [OF l])
  have off: "unat (lastApplied n - firstLogIndexLocked n) = ?a - base n - 1"
    using unat_log_offset [OF l] lt i by simp
  have off1: "unat (lastApplied n - firstLogIndexLocked n + 1) = ?a - base n"
    using off lt log_ok_bound [OF l] i unat_plus_one_64 [of "lastApplied n - firstLogIndexLocked n"] by linarith
  have "(if lastApplied n < firstLogIndexLocked n then Some []
         else if lastLogIndexLocked n \<le> lastApplied n then Some []
         else map_option cloneLog (go_slice_from (nlog n) (lastApplied n - firstLogIndexLocked n + 1)))
      = Some (drop (?a - base n) (nlog n))"
    using c off1 i unat_lastLogIndex [OF l]
    by (auto simp: containsLogIndexLocked_def go_slice_from_def word_le_nat_alt word_less_nat_alt)
  then show ?thesis
    using False by (simp add: Compact_def Let_def logTermAt_eq [OF l] compacted_def)
qed

lemma node_ok_compacted:
  assumes "node_ok n"
  shows "node_ok (compacted n snap)"
proof -
  let ?a = "unat (lastApplied n)"
  have l: "log_ok n" and i: "base n \<le> ?a" "?a \<le> unat (commitIndex n)" "unat (commitIndex n) \<le> log_end n"
    using assms by (auto simp: node_ok_def index_ok_def word_le_nat_alt)
  have b: "lastIncludedIndex n + 1 + of_nat (?a - base n) = lastApplied n + 1"
    using i(1) by (simp add: of_nat_diff)
  have "contiguous (lastApplied n + 1) (drop (?a - base n) (nlog n))"
    using contiguous_drop [OF log_ok_contiguous [OF l], of "?a - base n"] i unfolding b by simp
  moreover have "?a + (length (nlog n) - (?a - base n)) = log_end n" using i by simp
  ultimately show ?thesis
    using assms i by (simp add: compacted_def node_ok_def ok_defs)
qed

lemma Compact_ok:
  assumes "node_ok n"
  obtains err n' where "Compact sv n snap = Some (err, n')" "node_ok n'"
proof -
  let ?r = "if lastApplied n \<le> lastIncludedIndex n then (None, n)
    else if term_at n (unat (lastApplied n)) = 0 then (Some (ErrLogInconsistent (lastApplied n) 0), n)
    else persistLocked sv (compacted n snap)"
  have "node_ok (snd ?r)" using assms node_ok_compacted [OF assms, of snap] by simp
  then show ?thesis using that [of "fst ?r" "snd ?r"] Compact_eq [OF assms, of sv snap] by simp
qed

subsection \<open>Membership changes\<close>

text \<open>The new configuration, before the commit index is reconsidered.\<close>

definition reconfigured :: "'s RaftNode \<Rightarrow> MembershipChange \<Rightarrow> 's RaftNode" where
  "reconfigured n change =
     (let n = n\<lparr>membershipConfigured := True\<rparr>; p = mcPeerID change in
      if mcType change = MembershipAddPeer then
        (if p = nid n then n\<lparr>selfMember := True\<rparr>
         else if p \<in> set (peers n) then n
         else n\<lparr>peers := peers n @ [p],
                nextIndex := map_option (\<lambda>f. f(p \<mapsto> lastLogIndexLocked n + 1)) (nextIndex n),
                matchIndex := map_option (\<lambda>f. f(p \<mapsto> 0)) (matchIndex n)\<rparr>)
      else
        (if p = nid n
         then n\<lparr>selfMember := False, state := Follower, leaderID := [], votedFor := [],
                nextIndex := None, matchIndex := None\<rparr>
         else n\<lparr>peers := filter (\<lambda>q. q \<noteq> p) (peers n),
                nextIndex := map_option (\<lambda>f. f(p := None)) (nextIndex n),
                matchIndex := map_option (\<lambda>f. f(p := None)) (matchIndex n)\<rparr>))"

lemma reconfigured_frame [simp]:
  "nlog (reconfigured n c) = nlog n" "lastIncludedIndex (reconfigured n c) = lastIncludedIndex n"
  "lastIncludedTerm (reconfigured n c) = lastIncludedTerm n" "nid (reconfigured n c) = nid n"
  "commitIndex (reconfigured n c) = commitIndex n" "lastApplied (reconfigured n c) = lastApplied n"
  "currentTerm (reconfigured n c) = currentTerm n" "store (reconfigured n c) = store n"
  "snapshot (reconfigured n c) = snapshot n" "membershipConfigured (reconfigured n c)"
  by (simp_all add: reconfigured_def Let_def)

lemma progress_ok_reconfigured:
  assumes "progress_ok n"
  shows "progress_ok (reconfigured n c)"
  using assms
  by (cases rule: progress_ok_cases)
    (auto simp: progress_ok_def progress_peers_def reconfigured_def Let_def)

lemma node_ok_reconfigured:
  assumes "node_ok n"
  shows "node_ok (reconfigured n c)"
proof -
  have "membership_ok (reconfigured n c)"
    using assms by (auto simp: node_ok_def membership_ok_def reconfigured_def Let_def)
  then show ?thesis
    using assms progress_ok_reconfigured [of n c] by (simp add: node_ok_def log_ok_def index_ok_def)
qed

lemma applyMembershipChange_eq:
  assumes "node_ok n" and "ValidateChange change = None"
  shows "applyMembershipChangeLocked n change = Some (None, settled (reconfigured n change))"
proof -
  have l: "log_ok (reconfigured n change)" using node_ok_reconfigured [OF assms(1)] by (rule node_okD)
  have "progress_ok n" using assms(1) by (rule node_okD)
  then have "applyMembershipChangeLocked n change
      = map_option (Pair None) (advanceCommitLocked (reconfigured n change))"
    using assms(2)
    by (cases rule: progress_ok_cases; cases n)
      (auto simp: applyMembershipChangeLocked_def reconfigured_def ValidateChange_None Let_def
        removePeer_filter lastLogIndexLocked_def split: State.split)
  then show ?thesis by (simp add: advanceCommit_settled [OF l])
qed

end
