(* ===== verification/Election.thy ===== *)
theory Election
  imports NodeInv
begin

text \<open>
  Elections: \<^verbatim>\<open>raft/election.go\<close>, the loop of \<^verbatim>\<open>raft/election_timer.go\<close> and the timeouts
  of \<^verbatim>\<open>raft/timing.go\<close>.

  \<^verbatim>\<open>StartElection\<close> does not hold the node's lock while it runs.  It is a sequence of short
  critical sections, each a method that takes the lock, with RPC replies in between, and
  other goroutines may change the node between any two of them.  So a running call is a
  value that says which critical section or reply comes next (\<open>PreVoteRun\<close>, \<open>ElectionRun\<close>),
  and a step function performs that one section on the node as it is by then.  A caller
  that lets nothing else happen in between gets the sequential behaviour by iterating it.

  The step functions give \<^const>\<open>None\<close> for an event the call does not wait for, and for a panic.
\<close>

subsection \<open>Critical sections\<close>

definition isSelfMember :: "'s RaftNode \<Rightarrow> bool" where
  "isSelfMember n = selfMember n"

definition electionSnapshot :: "'s RaftNode \<Rightarrow> uint64 \<times> uint64 \<times> uint64 \<times> string list" where
  "electionSnapshot n =
     (currentTerm n, lastLogIndexLocked n, lastLogTermLocked n, slice_elems (clonePeers (peers n)))"

definition stepDownForHigherTerm ::
  "'s saver \<Rightarrow> 's RaftNode \<Rightarrow> uint64 \<Rightarrow> bool \<times> GoError option \<times> 's RaftNode" where
  "stepDownForHigherTerm sv n term =
     (if term \<le> currentTerm n then (False, None, n)
      else (case persistLocked sv (n\<lparr>currentTerm := term, votedFor := [], state := Follower,
                                     leaderID := [], nextIndex := None, matchIndex := None\<rparr>) of
              (err, n) \<Rightarrow> (True, err, n)))"

definition isCandidateForTerm :: "'s RaftNode \<Rightarrow> uint64 \<Rightarrow> bool" where
  "isCandidateForTerm n term = (state n = Candidate \<and> currentTerm n = term)"

definition promoteCandidate ::
  "'s saver \<Rightarrow> 's RaftNode \<Rightarrow> uint64 \<Rightarrow> (bool \<times> GoError option \<times> 's RaftNode) option" where
  "promoteCandidate sv n term =
     (if state n \<noteq> Candidate \<or> currentTerm n \<noteq> term \<or> \<not> selfMember n then Some (False, None, n)
      else (case initLeaderProgressLocked (n\<lparr>state := Leader, leaderID := nid n\<rparr>) of
              None \<Rightarrow> None
            | Some n \<Rightarrow> (case persistLocked sv n of (err, n) \<Rightarrow> Some (True, err, n))))"

subsection \<open>The pre-vote round\<close>

text \<open>
  \<open>PvCollect votes need waiting\<close>: the requests are out, \<open>votes\<close> are counted, \<open>need\<close> is the
  majority and the peers in \<open>waiting\<close> have not answered.
\<close>

datatype PreVoteRun =
    PvSelf
  | PvSnapshot
  | PvCollect nat nat "string list"
  | PvDone bool "GoError option"

datatype 'r RunEvent =
    Run
  | Reply string "GoError + 'r"
  | Cancel GoError

definition PreVoteElection :: "bool \<Rightarrow> PreVoteRun" where
  "PreVoteElection client =
     (if \<not> client then PvDone False (Some (Errorf ''vote client is nil'' [])) else PvSelf)"

definition pv_wait :: "nat \<Rightarrow> nat \<Rightarrow> string list \<Rightarrow> PreVoteRun" where
  "pv_wait votes need waiting =
     (if waiting = [] then PvDone False None else PvCollect votes need waiting)"

fun pv_step ::
  "'s saver \<Rightarrow> PreVoteResponse RunEvent \<Rightarrow> PreVoteRun \<Rightarrow> 's RaftNode
     \<Rightarrow> (PreVoteRun \<times> 's RaftNode \<times> (string \<times> PreVoteRequest) list) option" where
  "pv_step sv Run PvSelf n =
     Some (if \<not> isSelfMember n then PvDone False None else PvSnapshot, n, [])"
| "pv_step sv Run PvSnapshot n =
     (case electionSnapshot n of (term, lastIndex, lastTerm, ps) \<Rightarrow>
        if 1 \<ge> majority (length ps + 1) then Some (PvDone True None, n, [])
        else Some (pv_wait 1 (majority (length ps + 1)) ps, n,
          map (\<lambda>p. (p, \<lparr>pvTerm = term + 1, pvCandidateID = nid n,
                        pvLastLogIndex = lastIndex, pvLastLogTerm = lastTerm\<rparr>)) ps))"
| "pv_step sv (Cancel err) (PvCollect votes need waiting) n = Some (PvDone False (Some err), n, [])"
| "pv_step sv (Reply p result) (PvCollect votes need waiting) n =
     (if p \<notin> set waiting then None
      else let waiting = remove1 p waiting in
        (case result of
           Inl _ \<Rightarrow> Some (pv_wait votes need waiting, n, [])
         | Inr resp \<Rightarrow>
           (case stepDownForHigherTerm sv n (pvrTerm resp) of (steppedDown, err, n) \<Rightarrow>
              if err \<noteq> None \<or> steppedDown then Some (PvDone False err, n, [])
              else if pvrVoteGranted resp then
                (if votes + 1 \<ge> need then Some (PvDone True None, n, [])
                 else Some (pv_wait (votes + 1) need waiting, n, []))
              else Some (pv_wait votes need waiting, n, []))))"
| "pv_step sv ev r n = None"

subsection \<open>The vote round\<close>

text \<open>
  \<open>ElCheck\<close> is the point between \<^verbatim>\<open>stepDownForHigherTerm\<close> and \<^verbatim>\<open>isCandidateForTerm\<close> for one
  reply; \<open>ElPromote\<close> the call of \<^verbatim>\<open>promoteCandidate\<close>.
\<close>

datatype ElectionRun =
    ElSelf
  | ElPre PreVoteRun
  | ElBecome
  | ElSnapshot
  | ElCollect uint64 nat nat "string list"
  | ElCheck uint64 nat nat "string list" bool
  | ElPromote uint64
  | ElDone bool "GoError option"

datatype ElectionEvent =
    PreEvent "PreVoteResponse RunEvent"
  | VoteEvent "RequestVoteResponse RunEvent"

datatype ElectionRequest =
    PreVoteMsg PreVoteRequest
  | RequestVoteMsg RequestVoteRequest

definition StartElection :: "bool \<Rightarrow> ElectionRun" where
  "StartElection client =
     (if \<not> client then ElDone False (Some (Errorf ''vote client is nil'' [])) else ElSelf)"

text \<open>How \<^verbatim>\<open>StartElection\<close> goes on once \<^verbatim>\<open>PreVoteElection\<close> is at some point, or has returned.\<close>

fun el_pre :: "PreVoteRun \<Rightarrow> ElectionRun" where
  "el_pre (PvDone won err) = (if err \<noteq> None \<or> \<not> won then ElDone False err else ElBecome)"
| "el_pre r = ElPre r"

definition el_wait :: "uint64 \<Rightarrow> nat \<Rightarrow> nat \<Rightarrow> string list \<Rightarrow> ElectionRun" where
  "el_wait term votes need waiting =
     (if waiting = [] then ElDone False None else ElCollect term votes need waiting)"

fun el_step ::
  "'s saver \<Rightarrow> ElectionEvent \<Rightarrow> ElectionRun \<Rightarrow> 's RaftNode
     \<Rightarrow> (ElectionRun \<times> 's RaftNode \<times> (string \<times> ElectionRequest) list) option" where
  "el_step sv (VoteEvent Run) ElSelf n =
     Some (if \<not> isSelfMember n then ElDone False None else el_pre (PreVoteElection True), n, [])"
| "el_step sv (PreEvent ev) (ElPre r) n =
     map_option (\<lambda>(r, n, out). (el_pre r, n, map (\<lambda>(p, req). (p, PreVoteMsg req)) out)) (pv_step sv ev r n)"
| "el_step sv (VoteEvent Run) ElBecome n =
     (case BecomeCandidate sv n of (err, n) \<Rightarrow>
        Some (if err \<noteq> None then ElDone False err else ElSnapshot, n, []))"
| "el_step sv (VoteEvent Run) ElSnapshot n =
     (case electionSnapshot n of (term, lastIndex, lastTerm, ps) \<Rightarrow>
        if 1 \<ge> majority (length ps + 1) then Some (ElPromote term, n, [])
        else Some (el_wait term 1 (majority (length ps + 1)) ps, n,
          map (\<lambda>p. (p, RequestVoteMsg \<lparr>rvTerm = term, rvCandidateID = nid n,
                        rvLastLogIndex = lastIndex, rvLastLogTerm = lastTerm\<rparr>)) ps))"
| "el_step sv (VoteEvent (Cancel err)) (ElCollect term votes need waiting) n =
     Some (ElDone False (Some err), n, [])"
| "el_step sv (VoteEvent (Reply p result)) (ElCollect term votes need waiting) n =
     (if p \<notin> set waiting then None
      else let waiting = remove1 p waiting in
        (case result of
           Inl _ \<Rightarrow> Some (el_wait term votes need waiting, n, [])
         | Inr resp \<Rightarrow>
           (case stepDownForHigherTerm sv n (rvrTerm resp) of (steppedDown, err, n) \<Rightarrow>
              if err \<noteq> None \<or> steppedDown then Some (ElDone False err, n, [])
              else Some (ElCheck term votes need waiting (rvrVoteGranted resp), n, []))))"
| "el_step sv (VoteEvent Run) (ElCheck term votes need waiting granted) n =
     (if \<not> isCandidateForTerm n term then Some (ElDone False None, n, [])
      else if granted then
        (if votes + 1 \<ge> need then Some (ElPromote term, n, [])
         else Some (el_wait term (votes + 1) need waiting, n, []))
      else Some (el_wait term votes need waiting, n, []))"
| "el_step sv (VoteEvent Run) (ElPromote term) n =
     map_option (\<lambda>(won, err, n). (ElDone won err, n, [])) (promoteCandidate sv n term)"
| "el_step sv ev r n = None"

subsection \<open>The election timer\<close>

text \<open>
  Durations are nanoseconds.  A random source is its \<^verbatim>\<open>Int63n\<close>; \<open>seeded now\<close> is the source
  \<^verbatim>\<open>rand.New(rand.NewSource(now))\<close>, which is used when none is given.
\<close>

definition MinElectionTimeout :: int where "MinElectionTimeout = 150 * 1000000"
definition MaxElectionTimeout :: int where "MaxElectionTimeout = 300 * 1000000"
definition DefaultHeartbeatInterval :: int where "DefaultHeartbeatInterval = 50 * 1000000"

definition RandomElectionTimeout :: "(int \<Rightarrow> int \<Rightarrow> int) \<Rightarrow> int \<Rightarrow> (int \<Rightarrow> int) option \<Rightarrow> int" where
  "RandomElectionTimeout seeded now r =
     (let int63n = (case r of None \<Rightarrow> seeded now | Some int63n \<Rightarrow> int63n);
          delta = MaxElectionTimeout - MinElectionTimeout
      in MinElectionTimeout + int63n (delta + 1))"

text \<open>
  The loop of \<^verbatim>\<open>RunElectionTimer\<close>.  \<open>TmFired\<close> is the point between the timer's tick and the
  read of the node's state.
\<close>

datatype TimerRun = TmWait | TmFired | TmElection ElectionRun | TmStopped GoError

datatype TimerEvent = TmCancel GoError | TmReset | TmTick | TmRun | TmEvent ElectionEvent

fun tm_loop :: "ElectionRun \<Rightarrow> TimerRun" where
  "tm_loop (ElDone won None) = TmWait"
| "tm_loop (ElDone won (Some err)) = TmStopped err"
| "tm_loop r = TmElection r"

fun RunElectionTimer ::
  "'s saver \<Rightarrow> bool \<Rightarrow> TimerEvent \<Rightarrow> TimerRun \<Rightarrow> 's RaftNode
     \<Rightarrow> (TimerRun \<times> 's RaftNode \<times> (string \<times> ElectionRequest) list) option" where
  "RunElectionTimer sv client (TmCancel err) TmWait n = Some (TmStopped err, n, [])"
| "RunElectionTimer sv client TmReset TmWait n = Some (TmWait, n, [])"
| "RunElectionTimer sv client TmTick TmWait n = Some (TmFired, n, [])"
| "RunElectionTimer sv client TmRun TmFired n =
     Some (if state n \<noteq> Leader then tm_loop (StartElection client) else TmWait, n, [])"
| "RunElectionTimer sv client (TmEvent ev) (TmElection r) n =
     map_option (\<lambda>(r, n, out). (tm_loop r, n, out)) (el_step sv ev r n)"
| "RunElectionTimer sv client ev r n = None"

end
