(* ===== verification/NodeApply.thy ===== *)
theory NodeApply
  imports NodeInv
begin

text \<open>
  The apply loop of \<^verbatim>\<open>ApplyCommitted\<close>.  The reference is \<open>sm_run\<close>, which feeds a list of
  entries to the state machine in order, passing over membership commands, until one fails.
\<close>

fun sm_run :: "'m applier \<Rightarrow> 'm \<Rightarrow> LogEntry list \<Rightarrow> GoError option \<times> 'm" where
  "sm_run ap m [] = (None, m)"
| "sm_run ap m (e # es) =
     (if is_membership (eCommand e) then sm_run ap m es
      else case ap m e of
             (Some err, m') \<Rightarrow> (Some err, m')
           | (None, m') \<Rightarrow> sm_run ap m' es)"

text \<open>The entries at the positions \<open>(lo, hi]\<close>.\<close>

definition segment :: "'s RaftNode \<Rightarrow> nat \<Rightarrow> nat \<Rightarrow> LogEntry list" where
  "segment n lo hi = take (hi - lo) (drop (lo - base n) (nlog n))"

lemma segment_empty [simp]: "segment n k k = []"
  by (simp add: segment_def)

lemma segment_cong:
  "nlog n' = nlog n \<Longrightarrow> lastIncludedIndex n' = lastIncludedIndex n \<Longrightarrow> segment n' = segment n"
  by (simp add: segment_def fun_eq_iff)

lemma segment_Cons:
  assumes "base n \<le> lo" and "lo < hi" and "hi \<le> log_end n" and "entry_at n (lo + 1) = Some e"
  shows "segment n lo hi = e # segment n (lo + 1) hi"
proof -
  have "lo - base n < length (nlog n)" using assms(1-3) by simp
  moreover have "e = nlog n ! (lo - base n)" using assms by (auto simp: entry_at_def split: if_splits)
  moreover have "lo + 1 - base n = Suc (lo - base n)" "hi - lo = Suc (hi - (lo + 1))"
    using assms(1,2) by simp_all
  ultimately show ?thesis
    by (simp add: segment_def Cons_nth_drop_Suc [symmetric])
qed

lemma nextCommittedEntry_eq:
  assumes "node_ok n"
  shows "nextCommittedEntry n =
    Some (if lastApplied n < commitIndex n then entry_at n (unat (lastApplied n) + 1) else None)"
proof -
  have l: "log_ok n" and i: "lastIncludedIndex n \<le> lastApplied n" "lastApplied n \<le> commitIndex n"
      "unat (commitIndex n) \<le> log_end n"
    using assms by (auto simp: node_ok_def index_ok_def)
  have u: "unat (lastApplied n + 1) = unat (lastApplied n) + 1"
    using i log_ok_bound [OF l] by (intro unat_plus_one_64) (simp add: word_le_nat_alt)
  have c: "lastApplied n + 1 > commitIndex n \<longleftrightarrow> \<not> lastApplied n < commitIndex n"
    using u by (auto simp: word_less_nat_alt)
  show ?thesis
  proof (cases "lastApplied n < commitIndex n")
    case True
    then have "containsLogIndexLocked n (lastApplied n + 1)"
      using i u by (simp add: containsLogIndex_iff [OF l] word_le_nat_alt word_less_nat_alt)
    then show ?thesis
      using True c go_index_log [OF l, of "lastApplied n + 1"] entry_at_contains [OF l, of "lastApplied n + 1"] u
      by (auto simp: nextCommittedEntry_def Let_def)
  next
    case False
    then show ?thesis using c by (simp add: nextCommittedEntry_def Let_def)
  qed
qed

lemma applyCommittedMembershipChange_eq:
  assumes "node_ok n" and "ValidateChange change = None"
  shows "applyCommittedMembershipChange sv n change index =
    Some (persistLocked sv (markApplied (settled (reconfigured n change)) index))"
  using applyMembershipChange_eq [OF assms] by (simp add: applyCommittedMembershipChange_def markApplied_def)

text \<open>
  What one call of \<^verbatim>\<open>ApplyCommitted\<close> did: the entries after the old \<^verbatim>\<open>lastApplied\<close> up to
  the new one went to the state machine, in order and each once; without an error nothing
  committed is left over, and with one the machine holds that prefix, or what the failing
  entry, the next one, made of it.
\<close>

definition apply_run ::
  "'m applier \<Rightarrow> 's RaftNode \<Rightarrow> 'm \<Rightarrow> GoError option \<Rightarrow> 's RaftNode \<Rightarrow> 'm \<Rightarrow> bool" where
  "apply_run ap n m err n' m' =
     (nlog n' = nlog n \<and> lastIncludedIndex n' = lastIncludedIndex n
      \<and> lastApplied n \<le> lastApplied n' \<and> commitIndex n \<le> commitIndex n'
      \<and> (\<exists>m''. sm_run ap m (segment n (unat (lastApplied n)) (unat (lastApplied n'))) = (None, m'')
          \<and> (case err of
               None \<Rightarrow> m' = m'' \<and> lastApplied n' = commitIndex n'
             | Some e \<Rightarrow> m' = m''
                 \<or> (\<exists>entry. entry_at n (unat (lastApplied n') + 1) = Some entry \<and> ap m'' entry = (Some e, m')))))"

lemma apply_run_stop:
  "err \<noteq> None \<or> lastApplied n = commitIndex n \<Longrightarrow> apply_run ap n m err n m"
  by (auto simp: apply_run_def split: option.split)

lemma node_ok_markApplied:
  assumes "node_ok n" and "index \<le> commitIndex n"
  shows "node_ok (markApplied n index)"
  using assms by (auto simp: markApplied_def node_ok_def ok_defs)

lemma markApplied_frame [simp]:
  "nlog (markApplied n i) = nlog n" "lastIncludedIndex (markApplied n i) = lastIncludedIndex n"
  "commitIndex (markApplied n i) = commitIndex n" "lastApplied (markApplied n i) = max i (lastApplied n)"
  by (auto simp: markApplied_def max_def)

lemma settled_commit_mono: "log_ok n \<Longrightarrow> commitIndex n \<le> commitIndex (settled n)"
  using commit_to_best_range [of n] by (auto simp: settled_def word_le_nat_alt)

text \<open>The entry \<open>e\<close> after \<^verbatim>\<open>lastApplied\<close> was applied, or passed over.\<close>

definition one_applied :: "'m applier \<Rightarrow> 's RaftNode \<Rightarrow> 'm \<Rightarrow> LogEntry \<Rightarrow> 's RaftNode \<Rightarrow> 'm \<Rightarrow> bool" where
  "one_applied ap n m e k m1 =
     (node_ok k \<and> nlog k = nlog n \<and> lastIncludedIndex k = lastIncludedIndex n
      \<and> commitIndex n \<le> commitIndex k \<and> lastApplied k = eIndex e \<and> sm_run ap m [e] = (None, m1))"

lemma next_entry:
  assumes "node_ok n" and "lastApplied n < commitIndex n"
  obtains e where "entry_at n (unat (lastApplied n) + 1) = Some e" "nextCommittedEntry n = Some (Some e)"
    "unat (eIndex e) = unat (lastApplied n) + 1" "eIndex e \<le> commitIndex n"
    "max (eIndex e) (lastApplied n) = eIndex e" "unat (eIndex e) \<le> log_end n"
proof -
  let ?k = "unat (lastApplied n) + 1"
  have k: "base n < ?k" "?k \<le> unat (commitIndex n)" "?k \<le> log_end n"
    using assms by (auto simp: node_ok_def index_ok_def word_le_nat_alt word_less_nat_alt)
  then obtain e where e: "entry_at n ?k = Some e" by (simp add: entry_at_def)
  have ei: "unat (eIndex e) = ?k" using entry_at_index [OF node_okD(1) [OF assms(1)] e] .
  show ?thesis
    using that [OF e] nextCommittedEntry_eq [OF assms(1)] assms(2) e ei k
    by (simp add: word_le_nat_alt max_def)
qed

lemma apply_run_step:
  assumes "node_ok n" and "lastApplied n < commitIndex n" and "entry_at n (unat (lastApplied n) + 1) = Some e"
    and "one_applied ap n m e k m1" and "apply_run ap k m1 err n' m'" and "node_ok n'"
  shows "apply_run ap n m err n' m'"
proof -
  have k: "nlog k = nlog n" "lastIncludedIndex k = lastIncludedIndex n" "commitIndex n \<le> commitIndex k"
      "unat (lastApplied k) = unat (lastApplied n) + 1" "sm_run ap m [e] = (None, m1)"
    using assms(4) entry_at_index [OF node_okD(1) [OF assms(1)] assms(3)] by (simp_all add: one_applied_def)
  have le: "base n \<le> unat (lastApplied n)" using assms(1) by (simp add: node_ok_def index_ok_def word_le_nat_alt)
  have r: "nlog n' = nlog n" "lastIncludedIndex n' = lastIncludedIndex n" "lastApplied k \<le> lastApplied n'"
      "commitIndex n \<le> commitIndex n'"
    using k assms(5) by (auto simp: apply_run_def)
  have lt: "unat (lastApplied n) < unat (lastApplied n')" "unat (lastApplied n') \<le> log_end n"
    using r k assms(6) by (auto simp: word_le_nat_alt node_ok_def index_ok_def)
  have "segment n (unat (lastApplied n)) (unat (lastApplied n'))
      = e # segment k (unat (lastApplied k)) (unat (lastApplied n'))"
    using segment_Cons [OF le lt assms(3)] segment_cong [OF k(1,2)] k(4) by simp
  then have "sm_run ap m (segment n (unat (lastApplied n)) (unat (lastApplied n')))
      = sm_run ap m1 (segment k (unat (lastApplied k)) (unat (lastApplied n')))"
    using k(5) by (auto split: if_splits prod.splits option.splits)
  moreover have "entry_at k = entry_at n" using k(1,2) by (simp add: entry_at_def fun_eq_iff)
  ultimately show ?thesis
    using assms(5) r lt by (cases err) (auto simp: apply_run_def word_le_nat_alt)
qed

text \<open>One round of the loop: it stops with an error, or it goes round again past \<open>e\<close>.\<close>

definition round_result ::
  "'s saver \<Rightarrow> 'm applier \<Rightarrow> 's RaftNode \<Rightarrow> 'm \<Rightarrow> LogEntry \<Rightarrow> bool" where
  "round_result sv ap n m e =
     ((\<exists>err n' m'. ApplyCommitted sv ap n m = Some (Some err, n', m') \<and> node_ok n'
         \<and> apply_run ap n m (Some err) n' m')
      \<or> (\<exists>k m1. ApplyCommitted sv ap n m = ApplyCommitted sv ap k m1 \<and> one_applied ap n m e k m1))"

lemma round_change:
  assumes "node_ok n" and "lastApplied n < commitIndex n" and "nextCommittedEntry n = Some (Some e)"
    and "DecodeMembershipChange (eCommand e) = (change, True, None)"
  shows "round_result sv ap n m e"
proof -
  have v: "ValidateChange change = None" using assms(4) by (rule Decode_ok_valid)
  obtain e' where e: "entry_at n (unat (lastApplied n) + 1) = Some e" "eIndex e \<le> commitIndex n"
      "max (eIndex e) (lastApplied n) = eIndex e"
    using next_entry [OF assms(1,2)] assms(3) by (metis option.inject)
  let ?q = "markApplied (settled (reconfigured n change)) (eIndex e)"
  let ?p = "?q\<lparr>store := persist_store sv ?q\<rparr>"
  have c: "commitIndex n \<le> commitIndex (settled (reconfigured n change))"
    using settled_commit_mono [OF node_okD(1) [OF node_ok_reconfigured [OF assms(1)]]] by simp
  then have q: "node_ok ?p"
    using e(2) by (simp add: node_ok_markApplied node_ok_settled node_ok_reconfigured assms(1) order_trans)
  then have one: "one_applied ap n m e ?p m"
    using c e(3) assms(4) by (simp add: one_applied_def is_membership_def)
  have "ApplyCommitted sv ap n m =
      (case persist_err sv ?q of Some err \<Rightarrow> Some (Some err, ?p, m) | None \<Rightarrow> ApplyCommitted sv ap ?p m)"
    using assms(3,4)
    by (subst ApplyCommitted.simps) (simp add: applyCommittedMembershipChange_eq [OF assms(1) v] persistLocked_pair)
  moreover have "apply_run ap n m (Some err) ?p m" for err
    by (rule apply_run_step [OF assms(1,2) e(1) one apply_run_stop q]) simp
  ultimately show ?thesis using q one by (cases "persist_err sv ?q") (auto simp: round_result_def)
qed

lemma round_command:
  assumes "node_ok n" and "lastApplied n < commitIndex n" and "nextCommittedEntry n = Some (Some e)"
    and "\<not> is_membership (eCommand e)"
  shows "round_result sv ap n m e"
proof -
  obtain e' where e: "entry_at n (unat (lastApplied n) + 1) = Some e" "eIndex e \<le> commitIndex n"
      "max (eIndex e) (lastApplied n) = eIndex e"
    using next_entry [OF assms(1,2)] assms(3) by (metis option.inject)
  obtain change derr where d: "DecodeMembershipChange (eCommand e) = (change, False, derr)"
    using assms(4) by (cases "DecodeMembershipChange (eCommand e)" rule: prod_cases3) (simp add: is_membership_def)
  obtain err m1 where a: "ap m e = (err, m1)" by fastforce
  have "ApplyCommitted sv ap n m =
      (case err of Some er \<Rightarrow> Some (Some er, n, m1) | None \<Rightarrow> ApplyCommitted sv ap (markApplied n (eIndex e)) m1)"
    using assms(3) d a by (subst ApplyCommitted.simps) simp
  moreover have "err = None \<Longrightarrow> one_applied ap n m e (markApplied n (eIndex e)) m1"
    using a e assms(1,4) by (simp add: one_applied_def node_ok_markApplied)
  moreover have "err = Some er \<Longrightarrow> apply_run ap n m (Some er) n m1" for er
    using a e by (simp add: apply_run_def)
  ultimately show ?thesis using assms(1) by (cases err) (auto simp: round_result_def)
qed

lemma round_bad_change:
  assumes "node_ok n" and "nextCommittedEntry n = Some (Some e)"
    and "DecodeMembershipChange (eCommand e) = (change, True, Some err)"
  shows "round_result sv ap n m e"
proof -
  have "ApplyCommitted sv ap n m = Some (Some err, n, m)"
    using assms(2,3) by (subst ApplyCommitted.simps) simp
  then show ?thesis using assms(1) apply_run_stop [of "Some err" n ap m] by (simp add: round_result_def)
qed

lemma ApplyCommitted_round:
  assumes "node_ok n" and "lastApplied n < commitIndex n" and "nextCommittedEntry n = Some (Some e)"
  shows "round_result sv ap n m e"
proof -
  obtain change mem derr where d: "DecodeMembershipChange (eCommand e) = (change, mem, derr)"
    by (cases rule: prod_cases3)
  consider "mem" "derr = None" | err where "mem" "derr = Some err" | "\<not> mem" by (cases derr) auto
  then show ?thesis
  proof cases
    case 1
    with d show ?thesis by (intro round_change [OF assms]) simp
  next
    case 2
    with d show ?thesis by (intro round_bad_change [OF assms(1,3)]) simp
  next
    case 3
    with d show ?thesis by (intro round_command [OF assms]) (simp add: is_membership_def)
  qed
qed

lemma ApplyCommitted_runs:
  assumes "node_ok n"
  shows "\<exists>err n' m'. ApplyCommitted sv ap n m = Some (err, n', m') \<and> node_ok n' \<and> apply_run ap n m err n' m'"
  using assms
proof (induction "log_end n - unat (lastApplied n)" arbitrary: n m rule: less_induct)
  case less
  note ok = less.prems
  show ?case
  proof (cases "lastApplied n < commitIndex n")
    case False
    then have "lastApplied n = commitIndex n" using ok by (auto simp: node_ok_def index_ok_def)
    then show ?thesis using ok False
      by (subst ApplyCommitted.simps) (simp add: nextCommittedEntry_eq apply_run_stop)
  next
    case True
    then obtain e where e: "entry_at n (unat (lastApplied n) + 1) = Some e" "nextCommittedEntry n = Some (Some e)"
        "unat (eIndex e) = unat (lastApplied n) + 1" "unat (eIndex e) \<le> log_end n"
      using next_entry [OF ok] by metis
    from ApplyCommitted_round [OF ok True e(2), of sv ap m] show ?thesis
      unfolding round_result_def
    proof (elim disjE exE conjE)
      fix k m1 assume k: "ApplyCommitted sv ap n m = ApplyCommitted sv ap k m1" "one_applied ap n m e k m1"
      then have "log_end k - unat (lastApplied k) < log_end n - unat (lastApplied n)" "node_ok k"
        using e(3,4) by (auto simp: one_applied_def)
      from less.hyps [OF this, of m1] obtain err n' m' where
        r: "ApplyCommitted sv ap k m1 = Some (err, n', m')" "node_ok n'" "apply_run ap k m1 err n' m'" by blast
      then show ?thesis using apply_run_step [OF ok True e(1) k(2)] k(1) by auto
    qed blast
  qed
qed

subsection \<open>What a node asks of its state machine\<close>

lemma sm_run_append:
  "sm_run ap m (xs @ ys) =
     (case sm_run ap m xs of (Some err, m') \<Rightarrow> (Some err, m') | (None, m') \<Rightarrow> sm_run ap m' ys)"
  by (induction xs arbitrary: m) (auto split: prod.split option.split)

text \<open>
  The \<^verbatim>\<open>StateMachine\<close> and \<^verbatim>\<open>SnapshotStateMachine\<close> interfaces of \<^verbatim>\<open>raft/types.go\<close> with the laws the
  node needs: a failed \<^verbatim>\<open>Apply\<close> changes nothing, and restoring the snapshot of a machine
  gives that machine.
\<close>

locale state_machine =
  fixes ap :: "'m applier" and snap :: "'m \<Rightarrow> bytes" and restore :: "'m \<Rightarrow> bytes \<Rightarrow> GoError option \<times> 'm"
    and fresh :: 'm and ok :: "'m \<Rightarrow> bool"
  assumes fresh_ok: "ok fresh"
    and apply_ok: "ok m \<Longrightarrow> ap m e = (err, m') \<Longrightarrow> ok m'"
    and apply_failed: "ok m \<Longrightarrow> ap m e = (Some er, m') \<Longrightarrow> m' = m"
    and restore_snap: "ok m \<Longrightarrow> ok k \<Longrightarrow> restore m (snap k) = (None, k)"
begin

lemma run_ok: "ok m \<Longrightarrow> sm_run ap m es = (err, m') \<Longrightarrow> ok m'"
proof (induction es arbitrary: m)
  case (Cons e es)
  obtain er m1 where "ap m e = (er, m1)" by fastforce
  then show ?case using Cons apply_ok [of m e er m1] by (auto split: if_splits option.splits)
qed auto

text \<open>A machine restored from a snapshot continues like the one the snapshot was taken of.\<close>

lemma recover:
  assumes "sm_run ap fresh xs = (None, m)" and "ok k"
  shows "\<exists>k'. restore k (snap m) = (None, k') \<and> sm_run ap k' ys = sm_run ap fresh (xs @ ys)"
  using assms restore_snap [OF assms(2) run_ok [OF fresh_ok assms(1)]] by (simp add: sm_run_append)

text \<open>Stopping at a failing entry and coming back to it later is the same as one run.\<close>

lemma run_failed_prefix:
  assumes "ok m" and "sm_run ap m es = (Some er, m')"
  obtains xs e ys where "es = xs @ e # ys" "sm_run ap m xs = (None, m')" "ap m' e = (Some er, m')"
  using assms
proof (induction es arbitrary: m thesis)
  case (Cons e es)
  show ?case
  proof (cases "is_membership (eCommand e)")
    case True
    then obtain xs d ys where "es = xs @ d # ys" "sm_run ap m xs = (None, m')" "ap m' d = (Some er, m')"
      using Cons.IH [OF _ Cons.prems(2)] Cons.prems(3) by auto
    then show ?thesis using Cons.prems(1) [of "e # xs" d ys] True by simp
  next
    case False
    obtain er1 m1 where a: "ap m e = (er1, m1)" by fastforce
    show ?thesis
    proof (cases er1)
      case None
      then obtain xs d ys where "es = xs @ d # ys" "sm_run ap m1 xs = (None, m')" "ap m' d = (Some er, m')"
        using Cons.IH [OF _ apply_ok [OF Cons.prems(2) a]] Cons.prems(3) a False by auto
      then show ?thesis using Cons.prems(1) [of "e # xs" d ys] a None False by simp
    next
      case (Some x)
      then have "x = er" "m1 = m'" using Cons.prems(3) a False by auto
      then show ?thesis
        using Cons.prems(1) [of "[]" e es] a Some apply_failed [OF Cons.prems(2)] by auto
    qed
  qed
qed simp

end

end
