(* ===== verification/Replication.thy ===== *)
theory Replication
  imports Election NodeApply
begin

text \<open>
  Replication and proposals: \<^verbatim>\<open>raft/heartbeat.go\<close> and \<^verbatim>\<open>raft/proposal.go\<close>.

  As in the theory of elections, a running call is a value that says which critical section
  or reply comes next, and a step function performs that one section.  Replies are matched
  with the request they answer by the peer's id: a round sends one request to each peer.
\<close>

subsection \<open>Critical sections\<close>

definition missing_progress :: "'s RaftNode \<Rightarrow> bool" where
  "missing_progress n =
     (nextIndex n = None \<or> matchIndex n = None
      \<or> list_ex (\<lambda>p. go_map_get (nextIndex n) p = None \<or> go_map_get (matchIndex n) p = None) (peers n))"

definition ensureLeaderProgress :: "'s RaftNode \<Rightarrow> 's RaftNode option" where
  "ensureLeaderProgress n =
     (if state n \<noteq> Leader then Some n
      else if missing_progress n then initLeaderProgressLocked n
      else Some n)"

definition peerSnapshot :: "'s RaftNode \<Rightarrow> string list" where
  "peerSnapshot n = peers n"

definition isCommitted :: "'s RaftNode \<Rightarrow> uint64 \<Rightarrow> bool" where
  "isCommitted n index = (commitIndex n \<ge> index)"

subsection \<open>One round of replication\<close>

text \<open>
  \<open>RpBuild todo built\<close> builds the requests one peer at a time; \<open>RpCollect\<close> waits for the
  replies to the requests it lists; \<open>RpRecord\<close> is the point between
  \<^verbatim>\<open>stepDownForHigherTerm\<close> and the recording of one reply; \<open>RpStop\<close> the check of
  \<^verbatim>\<open>stopWhenCommitted\<close>.
\<close>

type_synonym append_requests = "(string \<times> AppendEntriesRequest) list"

datatype ReplRun =
    RpEnsure
  | RpPeers
  | RpBuild "string list" append_requests
  | RpCollect append_requests
  | RpRecord string AppendEntriesRequest bool append_requests
  | RpStop append_requests
  | RpDone "GoError option"

definition ReplicateOnce :: ReplRun where
  "ReplicateOnce = RpEnsure"

definition rp_wait :: "append_requests \<Rightarrow> ReplRun" where
  "rp_wait waiting = (if waiting = [] then RpDone None else RpCollect waiting)"

text \<open>The index a peer is known to match once it has accepted a request.\<close>

definition reply_match :: "AppendEntriesRequest \<Rightarrow> uint64" where
  "reply_match req = aePrevLogIndex req + of_nat (length (aeEntries req))"

fun replicateOnce ::
  "'s saver \<Rightarrow> uint64 \<Rightarrow> AppendEntriesResponse RunEvent \<Rightarrow> ReplRun \<Rightarrow> 's RaftNode
     \<Rightarrow> (ReplRun \<times> 's RaftNode \<times> append_requests) option" where
  "replicateOnce sv stop Run RpEnsure n =
     map_option (\<lambda>n. (RpPeers, n, [])) (ensureLeaderProgress n)"
| "replicateOnce sv stop Run RpPeers n =
     Some (if peerSnapshot n = [] then RpDone None else RpBuild (peerSnapshot n) [], n, [])"
| "replicateOnce sv stop (Cancel err) (RpBuild todo built) n = Some (RpDone (Some err), n, [])"
| "replicateOnce sv stop Run (RpBuild (p # todo) built) n =
     (case BuildAppendEntries n p of
        None \<Rightarrow> None
      | Some (Inl err) \<Rightarrow> Some (RpDone (Some err), n, [])
      | Some (Inr req) \<Rightarrow>
        (let built = built @ [(p, req)] in
         if todo = [] then Some (RpCollect built, n, built)
         else Some (RpBuild todo built, n, [])))"
| "replicateOnce sv stop (Cancel err) (RpCollect waiting) n = Some (RpDone (Some err), n, [])"
| "replicateOnce sv stop (Reply p result) (RpCollect waiting) n =
     (case map_of waiting p of
        None \<Rightarrow> None
      | Some req \<Rightarrow>
        (let waiting = remove1 (p, req) waiting in
         case result of
           Inl _ \<Rightarrow> Some (rp_wait waiting, n, [])
         | Inr resp \<Rightarrow>
           (case stepDownForHigherTerm sv n (aerTerm resp) of (steppedDown, err, n) \<Rightarrow>
              if err \<noteq> None \<or> steppedDown then Some (RpDone err, n, [])
              else Some (RpRecord p req (aerSuccess resp) waiting, n, []))))"
| "replicateOnce sv stop Run (RpRecord p req success waiting) n =
     (case (if success then RecordReplicationSuccess n p (reply_match req)
            else RecordReplicationFailure n p) of
        None \<Rightarrow> None
      | Some (Some err, n) \<Rightarrow> Some (RpDone (Some err), n, [])
      | Some (None, n) \<Rightarrow>
        Some (if success \<and> stop > 0 then RpStop waiting else rp_wait waiting, n, []))"
| "replicateOnce sv stop Run (RpStop waiting) n =
     Some (if isCommitted n stop then RpDone None else rp_wait waiting, n, [])"
| "replicateOnce sv stop ev r n = None"

subsection \<open>The heartbeat loop\<close>

definition heartbeat_interval :: "int \<Rightarrow> int" where
  "heartbeat_interval interval = (if interval \<le> 0 then DefaultHeartbeatInterval else interval)"

datatype HeartbeatRun = HbWait | HbTicked | HbRepl ReplRun | HbStopped GoError

datatype HeartbeatEvent = HbTick | HbRun | HbCancel GoError | HbReply "AppendEntriesResponse RunEvent"

definition StartHeartbeatLoop :: "bool \<Rightarrow> HeartbeatRun" where
  "StartHeartbeatLoop client =
     (if \<not> client then HbStopped (Errorf ''append client is nil'' []) else HbWait)"

fun hb_loop :: "ReplRun \<Rightarrow> HeartbeatRun" where
  "hb_loop (RpDone None) = HbWait"
| "hb_loop (RpDone (Some err)) = HbStopped err"
| "hb_loop r = HbRepl r"

fun RunHeartbeatLoop ::
  "'s saver \<Rightarrow> HeartbeatEvent \<Rightarrow> HeartbeatRun \<Rightarrow> 's RaftNode
     \<Rightarrow> (HeartbeatRun \<times> 's RaftNode \<times> append_requests) option" where
  "RunHeartbeatLoop sv (HbCancel err) HbWait n = Some (HbStopped err, n, [])"
| "RunHeartbeatLoop sv HbTick HbWait n = Some (HbTicked, n, [])"
| "RunHeartbeatLoop sv HbRun HbTicked n =
     Some (if state n \<noteq> Leader then HbWait else hb_loop ReplicateOnce, n, [])"
| "RunHeartbeatLoop sv (HbReply ev) (HbRepl r) n =
     map_option (\<lambda>(r, n, out). (hb_loop r, n, out)) (replicateOnce sv 0 ev r n)"
| "RunHeartbeatLoop sv ev r n = None"

subsection \<open>Proposals\<close>

text \<open>
  \<open>PrStart\<close> is the read of the node's role and \<open>PrAppend\<close> the call of \<^verbatim>\<open>AppendLocal\<close>: two
  critical sections, with the lock released in between.
\<close>

datatype ProposeRun =
    PrStart bytes
  | PrAppend bytes
  | PrCommitted LogEntry
  | PrLeader LogEntry
  | PrRepl LogEntry ReplRun
  | PrAgain LogEntry
  | PrWait LogEntry
  | PrDone LogEntry "GoError option"

datatype ProposeEvent = PrRun | PrTimer | PrCancel GoError | PrReply "AppendEntriesResponse RunEvent"

fun pr_loop :: "LogEntry \<Rightarrow> ReplRun \<Rightarrow> ProposeRun" where
  "pr_loop entry (RpDone None) = PrAgain entry"
| "pr_loop entry (RpDone (Some err)) = PrDone entry (Some err)"
| "pr_loop entry r = PrRepl entry r"

definition Propose :: "GoError option \<Rightarrow> bytes \<Rightarrow> ProposeRun" where
  "Propose ctxErr command =
     (case ctxErr of Some err \<Rightarrow> PrDone zeroLogEntry (Some err) | None \<Rightarrow> PrStart command)"

fun ProposeWithRetryInterval ::
  "'s saver \<Rightarrow> bool \<Rightarrow> ProposeEvent \<Rightarrow> ProposeRun \<Rightarrow> 's RaftNode
     \<Rightarrow> (ProposeRun \<times> 's RaftNode \<times> append_requests) option" where
  "ProposeWithRetryInterval sv client PrRun (PrStart command) n =
     Some (if state n \<noteq> Leader then PrDone zeroLogEntry (Some (ErrNotLeader (state n)))
           else PrAppend command, n, [])"
| "ProposeWithRetryInterval sv client PrRun (PrAppend command) n =
     (case AppendLocal sv n command of
        None \<Rightarrow> None
      | Some (entry, Some err, n) \<Rightarrow> Some (PrDone zeroLogEntry (Some err), n, [])
      | Some (entry, None, n) \<Rightarrow> Some (PrCommitted entry, n, []))"
| "ProposeWithRetryInterval sv client PrRun (PrCommitted entry) n =
     Some (if isCommitted n (eIndex entry) then PrDone entry None else PrLeader entry, n, [])"
| "ProposeWithRetryInterval sv client PrRun (PrLeader entry) n =
     Some (if state n \<noteq> Leader then PrDone entry (Some (ErrNotLeader (state n)))
           else if \<not> client then PrDone entry (Some (Errorf ''append client is nil'' []))
           else PrRepl entry RpEnsure, n, [])"
| "ProposeWithRetryInterval sv client (PrReply ev) (PrRepl entry r) n =
     map_option (\<lambda>(r, n, out). (pr_loop entry r, n, out)) (replicateOnce sv (eIndex entry) ev r n)"
| "ProposeWithRetryInterval sv client PrRun (PrAgain entry) n =
     Some (if isCommitted n (eIndex entry) then PrDone entry None else PrWait entry, n, [])"
| "ProposeWithRetryInterval sv client (PrCancel err) (PrWait entry) n = Some (PrDone entry (Some err), n, [])"
| "ProposeWithRetryInterval sv client PrTimer (PrWait entry) n = Some (PrCommitted entry, n, [])"
| "ProposeWithRetryInterval sv client ev r n = None"

end
