(* ===== verification/NodeOps.thy ===== *)
theory NodeOps
  imports Replication
begin

text \<open>
  All the ways the program's goroutines change a node: one operation per critical section
  that writes (the handlers, the steps of an election, of a replication round and of a
  proposal, the apply loop and compaction), and sequences of them in any order.
\<close>

datatype NodeOp =
    OpVote RequestVoteRequest
  | OpAppend AppendEntriesRequest
  | OpCandidate
  | OpStepDown uint64
  | OpPromote uint64
  | OpEnsure
  | OpLocal bytes
  | OpMatched string uint64
  | OpMismatch string
  | OpApplied uint64
  | OpChange MembershipChange uint64
  | OpCompact bytes

fun node_op :: "'s saver \<Rightarrow> NodeOp \<Rightarrow> 's RaftNode \<Rightarrow> 's RaftNode option" where
  "node_op sv (OpVote req) n = Some (snd (snd (RequestVote sv n req)))"
| "node_op sv (OpAppend req) n = map_option (\<lambda>(_, _, n). n) (HandleAppendEntries sv n req)"
| "node_op sv OpCandidate n = Some (snd (BecomeCandidate sv n))"
| "node_op sv (OpStepDown term) n = Some (snd (snd (stepDownForHigherTerm sv n term)))"
| "node_op sv (OpPromote term) n = map_option (\<lambda>(_, _, n). n) (promoteCandidate sv n term)"
| "node_op sv OpEnsure n = ensureLeaderProgress n"
| "node_op sv (OpLocal command) n = map_option (\<lambda>(_, _, n). n) (AppendLocal sv n command)"
| "node_op sv (OpMatched peerID index) n = map_option snd (RecordReplicationSuccess n peerID index)"
| "node_op sv (OpMismatch peerID) n = map_option snd (RecordReplicationFailure n peerID)"
| "node_op sv (OpApplied index) n = Some (markApplied n index)"
| "node_op sv (OpChange change index) n = map_option snd (applyCommittedMembershipChange sv n change index)"
| "node_op sv (OpCompact snap) n = map_option snd (Compact sv n snap)"

text \<open>
  What each operation needs: a request that does not leave a gap and does not contradict a
  committed entry, room for one more entry, a term that can still grow, a membership change
  that passed validation, and an applied index that is committed.
\<close>

fun op_ok :: "'s RaftNode \<Rightarrow> NodeOp \<Rightarrow> bool" where
  "op_ok n (OpAppend req) = (prev_matches n req \<longrightarrow> anchored n req \<and> respects_commit n req)"
| "op_ok n OpCandidate = (unat (currentTerm n) + 1 < 2 ^ 64)"
| "op_ok n (OpLocal command) = has_room n"
| "op_ok n (OpApplied index) = (index \<le> commitIndex n)"
| "op_ok n (OpChange change index) = (ValidateChange change = None \<and> index \<le> commitIndex n)"
| "op_ok n _ = True"

fun run_ops :: "'s saver \<Rightarrow> NodeOp list \<Rightarrow> 's RaftNode \<Rightarrow> 's RaftNode option" where
  "run_ops sv [] n = Some n"
| "run_ops sv (op # ops) n = Option.bind (node_op sv op n) (run_ops sv ops)"

fun ops_ok :: "'s saver \<Rightarrow> NodeOp list \<Rightarrow> 's RaftNode \<Rightarrow> bool" where
  "ops_ok sv [] n = True"
| "ops_ok sv (op # ops) n =
     (op_ok n op \<and> (case node_op sv op n of None \<Rightarrow> True | Some n' \<Rightarrow> ops_ok sv ops n'))"

subsection \<open>Each operation by its effect\<close>

text \<open>A leader that keeps the invariant has all its progress entries.\<close>

lemma ensure_skip:
  assumes "node_ok n"
  shows "ensureLeaderProgress n = Some n"
  using node_okD(2) [OF assms]
proof (cases rule: progress_ok_cases)
  case (leader f g)
  have "f p \<noteq> None \<and> g p \<noteq> None" if "p \<in> set (peers n)" for p
    using that leader by (metis domD option.distinct(1))
  then have "\<not> missing_progress n"
    using leader by (auto simp: missing_progress_def list_ex_iff)
  then show ?thesis by (simp add: ensureLeaderProgress_def)
qed (simp add: ensureLeaderProgress_def)

lemma stepDown_eq:
  "stepDownForHigherTerm sv n t =
     (if t \<le> currentTerm n then (False, None, n)
      else (True, persist_err sv (adopt_term n t), (adopt_term n t)\<lparr>store := persist_store sv (adopt_term n t)\<rparr>))"
  by (cases n) (auto simp: stepDownForHigherTerm_def persistLocked_pair adopt_term_def)

definition promoted :: "'s RaftNode \<Rightarrow> 's RaftNode" where
  "promoted n = settled (started (n\<lparr>state := Leader, leaderID := nid n\<rparr>))"

lemma promoteCandidate_eq:
  assumes "node_ok n"
  shows "promoteCandidate sv n t =
    Some (if state n \<noteq> Candidate \<or> currentTerm n \<noteq> t \<or> \<not> selfMember n then (False, None, n)
          else (True, persist_err sv (promoted n), (promoted n)\<lparr>store := persist_store sv (promoted n)\<rparr>))"
  using initLeaderProgress_eq [of "n\<lparr>state := Leader, leaderID := nid n\<rparr>"] node_okD(1) [OF assms]
  by (simp add: promoteCandidate_def promoted_def persistLocked_pair log_ok_def)

lemma node_ok_promoted: "node_ok n \<Longrightarrow> node_ok (promoted n)"
  by (simp add: promoted_def node_ok_settled node_ok_started)

lemma RecordSuccess_eq:
  assumes "node_ok n"
  shows "RecordReplicationSuccess n p k =
    Some (if state n = Leader \<and> p \<in> set (peers n)
          then (None, settled (n\<lparr>matchIndex := map_option (\<lambda>f. f(p \<mapsto> k)) (matchIndex n),
                                 nextIndex := map_option (\<lambda>f. f(p \<mapsto> k + 1)) (nextIndex n)\<rparr>))
          else (Some (ErrUnknownPeer p), n))"
  using node_okD(2) [OF assms]
proof (cases rule: progress_ok_cases)
  case (leader f g)
  have "log_ok (n\<lparr>matchIndex := Some (g(p \<mapsto> k)), nextIndex := Some (f(p \<mapsto> k + 1))\<rparr>)"
    using node_okD(1) [OF assms] by (simp add: log_ok_def)
  note advanceCommit_settled [OF this]
  moreover have "f p = None \<longleftrightarrow> p \<notin> set (peers n)" using leader by (metis domIff)
  ultimately show ?thesis
    using leader by (cases "f p") (auto simp: RecordReplicationSuccess_def)
qed (simp add: RecordReplicationSuccess_def)

lemma RecordFailure_eq:
  assumes "node_ok n"
  shows "RecordReplicationFailure n p =
    Some (if state n = Leader \<and> p \<in> set (peers n)
          then (None, if NextIndex n p > 1 \<and> \<not> NextIndex n p \<le> lastIncludedIndex n + 1
                      then n\<lparr>nextIndex := map_option (\<lambda>f. f(p \<mapsto> NextIndex n p - 1)) (nextIndex n)\<rparr> else n)
          else (Some (ErrUnknownPeer p), n))"
  using node_okD(2) [OF assms]
proof (cases rule: progress_ok_cases)
  case (leader f g)
  have "f p = None \<longleftrightarrow> p \<notin> set (peers n)" using leader by (metis domIff)
  then show ?thesis
    using leader by (cases "f p") (auto simp: RecordReplicationFailure_def NextIndex_def go_map_read_def)
qed (simp add: RecordReplicationFailure_def)

subsection \<open>No operation panics, and each keeps the invariant\<close>

lemma node_op_ok:
  assumes "node_ok n" and "op_ok n op"
  shows "\<exists>n'. node_op sv op n = Some n' \<and> node_ok n'"
proof (cases op)
  case (OpVote req)
  then show ?thesis using RequestVote_ok [OF assms(1), of sv req] by (cases "RequestVote sv n req") simp
next
  case (OpAppend req)
  then have "prev_matches n req \<Longrightarrow> anchored n req \<and> respects_commit n req" using assms(2) by simp
  then obtain resp err n' where "HandleAppendEntries sv n req = Some (resp, err, n')" "node_ok n'"
    by (rule HandleAppendEntries_ok [OF assms(1)])
  then show ?thesis using OpAppend by simp
next
  case OpCandidate
  then show ?thesis using BecomeCandidate_ok [OF assms(1)] by simp
next
  case (OpStepDown t)
  then show ?thesis using assms(1) node_ok_adopt_term [OF assms(1)] by (simp add: stepDown_eq)
next
  case (OpPromote t)
  then show ?thesis using assms(1) node_ok_promoted [OF assms(1)] by (simp add: promoteCandidate_eq)
next
  case OpEnsure
  then show ?thesis using assms(1) ensure_skip by auto
next
  case (OpLocal c)
  then obtain e err n' where "AppendLocal sv n c = Some (e, err, n')" "node_ok n'"
    using assms(2) by (auto intro: AppendLocal_ok [OF assms(1)])
  then show ?thesis using OpLocal by simp
next
  case (OpMatched p k)
  obtain err n' where "RecordReplicationSuccess n p k = Some (err, n')" "node_ok n'"
    by (rule RecordReplicationSuccess_ok [OF assms(1)])
  then show ?thesis using OpMatched by simp
next
  case (OpMismatch p)
  obtain err n' where "RecordReplicationFailure n p = Some (err, n')" "node_ok n'"
    by (rule RecordReplicationFailure_ok [OF assms(1)])
  then show ?thesis using OpMismatch by simp
next
  case (OpApplied i)
  then show ?thesis using assms node_ok_markApplied by auto
next
  case (OpChange c i)
  have "node_ok (settled (reconfigured n c))" using assms(1) by (simp add: node_ok_settled node_ok_reconfigured)
  moreover have "i \<le> commitIndex (settled (reconfigured n c))"
    using assms OpChange settled_commit_mono [of "reconfigured n c"] node_ok_reconfigured [OF assms(1), of c]
    by (auto simp: node_ok_def)
  ultimately show ?thesis
    using OpChange assms by (simp add: applyCommittedMembershipChange_eq persistLocked_pair node_ok_markApplied)
next
  case (OpCompact snap)
  obtain err n' where "Compact sv n snap = Some (err, n')" "node_ok n'"
    by (rule Compact_ok [OF assms(1)])
  then show ?thesis using OpCompact by simp
qed

lemma run_ops_ok:
  assumes "node_ok n" and "ops_ok sv ops n"
  shows "\<exists>n'. run_ops sv ops n = Some n' \<and> node_ok n'"
  using assms
proof (induction ops arbitrary: n)
  case (Cons op ops)
  then obtain n1 where "node_op sv op n = Some n1" "node_ok n1" using node_op_ok [of n op sv] by auto
  then show ?case using Cons by simp
qed simp

lemma adopt_term_frame [simp]:
  "nid (adopt_term n t) = nid n" "nlog (adopt_term n t) = nlog n" "peers (adopt_term n t) = peers n"
  "lastIncludedIndex (adopt_term n t) = lastIncludedIndex n" "lastIncludedTerm (adopt_term n t) = lastIncludedTerm n"
  "commitIndex (adopt_term n t) = commitIndex n" "lastApplied (adopt_term n t) = lastApplied n"
  "selfMember (adopt_term n t) = selfMember n" "membershipConfigured (adopt_term n t) = membershipConfigured n"
  "store (adopt_term n t) = store n" "snapshot (adopt_term n t) = snapshot n"
  "currentTerm (adopt_term n t) = max t (currentTerm n)"
  by (auto simp: adopt_term_def max_def)

lemma RequestVote_node:
  "snd (snd (RequestVote sv n req)) = n
   \<or> snd (snd (RequestVote sv n req)) = (vote_node n req)\<lparr>store := persist_store sv (vote_node n req)\<rparr>
     \<and> currentTerm n \<le> rvTerm req"
  by (cases "vote_refused n req") (auto simp: RequestVote_refused RequestVote_considered vote_refused_def)

lemma HandleAppendEntries_node:
  assumes "log_ok n" and "prev_matches n req \<longrightarrow> anchored n req" and "HandleAppendEntries sv n req = Some (resp, err, n')"
  obtains (same) "append_refused n req" "n' = n"
    | (follow) s where "\<not> append_refused n req" "\<not> prev_matches n req" "n' = (follow_node n req)\<lparr>store := s\<rparr>"
    | (append) s where "\<not> append_refused n req" "prev_matches n req" "n' = (append_node n req)\<lparr>store := s\<rparr>"
proof -
  consider "append_refused n req" | "\<not> append_refused n req" "\<not> prev_matches n req"
    | "\<not> append_refused n req" "prev_matches n req" by blast
  then show ?thesis
  proof cases
    case 1
    have "n' = n" using assms(3) unfolding HandleAppendEntries_refused [OF 1] by simp
    then show ?thesis by (rule same [OF 1])
  next
    case 2
    let ?m = "follow_node n req"
    have "n' = ?m\<lparr>store := (if aeTerm req > currentTerm n then persist_store sv ?m else store ?m)\<rparr>"
      using assms(3) unfolding HandleAppendEntries_mismatch [OF assms(1) 2] by auto
    then show ?thesis by (rule follow [OF 2])
  next
    case 3
    let ?m = "append_node n req"
    have "n' = ?m\<lparr>store := (if append_changes n req then persist_store sv ?m else store ?m)\<rparr>"
      using assms(3) unfolding HandleAppendEntries_match [OF assms(1) 3 mp [OF assms(2) 3(2)]] by auto
    then show ?thesis by (rule append [OF 3])
  qed
qed

subsection \<open>The node after an operation\<close>

text \<open>Up to what became of the store, which only saving touches.\<close>

fun effect :: "NodeOp \<Rightarrow> 's RaftNode \<Rightarrow> 's RaftNode \<Rightarrow> bool" where
  "effect (OpVote req) n m = (m = n \<or> currentTerm n \<le> rvTerm req \<and> m = vote_node n req)"
| "effect (OpAppend req) n m =
     (m = n \<or> currentTerm n \<le> aeTerm req \<and> (m = follow_node n req \<or> prev_matches n req \<and> m = append_node n req))"
| "effect OpCandidate n m =
     (m = n\<lparr>state := Candidate, leaderID := [], nextIndex := None, matchIndex := None,
            currentTerm := currentTerm n + 1, votedFor := nid n\<rparr>)"
| "effect (OpStepDown term) n m = (m = adopt_term n term)"
| "effect (OpPromote term) n m =
     (m = n \<or> state n = Candidate \<and> currentTerm n = term \<and> selfMember n \<and> m = promoted n)"
| "effect OpEnsure n m = (m = n)"
| "effect (OpLocal command) n m = (m = n \<or> append_error n command = None \<and> m = extended n command)"
| "effect (OpMatched p k) n m =
     (m = n \<or> m = settled (n\<lparr>matchIndex := map_option (\<lambda>f. f(p \<mapsto> k)) (matchIndex n),
                               nextIndex := map_option (\<lambda>f. f(p \<mapsto> k + 1)) (nextIndex n)\<rparr>))"
| "effect (OpMismatch p) n m = (\<exists>f. m = n\<lparr>nextIndex := f\<rparr>)"
| "effect (OpApplied index) n m = (m = markApplied n index)"
| "effect (OpChange change index) n m = (m = markApplied (settled (reconfigured n change)) index)"
| "effect (OpCompact snap) n m = (m = n \<or> lastIncludedIndex n < lastApplied n \<and> m = compacted n snap)"

lemma effect_same: "effect op n m \<Longrightarrow> \<exists>s k. m = k\<lparr>store := s\<rparr> \<and> effect op n k"
  by (rule exI [of _ "store m"], rule exI [of _ m]) simp

lemma effect_stored: "n' = m\<lparr>store := s\<rparr> \<Longrightarrow> effect op n m \<Longrightarrow> \<exists>s m. n' = m\<lparr>store := s\<rparr> \<and> effect op n m"
  by (rule exI, rule exI, rule conjI)

lemma node_op_effect:
  assumes "node_ok n" and "op_ok n op" and "node_op sv op n = Some n'"
  shows "\<exists>s m. n' = m\<lparr>store := s\<rparr> \<and> effect op n m"
proof (cases op)
  case (OpVote req)
  from RequestVote_node [of sv n req] show ?thesis
  proof
    assume "snd (snd (RequestVote sv n req)) = n"
    then have "effect op n n'" using assms(3) OpVote by simp
    then show ?thesis by (rule effect_same)
  next
    assume r: "snd (snd (RequestVote sv n req)) = (vote_node n req)\<lparr>store := persist_store sv (vote_node n req)\<rparr>
      \<and> currentTerm n \<le> rvTerm req"
    show ?thesis by (rule effect_stored [where m = "vote_node n req"]) (use r assms(3) OpVote in auto)
  qed
next
  case (OpAppend req)
  then obtain resp err where h: "HandleAppendEntries sv n req = Some (resp, err, n')" using assms(3) by auto
  have "prev_matches n req \<longrightarrow> anchored n req" using assms(2) OpAppend by simp
  from node_okD(1) [OF assms(1)] this h show ?thesis
  proof (cases rule: HandleAppendEntries_node)
    case same
    then have "effect op n n'" using OpAppend by simp
    then show ?thesis by (rule effect_same)
  next
    case (follow s)
    then have "effect op n (follow_node n req)" using OpAppend by (simp add: append_refused_def not_less)
    then show ?thesis by (rule effect_stored [OF follow(3)])
  next
    case (append s)
    then have "effect op n (append_node n req)" using OpAppend by (simp add: append_refused_def not_less)
    then show ?thesis by (rule effect_stored [OF append(3)])
  qed
next
  case OpCandidate
  let ?m = "n\<lparr>state := Candidate, leaderID := [], nextIndex := None, matchIndex := None,
    currentTerm := currentTerm n + 1, votedFor := nid n\<rparr>"
  have "n' = ?m\<lparr>store := persist_store sv ?m\<rparr>"
    using assms(3) OpCandidate by (simp add: BecomeCandidate_def persistLocked_pair)
  then show ?thesis by (rule effect_stored) (simp add: OpCandidate)
next
  case (OpStepDown t)
  let ?m = "adopt_term n t"
  have "n' = ?m\<lparr>store := if t \<le> currentTerm n then store n else persist_store sv ?m\<rparr>"
    using assms(3) OpStepDown by (auto simp: stepDown_eq adopt_term_def)
  then show ?thesis by (rule effect_stored) (simp add: OpStepDown)
next
  case (OpPromote t)
  show ?thesis
  proof (cases "state n = Candidate \<and> currentTerm n = t \<and> selfMember n")
    case True
    then have "n' = (promoted n)\<lparr>store := persist_store sv (promoted n)\<rparr>"
      using assms OpPromote by (auto simp: promoteCandidate_eq)
    then show ?thesis by (rule effect_stored) (use True OpPromote in simp)
  next
    case False
    then have "effect op n n'" using assms OpPromote by (simp add: promoteCandidate_eq)
    then show ?thesis by (rule effect_same)
  qed
next
  case OpEnsure
  then have "effect op n n'" using assms by (simp add: ensure_skip)
  then show ?thesis by (rule effect_same)
next
  case (OpLocal c)
  show ?thesis
  proof (cases "append_error n c")
    case None
    then have "n' = (extended n c)\<lparr>store := persist_store sv (extended n c)\<rparr>"
      using assms OpLocal AppendLocal_appends [of n c sv] by simp
    then show ?thesis by (rule effect_stored) (simp add: OpLocal None)
  next
    case (Some err)
    then have "effect op n n'" using assms OpLocal AppendLocal_rejected [OF Some, of sv] by simp
    then show ?thesis by (rule effect_same)
  qed
next
  case (OpMatched p k)
  then have "effect op n n'" using assms by (auto simp: RecordSuccess_eq split: if_splits)
  then show ?thesis by (rule effect_same)
next
  case (OpMismatch p)
  have "n' = n \<or> (\<exists>f. n' = n\<lparr>nextIndex := f\<rparr>)"
    using assms OpMismatch by (auto simp: RecordFailure_eq split: if_splits)
  then have "effect op n n'"
    using OpMismatch exI [of "\<lambda>f. n' = n\<lparr>nextIndex := f\<rparr>" "nextIndex n"] by auto
  then show ?thesis by (rule effect_same)
next
  case (OpApplied i)
  then have "effect op n n'" using assms by simp
  then show ?thesis by (rule effect_same)
next
  case (OpChange c i)
  let ?m = "markApplied (settled (reconfigured n c)) i"
  have "n' = ?m\<lparr>store := persist_store sv ?m\<rparr>"
    using assms OpChange by (simp add: applyCommittedMembershipChange_eq persistLocked_pair)
  then show ?thesis by (rule effect_stored) (simp add: OpChange)
next
  case (OpCompact snap)
  show ?thesis
  proof (cases "lastApplied n \<le> lastIncludedIndex n \<or> term_at n (unat (lastApplied n)) = 0")
    case True
    then have "effect op n n'" using assms OpCompact by (auto simp: Compact_eq)
    then show ?thesis by (rule effect_same)
  next
    case False
    then have "n' = (compacted n snap)\<lparr>store := persist_store sv (compacted n snap)\<rparr>"
      using assms OpCompact by (auto simp: Compact_eq persistLocked_pair)
    then show ?thesis by (rule effect_stored) (use False OpCompact in auto)
  qed
qed

subsection \<open>What sequences of operations keep\<close>

text \<open>
  The contract of an order on nodes that every allowed operation respects; then every
  sequence of allowed operations does.
\<close>

locale op_order =
  fixes le :: "'s RaftNode \<Rightarrow> 's RaftNode \<Rightarrow> bool" and sv :: "'s saver" and allowed :: "string \<Rightarrow> NodeOp \<Rightarrow> bool"
  assumes le_refl: "le n n"
    and le_trans: "le n1 n2 \<Longrightarrow> le n2 n3 \<Longrightarrow> le n1 n3"
    and le_nid: "le n1 n2 \<Longrightarrow> nid n2 = nid n1"
    and le_op: "node_ok n \<Longrightarrow> op_ok n op \<Longrightarrow> allowed (nid n) op \<Longrightarrow> node_op sv op n = Some n' \<Longrightarrow> le n n'"
begin

lemma run_le:
  assumes "node_ok n" and "ops_ok sv ops n" and "list_all (allowed (nid n)) ops" and "run_ops sv ops n = Some n'"
  shows "le n n'"
  using assms
proof (induction ops arbitrary: n)
  case (Cons op ops)
  then obtain n1 where n1: "node_op sv op n = Some n1" "node_ok n1" using node_op_ok [of n op sv] by auto
  then have "le n n1" using Cons.prems by (auto intro: le_op)
  moreover have "le n1 n'" using Cons n1 le_nid [OF \<open>le n n1\<close>] by simp
  ultimately show ?case by (rule le_trans)
qed (simp add: le_refl)

end

subsubsection \<open>Terms and votes\<close>

definition vote_kept :: "'s RaftNode \<Rightarrow> 's RaftNode \<Rightarrow> bool" where
  "vote_kept n n' =
     (nid n' = nid n \<and> currentTerm n \<le> currentTerm n'
      \<and> (currentTerm n' = currentTerm n \<and> votedFor n \<noteq> [] \<longrightarrow> votedFor n' = votedFor n))"

text \<open>Everything but the change that removes the node itself, which forgets its vote.\<close>

fun keeps_self :: "string \<Rightarrow> NodeOp \<Rightarrow> bool" where
  "keeps_self i (OpChange change index) = (mcType change = MembershipAddPeer \<or> mcPeerID change \<noteq> i)"
| "keeps_self i op = True"

lemma vote_kept_frame:
  "nid n' = nid n \<Longrightarrow> currentTerm n' = currentTerm n \<Longrightarrow> votedFor n' = votedFor n \<Longrightarrow> vote_kept n n'"
  by (simp add: vote_kept_def)

lemma vote_kept_adopt: "vote_kept n (adopt_term n t)"
  by (auto simp: vote_kept_def adopt_term_def)

lemma vote_kept_store [simp]: "vote_kept n (m\<lparr>store := s\<rparr>) = vote_kept n m"
  by (simp add: vote_kept_def)

lemma effect_vote_kept:
  assumes "op_ok n op" and "keeps_self (nid n) op" and "effect op n m"
  shows "vote_kept n m"
proof (cases op)
  case (OpVote req)
  then show ?thesis using assms(3)
    by (auto simp: vote_kept_def vote_node_def vote_granted_def adopt_term_def Let_def split: if_splits)
next
  case OpCandidate
  then have "unat (currentTerm n + 1) = unat (currentTerm n) + 1"
    using assms(1) by (intro unat_plus_one_64) simp
  then show ?thesis using assms(3) OpCandidate by (auto simp: vote_kept_def word_le_nat_alt)
next
  case (OpStepDown t)
  then show ?thesis using assms(3) vote_kept_adopt by simp
next
  case (OpChange c i)
  then have "votedFor (reconfigured n c) = votedFor n" using assms(2)
    by (auto simp: reconfigured_def Let_def)
  then show ?thesis using assms(3) OpChange by (simp add: vote_kept_def markApplied_def)
qed (use assms(3) in \<open>auto simp: vote_kept_def follow_node_def append_node_def promoted_def extended_def
    markApplied_def compacted_def\<close>)

interpretation votes: op_order vote_kept sv keeps_self for sv :: "'s saver"
proof
  fix n op and n' :: "'s RaftNode"
  assume op: "node_ok n" "op_ok n op" "keeps_self (nid n) op" "node_op sv op n = Some n'"
  then obtain s m where "n' = m\<lparr>store := s\<rparr>" "effect op n m" using node_op_effect by blast
  then show "vote_kept n n'" using effect_vote_kept op(2,3) by simp
qed (auto simp: vote_kept_def)

subsubsection \<open>Committed entries\<close>

definition commit_kept :: "'s RaftNode \<Rightarrow> 's RaftNode \<Rightarrow> bool" where
  "commit_kept n n' =
     (nid n' = nid n \<and> commitIndex n \<le> commitIndex n' \<and> lastApplied n \<le> lastApplied n'
      \<and> lastIncludedIndex n \<le> lastIncludedIndex n'
      \<and> (\<forall>k. base n' < k \<and> k \<le> unat (commitIndex n) \<longrightarrow> entry_at n' k = entry_at n k))"

lemma commit_kept_store [simp]: "commit_kept n (m\<lparr>store := s\<rparr>) = commit_kept n m"
  by (simp add: commit_kept_def entry_at_def)

text \<open>Operations that leave the log alone.\<close>

lemma commit_kept_frame:
  "nid n' = nid n \<Longrightarrow> nlog n' = nlog n \<Longrightarrow> lastIncludedIndex n' = lastIncludedIndex n \<Longrightarrow>
     commitIndex n \<le> commitIndex n' \<Longrightarrow> lastApplied n \<le> lastApplied n' \<Longrightarrow> commit_kept n n'"
  by (simp add: commit_kept_def entry_at_def)

lemma entry_at_cong:
  "nlog n' = nlog n \<Longrightarrow> lastIncludedIndex n' = lastIncludedIndex n \<Longrightarrow> entry_at n' = entry_at n"
  by (simp add: entry_at_def fun_eq_iff)

lemma commit_kept_settled: "log_ok n \<Longrightarrow> commit_kept k n \<Longrightarrow> commit_kept k (settled n)"
  using settled_commit_mono [of n] entry_at_cong [of "settled n" n] by (auto simp: commit_kept_def)

lemma commit_kept_append:
  assumes "node_ok n" and "anchored n req" and "respects_commit n req"
  shows "commit_kept n (append_node n req)"
proof -
  let ?c = "unat (commitIndex n) - base n" and ?m = "append_node n req"
  have "take ?c (nlog ?m) = take ?c (nlog n) \<and> ?c \<le> length (nlog ?m)"
    using appended_keeps_committed [of req n] assms
    by (simp add: append_node_def anchored_def node_ok_def index_ok_def)
  moreover have "unat (commitIndex n) \<le> log_end n" using assms(1) by (simp add: node_ok_def index_ok_def)
  ultimately have "entry_at ?m k = entry_at n k" if "base n < k" "k \<le> unat (commitIndex n)" for k
    using that by (auto simp: entry_at_def append_node_def dest!: arg_cong [where f = "\<lambda>xs. xs ! (k - base n - 1)"])
  moreover have "commitIndex n \<le> commitIndex ?m" by (simp add: append_node_def follow_commit_index)
  ultimately show ?thesis by (simp add: commit_kept_def append_node_def)
qed

lemma commit_kept_extended:
  assumes "node_ok n" and "has_room n"
  shows "commit_kept n (extended n c)"
proof -
  let ?m = "n\<lparr>nlog := nlog n @ [local_entry n c]\<rparr>"
  have "node_ok ?m" using node_ok_snoc [OF assms] by (simp add: local_entry_def)
  moreover have "commit_kept n ?m"
    using assms(1) by (auto simp: commit_kept_def entry_at_def nth_append node_ok_def index_ok_def)
  ultimately show ?thesis by (simp add: extended_def commit_kept_settled node_ok_def)
qed

lemma compacted_view:
  assumes "node_ok n" and "lastIncludedIndex n < lastApplied n"
  shows "log_end (compacted n snap) = log_end n"
    and "unat (lastApplied n) < k \<Longrightarrow> entry_at (compacted n snap) k = entry_at n k"
    and "unat (lastApplied n) \<le> k \<Longrightarrow> term_at (compacted n snap) k = term_at n k"
proof -
  have i: "base n < unat (lastApplied n)" "unat (lastApplied n) \<le> log_end n"
    using assms by (auto simp: node_ok_def index_ok_def word_le_nat_alt word_less_nat_alt)
  show "log_end (compacted n snap) = log_end n" using i by (simp add: compacted_def)
  show e: "entry_at (compacted n snap) k = entry_at n k" if "unat (lastApplied n) < k" for k
  proof -
    have "unat (lastApplied n) - base n + (k - unat (lastApplied n) - 1) = k - base n - 1"
      using i that by simp
    then show ?thesis using i that by (auto simp: entry_at_def compacted_def)
  qed
  show "term_at (compacted n snap) k = term_at n k" if "unat (lastApplied n) \<le> k"
  proof (cases "k = unat (lastApplied n)")
    case True
    then show ?thesis using i by (simp add: term_at_def [of "compacted n snap"]) (simp add: compacted_def)
  next
    case False
    then show ?thesis using e [of k] i that by (simp add: term_at_def) (simp add: compacted_def)
  qed
qed

lemma commit_kept_compacted:
  assumes "node_ok n" and "lastIncludedIndex n < lastApplied n"
  shows "commit_kept n (compacted n snap)"
  using assms compacted_view(2) [OF assms, of _ snap] by (auto simp: commit_kept_def) (auto simp: compacted_def)

lemma effect_commit_kept:
  assumes "node_ok n" and "op_ok n op" and "effect op n m"
  shows "commit_kept n m"
proof (cases op)
  case (OpVote req)
  then show ?thesis using assms(3) by (auto simp: vote_node_def Let_def intro!: commit_kept_frame)
next
  case (OpAppend req)
  then consider "m = n \<or> m = follow_node n req" | "prev_matches n req" "m = append_node n req"
    using assms(3) by auto
  then show ?thesis
  proof cases
    case 1
    then show ?thesis by (auto intro!: commit_kept_frame)
  next
    case 2
    then show ?thesis using commit_kept_append [OF assms(1)] assms(2) OpAppend by simp
  qed
next
  case (OpPromote t)
  then show ?thesis using assms node_ok_started [OF assms(1), of "nid n"]
    by (auto simp: promoted_def node_ok_def intro!: commit_kept_settled commit_kept_frame)
next
  case (OpLocal c)
  then show ?thesis using assms(2,3) commit_kept_extended [OF assms(1), of c]
    by (auto intro: commit_kept_frame)
next
  case (OpMatched p k)
  then show ?thesis using assms(1,3)
    by (auto simp: node_ok_def log_ok_def intro!: commit_kept_settled commit_kept_frame)
next
  case (OpChange c i)
  then show ?thesis using assms(3) settled_commit_mono [of "reconfigured n c"] node_ok_reconfigured [OF assms(1), of c]
    by (auto simp: markApplied_def node_ok_def intro!: commit_kept_frame)
next
  case (OpCompact snap)
  then show ?thesis using assms(3) commit_kept_compacted [OF assms(1), of snap] by (auto intro: commit_kept_frame)
qed (use assms(3) in \<open>auto simp: markApplied_def intro!: commit_kept_frame\<close>)

interpretation commits: op_order commit_kept sv "\<lambda>_ _. True" for sv :: "'s saver"
proof
  fix n op and n' :: "'s RaftNode"
  assume op: "node_ok n" "op_ok n op" "node_op sv op n = Some n'"
  then obtain s m where "n' = m\<lparr>store := s\<rparr>" "effect op n m" using node_op_effect by blast
  then show "commit_kept n n'" using effect_commit_kept op(1,2) by simp
next
  fix n1 n2 n3 :: "'s RaftNode"
  assume "commit_kept n1 n2" "commit_kept n2 n3"
  then show "commit_kept n1 n3"
    by (auto simp: commit_kept_def word_le_nat_alt)
qed (auto simp: commit_kept_def)

end
