(* ===== verification/JsonUtf8.thy ===== *)
theory JsonUtf8
  imports Json
begin

text \<open>
  Every string that \<^verbatim>\<open>json.Unmarshal\<close> produces is valid UTF-8: runes of the text are copied
  whole, escapes are encoded runes, and bytes that start no valid encoding are replaced.
\<close>

definition rune :: "string \<Rightarrow> bool" where
  "rune p = (rune_size p = Some (length p))"

lemma valid_rune_append:
  assumes "rune p"
  shows "valid_utf8 (p @ t) = valid_utf8 t"
proof -
  have "rune_size (p @ t) = Some (length p)" using rune_size_append [of p "length p" t] assms by (simp add: rune_def)
  moreover have "p \<noteq> []" using assms rune_size_bounds [of p] by (auto simp: rune_def)
  ultimately show ?thesis by (simp add: valid_utf8.simps [of "p @ t"])
qed

lemma rune_take: "rune_size s = Some k \<Longrightarrow> rune (take k s)"
  using rune_size_append [of s k "[]"] rune_size_bounds [of s k] by (simp add: rune_def)

lemma rune_ascii: "byte_of c < 128 \<Longrightarrow> rune [c]"
  by (simp add: rune_def rune_size_def in_range_def)

lemma rune_error_rune: "rune rune_error"
  by (simp add: rune_def rune_error_def rune_size_def in_range_def byte_of_chr)

lemma base_64_digits: "(r :: nat) = 4096 * (r div 4096) + 64 * (r div 64 mod 64) + r mod 64"
proof -
  have "r div 64 = 64 * (r div 4096) + r div 64 mod 64"
    using div_mult_mod_eq [of "r div 64" 64] by (simp add: div_mult2_eq [of r 64 64, simplified, symmetric])
  moreover have "r = 64 * (r div 64) + r mod 64" by simp
  ultimately show ?thesis by linarith
qed

lemma rune_two_bytes:
  "2 \<le> a \<Longrightarrow> a < 32 \<Longrightarrow> b < 64 \<Longrightarrow> rune (map chr_of [192 + a, 128 + b])"
  by (simp add: rune_def rune_size_def in_range_def byte_of_chr)

lemma rune_three_bytes:
  "a < 16 \<Longrightarrow> b < 64 \<Longrightarrow> c < 64 \<Longrightarrow> a = 0 \<longrightarrow> 32 \<le> b \<Longrightarrow> a = 13 \<longrightarrow> b \<le> 31 \<Longrightarrow>
     rune (map chr_of [224 + a, 128 + b, 128 + c])"
  by (simp add: rune_def rune_size_def in_range_def byte_of_chr)

lemma rune_four_bytes:
  "a < 5 \<Longrightarrow> b < 64 \<Longrightarrow> c < 64 \<Longrightarrow> d < 64 \<Longrightarrow> a = 0 \<longrightarrow> 16 \<le> b \<Longrightarrow> a = 4 \<longrightarrow> b \<le> 15 \<Longrightarrow>
     rune (map chr_of [240 + a, 128 + b, 128 + c, 128 + d])"
  by (simp add: rune_def rune_size_def in_range_def byte_of_chr)

lemma rune_encode_rune: "rune (encode_rune r)"
proof -
  define q where "q = (if 55296 \<le> r \<and> r \<le> 57343 \<or> 1114111 < r then 65533 else r)"
  have q: "\<not> (55296 \<le> q \<and> q \<le> 57343)" "q \<le> 1114111" by (auto simp: q_def)
  have d: "q = 4096 * (q div 4096) + 64 * (q div 64 mod 64) + q mod 64" "q div 64 mod 64 < 64" "q mod 64 < 64"
    by (rule base_64_digits) simp_all
  consider "q \<le> 127" | "127 < q" "q \<le> 2047" | "2047 < q" "q \<le> 65535" | "65535 < q" by linarith
  then show ?thesis
  proof cases
    case 1
    then show ?thesis by (simp add: encode_rune_def q_def [symmetric] Let_def rune_ascii byte_of_chr)
  next
    case 2
    have "rune (map chr_of [192 + q div 64, 128 + q mod 64])" by (rule rune_two_bytes) (use 2 in auto)
    with 2 show ?thesis by (simp add: encode_rune_def q_def [symmetric] Let_def)
  next
    case 3
    have "rune (map chr_of [224 + q div 4096, 128 + q div 64 mod 64, 128 + q mod 64])"
      by (rule rune_three_bytes) (use 3 d q(1) in linarith)+
    with 3 show ?thesis by (simp add: encode_rune_def q_def [symmetric] Let_def)
  next
    case 4
    have e: "q div 4096 = 64 * (q div 262144) + q div 4096 mod 64" "q div 4096 mod 64 < 64"
      using div_mult_mod_eq [of "q div 4096" 64] by (simp_all add: div_mult2_eq [of q 4096 64, simplified, symmetric])
    have "rune (map chr_of [240 + q div 262144, 128 + q div 4096 mod 64, 128 + q div 64 mod 64, 128 + q mod 64])"
      by (rule rune_four_bytes) (use 4 d e q(2) in linarith)+
    with 4 show ?thesis by (simp add: encode_rune_def q_def [symmetric] Let_def)
  qed
qed

lemma unquote_u_rune: "unquote_u s = Some (out, k) \<Longrightarrow> rune out"
  by (auto simp: unquote_u_def rune_encode_rune rune_error_rune split: option.splits if_splits)

lemma unescape_rune: "unescape c = Some d \<Longrightarrow> rune [d]"
  by (auto simp: unescape_def rune_ascii split: if_splits)

lemma valid_rune_Cons: "rune [c] \<Longrightarrow> valid_utf8 (c # t) = valid_utf8 t"
  using valid_rune_append [of "[c]" t] by simp

lemma parse_chars_utf8: "parse_chars s = Some (out, r) \<Longrightarrow> valid_utf8 out"
proof (induction "length s" arbitrary: s out r rule: less_induct)
  case less
  note IH = less.hyps
  obtain c cs where s: "s = c # cs" using less.prems by (cases s) (auto simp: parse_chars.simps)
  consider "c = CHR 0x22" | e es where "c = CHR 0x5C" "cs = e # es"
    | "c \<noteq> CHR 0x22" "c \<noteq> CHR 0x5C" "32 \<le> byte_of c" "byte_of c < 128"
    | "c \<noteq> CHR 0x22" "c \<noteq> CHR 0x5C" "128 \<le> byte_of c"
    using less.prems unfolding s by (cases cs) (force simp: parse_chars.simps [of "c # _"] split: if_splits)+
  then show ?case
  proof cases
    case 1
    then have "out = []" using less.prems unfolding s by (simp add: parse_chars.simps [of "_ # _"])
    then show ?thesis by (simp add: valid_utf8.simps)
  next
    case 2
    have "parse_chars (drop k es) = Some (o', r') \<Longrightarrow> valid_utf8 o'" for k o' r'
      by (rule IH) (simp_all add: s 2)
    moreover have "parse_chars es = Some (o', r') \<Longrightarrow> valid_utf8 o'" for o' r'
      by (rule IH) (simp_all add: s 2)
    ultimately show ?thesis using less.prems unfolding s 2
      by (auto simp: parse_chars.simps [of "_ # _ # _"] valid_rune_append valid_rune_Cons
          dest!: unquote_u_rune unescape_rune split: if_splits option.splits)
  next
    case 3
    have "parse_chars cs = Some (o', r') \<Longrightarrow> valid_utf8 o'" for o' r'
      by (rule IH) (simp_all add: s)
    then show ?thesis using less.prems 3 unfolding s
      by (auto simp: parse_chars.simps [of "c # _"] valid_rune_Cons rune_ascii)
  next
    case 4
    have k: "parse_chars (drop k s) = Some (o', r') \<Longrightarrow> rune_size s = Some k \<Longrightarrow> valid_utf8 o'" for k o' r'
      using rune_size_bounds [of s k] by (intro IH [of "drop k s"]) (auto simp: s)
    have "parse_chars cs = Some (o', r') \<Longrightarrow> valid_utf8 o'" for o' r'
      by (rule IH) (simp_all add: s)
    with k show ?thesis using less.prems 4 rune_take [of s] unfolding s
      by (cases "rune_size (c # cs)")
        (auto simp: parse_chars.simps [of "c # _"] valid_rune_append rune_error_rune simp del: drop_Cons take_Cons)
  qed
qed

fun json_utf8 :: "json \<Rightarrow> bool" where
  "json_utf8 (JStr s) = valid_utf8 s"
| "json_utf8 (JArr vs) = (\<forall>v \<in> set vs. json_utf8 v)"
| "json_utf8 (JObj ms) = (\<forall>m \<in> set ms. valid_utf8 (fst m) \<and> json_utf8 (snd m))"
| "json_utf8 _ = True"

lemma parse_utf8:
  "parse_value fuel depth s = Some (v, r) \<Longrightarrow> json_utf8 v"
  "parse_elems fuel depth s = Some (vs, r) \<Longrightarrow> \<forall>v \<in> set vs. json_utf8 v"
  "parse_members fuel depth s = Some (ms, r) \<Longrightarrow> \<forall>m \<in> set ms. valid_utf8 (fst m) \<and> json_utf8 (snd m)"
proof (induction fuel depth s and fuel depth s and fuel depth s
    arbitrary: v r and vs r and ms r rule: parse_value_parse_elems_parse_members.induct)
  case (2 fuel depth s0)
  obtain c cs where s: "skip_space s0 = c # cs" using 2(3) by (auto split: list.splits)
  show ?case using 2(3) 2(1,2) [OF s] s
    by (auto dest: parse_chars_utf8 simp del: take_Suc_Cons split: if_splits)
next
  case (4 fuel depth s)
  then show ?case
    by (fastforce split: option.splits prod.splits list.splits if_splits)
next
  case (6 fuel depth s)
  then show ?case
    by (fastforce split: option.splits prod.splits list.splits if_splits dest: parse_chars_utf8)
qed simp_all

lemma parse_json_utf8: "parse_json s = Some v \<Longrightarrow> json_utf8 v"
  using parse_utf8(1) by (auto simp: parse_json_def split: option.splits if_splits simp del: parse_value.simps)

end
