(* ===== verification/Bbolt.thy ===== *)
theory Bbolt
  imports Types "HOL-Library.AList"
begin

text \<open>
  The part of the \<^verbatim>\<open>go.etcd.io/bbolt\<close> interface that \<^verbatim>\<open>store/bolt_store.go\<close> and
  \<^verbatim>\<open>store/kv_state_machine.go\<close> call.  The package is not part of the repository: its
  operations are a record of functions over an unknown database type \<open>'d\<close> and transaction
  type \<open>'t\<close>, an argument of every definition that uses them, and \<open>bbolt_laws\<close> collects the
  documented behaviour the theorems rely on.
\<close>

record ('d, 't) bbolt =
  bbUpdate :: "'d \<Rightarrow> ('t \<Rightarrow> GoError option \<times> 't) \<Rightarrow> GoError option \<times> 'd"
  bbView :: "'d \<Rightarrow> GoError + 't"
  bbCreateBucketIfNotExists :: "'t \<Rightarrow> bytes \<Rightarrow> GoError option \<times> 't"
  bbDeleteBucket :: "'t \<Rightarrow> bytes \<Rightarrow> GoError option \<times> 't"
  bbBucket :: "'t \<Rightarrow> bytes \<Rightarrow> bool"
  bbPut :: "'t \<Rightarrow> bytes \<Rightarrow> bytes \<Rightarrow> bytes \<Rightarrow> GoError option \<times> 't"
  bbGet :: "'t \<Rightarrow> bytes \<Rightarrow> bytes \<Rightarrow> bytes option"
  bbDelete :: "'t \<Rightarrow> bytes \<Rightarrow> bytes \<Rightarrow> GoError option \<times> 't"
  bbForEach :: "'t \<Rightarrow> bytes \<Rightarrow> (bytes \<times> bytes) list"
  bbErrBucketNotFound :: GoError

text \<open>The buckets of a database or of an open transaction, each a map from keys to values.\<close>

type_synonym buckets = "bytes \<rightharpoonup> (bytes \<rightharpoonup> bytes)"

text \<open>
  \<^item> An \<^verbatim>\<open>Update\<close> that returns nil ran its function on the current contents and committed
    what the function left; one that returns an error left the contents alone, or failed
    while committing them.
  \<^item> \<^verbatim>\<open>View\<close> shows the current contents.
  \<^item> Creating an existing bucket changes nothing, creating a missing one adds it empty.
  \<^item> Deleting a bucket removes it; the not-found error means there was none.
  \<^item> \<^verbatim>\<open>Put\<close>, \<^verbatim>\<open>Get\<close>, \<^verbatim>\<open>Delete\<close> and \<^verbatim>\<open>ForEach\<close> act on one bucket as on a map.
\<close>

definition law_update :: "('d, 't) bbolt \<Rightarrow> ('d \<Rightarrow> buckets) \<Rightarrow> ('t \<Rightarrow> buckets) \<Rightarrow> bool" where
  "law_update api cont tcont =
     (\<forall>d f e d'. bbUpdate api d f = (e, d') \<longrightarrow>
        (e \<noteq> None \<and> cont d' = cont d)
        \<or> (\<exists>t t'. tcont t = cont d \<and> f t = (None, t') \<and> cont d' = tcont t'))"

definition law_view :: "('d, 't) bbolt \<Rightarrow> ('d \<Rightarrow> buckets) \<Rightarrow> ('t \<Rightarrow> buckets) \<Rightarrow> bool" where
  "law_view api cont tcont = (\<forall>d t. bbView api d = Inr t \<longrightarrow> tcont t = cont d)"

definition law_create :: "('d, 't) bbolt \<Rightarrow> ('t \<Rightarrow> buckets) \<Rightarrow> bool" where
  "law_create api tcont =
     (\<forall>t b t'. bbCreateBucketIfNotExists api t b = (None, t') \<longrightarrow>
        tcont t' = (if tcont t b = None then (tcont t)(b \<mapsto> Map.empty) else tcont t))"

definition law_delete_bucket :: "('d, 't) bbolt \<Rightarrow> ('t \<Rightarrow> buckets) \<Rightarrow> bool" where
  "law_delete_bucket api tcont =
     (\<forall>t b e t'. bbDeleteBucket api t b = (e, t') \<longrightarrow> e \<in> {None, Some (bbErrBucketNotFound api)} \<longrightarrow>
        tcont t' = (tcont t)(b := None))"

definition law_bucket :: "('d, 't) bbolt \<Rightarrow> ('t \<Rightarrow> buckets) \<Rightarrow> bool" where
  "law_bucket api tcont =
     (\<forall>t b. bbBucket api t b = (tcont t b \<noteq> None)
        \<and> (\<forall>m. tcont t b = Some m \<longrightarrow>
             (\<forall>k. bbGet api t b k = m k) \<and> map_of (bbForEach api t b) = m
             \<and> distinct (map fst (bbForEach api t b))
             \<and> (\<forall>k v t'. bbPut api t b k v = (None, t') \<longrightarrow> tcont t' = (tcont t)(b \<mapsto> m(k \<mapsto> v)))
             \<and> (\<forall>k t'. bbDelete api t b k = (None, t') \<longrightarrow> tcont t' = (tcont t)(b \<mapsto> m(k := None)))))"

definition bbolt_laws :: "('d, 't) bbolt \<Rightarrow> ('d \<Rightarrow> buckets) \<Rightarrow> ('t \<Rightarrow> buckets) \<Rightarrow> bool" where
  "bbolt_laws api cont tcont =
     (law_update api cont tcont \<and> law_view api cont tcont \<and> law_create api tcont
      \<and> law_delete_bucket api tcont \<and> law_bucket api tcont)"

lemma bbolt_updateE:
  assumes "bbolt_laws api cont tcont" and "bbUpdate api d f = (e, d')"
  obtains (rollback) "e \<noteq> None" "cont d' = cont d"
    | (commit) t t' where "tcont t = cont d" "f t = (None, t')" "cont d' = tcont t'"
  using assms unfolding bbolt_laws_def law_update_def by metis

lemma bbolt_view: "bbolt_laws api cont tcont \<Longrightarrow> bbView api d = Inr t \<Longrightarrow> tcont t = cont d"
  by (simp add: bbolt_laws_def law_view_def)

lemma bbolt_create:
  "bbolt_laws api cont tcont \<Longrightarrow> bbCreateBucketIfNotExists api t b = (None, t') \<Longrightarrow>
     tcont t' = (if tcont t b = None then (tcont t)(b \<mapsto> Map.empty) else tcont t)"
  by (simp add: bbolt_laws_def law_create_def)

lemma bbolt_delete_bucket:
  assumes "bbolt_laws api cont tcont" and "bbDeleteBucket api t b = (e, t')"
    and "e = None \<or> e = Some (bbErrBucketNotFound api)"
  shows "tcont t' = (tcont t)(b := None)"
proof -
  have "law_delete_bucket api tcont" using assms(1) by (simp add: bbolt_laws_def)
  note this [unfolded law_delete_bucket_def, rule_format, OF assms(2)]
  moreover have "e \<in> {None, Some (bbErrBucketNotFound api)}" using assms(3) by auto
  ultimately show ?thesis by (rule meta_mp)
qed

lemma bbolt_bucket [simp]:
  assumes "bbolt_laws api cont tcont"
  shows "bbBucket api t b \<longleftrightarrow> tcont t b \<noteq> None"
  using assms unfolding bbolt_laws_def law_bucket_def by blast

lemma bbolt_in_bucket:
  assumes "bbolt_laws api cont tcont" and "tcont t b = Some m"
  shows "bbGet api t b k = m k" and "map_of (bbForEach api t b) = m" and "distinct (map fst (bbForEach api t b))"
    and "bbPut api t b k v = (None, t') \<Longrightarrow> tcont t' = (tcont t)(b \<mapsto> m(k \<mapsto> v))"
    and "bbDelete api t b k = (None, t') \<Longrightarrow> tcont t' = (tcont t)(b \<mapsto> m(k := None))"
proof -
  have "law_bucket api tcont" using assms(1) by (simp add: bbolt_laws_def)
  note b = this [unfolded law_bucket_def, THEN spec, THEN spec, THEN conjunct2, rule_format, OF assms(2)]
  show "bbGet api t b k = m k" "map_of (bbForEach api t b) = m" "distinct (map fst (bbForEach api t b))"
    using b by blast+
  show "bbPut api t b k v = (None, t') \<Longrightarrow> tcont t' = (tcont t)(b \<mapsto> m(k \<mapsto> v))"
    using b by blast
  show "bbDelete api t b k = (None, t') \<Longrightarrow> tcont t' = (tcont t)(b \<mapsto> m(k := None))"
    using b by blast
qed

subsection \<open>A database that obeys the laws\<close>

text \<open>
  Buckets as association lists, every transaction successful: the instance with which the
  theorems that assume \<^const>\<open>bbolt_laws\<close> are evaluated.
\<close>

type_synonym ref_db = "(bytes \<times> (bytes \<times> bytes) list) list"

definition ref_cont :: "ref_db \<Rightarrow> buckets" where
  "ref_cont d = map_option map_of \<circ> map_of d"

definition ref_bucket :: "ref_db \<Rightarrow> bytes \<Rightarrow> (bytes \<times> bytes) list" where
  "ref_bucket d b = (case map_of d b of None \<Rightarrow> [] | Some kvs \<Rightarrow> kvs)"

definition ref_bbolt :: "(ref_db, ref_db) bbolt" where
  "ref_bbolt = \<lparr>
     bbUpdate = (\<lambda>d f. case f d of (None, d') \<Rightarrow> (None, d') | (Some e, _) \<Rightarrow> (Some e, d)),
     bbView = Inr,
     bbCreateBucketIfNotExists = (\<lambda>d b. (None, if map_of d b = None then (b, []) # d else d)),
     bbDeleteBucket = (\<lambda>d b. (if map_of d b = None then Some (ExtErr ''bucket not found'') else None,
                              AList.delete b d)),
     bbBucket = (\<lambda>d b. map_of d b \<noteq> None),
     bbPut = (\<lambda>d b k v. (None, AList.update b (AList.update k v (ref_bucket d b)) d)),
     bbGet = (\<lambda>d b k. map_of (ref_bucket d b) k),
     bbDelete = (\<lambda>d b k. (None, AList.update b (AList.delete k (ref_bucket d b)) d)),
     bbForEach = (\<lambda>d b. AList.clearjunk (ref_bucket d b)),
     bbErrBucketNotFound = ExtErr ''bucket not found''\<rparr>"

lemma ref_cont_simps:
  "ref_cont (AList.update b kvs d) = (ref_cont d)(b \<mapsto> map_of kvs)"
  "ref_cont (AList.delete b d) = (ref_cont d)(b := None)"
  "ref_cont ((b, []) # d) = (ref_cont d)(b \<mapsto> Map.empty)"
  by (auto simp: ref_cont_def update_conv' delete_conv' fun_eq_iff)

lemma ref_bucket_cont: "ref_cont d b = Some m \<Longrightarrow> map_of (ref_bucket d b) = m"
  by (auto simp: ref_cont_def ref_bucket_def)

lemma ref_cont_None [simp]: "ref_cont d b = None \<longleftrightarrow> map_of d b = None"
  by (simp add: ref_cont_def)

lemma ref_update: "law_update ref_bbolt ref_cont ref_cont"
  unfolding law_update_def
proof (intro allI impI)
  fix d f e d'
  assume u: "bbUpdate ref_bbolt d f = (e, d')"
  obtain e1 d1 where f: "f d = (e1, d1)" by fastforce
  show "e \<noteq> None \<and> ref_cont d' = ref_cont d
    \<or> (\<exists>t t'. ref_cont t = ref_cont d \<and> f t = (None, t') \<and> ref_cont d' = ref_cont t')"
    using u f by (cases e1) (auto simp: ref_bbolt_def)
qed

lemma ref_buckets: "law_bucket ref_bbolt ref_cont"
  unfolding law_bucket_def
proof (intro allI impI conjI)
  fix d b m k v d'
  assume m: "ref_cont d b = Some m"
  note m' = ref_bucket_cont [OF m]
  show "bbGet ref_bbolt d b k = m k" by (simp add: ref_bbolt_def m')
  show "map_of (bbForEach ref_bbolt d b) = m" by (simp add: ref_bbolt_def m' map_of_clearjunk)
  show "distinct (map fst (bbForEach ref_bbolt d b))" by (simp add: ref_bbolt_def)
  show "bbPut ref_bbolt d b k v = (None, d') \<Longrightarrow> ref_cont d' = (ref_cont d)(b \<mapsto> m(k \<mapsto> v))"
    by (auto simp: ref_bbolt_def m' ref_cont_simps update_conv')
  show "bbDelete ref_bbolt d b k = (None, d') \<Longrightarrow> ref_cont d' = (ref_cont d)(b \<mapsto> m(k := None))"
    by (auto simp: ref_bbolt_def m' ref_cont_simps delete_conv')
qed (simp add: ref_bbolt_def)

lemma ref_bbolt_laws: "bbolt_laws ref_bbolt ref_cont ref_cont"
proof -
  have "law_view ref_bbolt ref_cont ref_cont"
    by (simp add: law_view_def ref_bbolt_def)
  moreover have "law_create ref_bbolt ref_cont"
    by (simp add: law_create_def ref_bbolt_def ref_cont_simps)
  moreover have "law_delete_bucket ref_bbolt ref_cont"
    by (simp add: law_delete_bucket_def ref_bbolt_def ref_cont_simps)
  ultimately show ?thesis using ref_update ref_buckets by (simp add: bbolt_laws_def)
qed

end
