(* ===== verification/KV.thy ===== *)
theory KV
  imports NodeApply JsonUtf8 Bbolt "HOL-Library.Mapping" "HOL-Library.List_Lexorder" "HOL-Library.Char_ord"
begin

text \<open>
  The key-value store: its log commands (\<^verbatim>\<open>store/kv_command.go\<close>) and its state machine
  (\<^verbatim>\<open>store/kv_state_machine.go\<close>), in memory or mirrored in a bbolt database.

  Go's \<^verbatim>\<open>map[string][]byte\<close> is a \<^typ>\<open>(string, bytes) mapping\<close>.  Every value that enters the
  map is copied by \<^verbatim>\<open>append([]byte(nil), value...)\<close>, so an empty value is the nil slice,
  which \<^verbatim>\<open>json.Marshal\<close> writes as null.  \<^verbatim>\<open>json.Marshal\<close> writes the keys in order.
\<close>

subsection \<open>Commands\<close>

definition OperationPut :: string where "OperationPut = ''put''"
definition OperationDelete :: string where "OperationDelete = ''delete''"
definition OperationNoop :: string where "OperationNoop = ''noop''"

record Command =
  cOperation :: string
  cKey :: string
  cValue :: bytes

definition zeroCommand :: Command where
  "zeroCommand = \<lparr>cOperation = [], cKey = [], cValue = []\<rparr>"

definition ValidateCommand :: "Command \<Rightarrow> GoError option" where
  "ValidateCommand c =
     (if cOperation c = OperationNoop then None
      else if cKey c = [] then Some (Errorf ''kv command key is required'' [])
      else if cOperation c = OperationPut \<or> cOperation c = OperationDelete then None
      else Some (Errorf ''unsupported kv operation %q'' [cOperation c]))"

definition Command_json :: "Command \<Rightarrow> json" where
  "Command_json c = JObj
     ([(''operation'', JStr (cOperation c)), (''key'', JStr (cKey c))]
      @ (if cValue c = [] then [] else [(''value'', JStr (b64_encode (cValue c)))]))"

definition set_Command :: "string \<Rightarrow> json \<Rightarrow> Command \<Rightarrow> Command option" where
  "set_Command f v c =
     (if f = ''operation'' then map_option (\<lambda>s. c\<lparr>cOperation := s\<rparr>) (decode_string v (cOperation c))
      else if f = ''key'' then map_option (\<lambda>s. c\<lparr>cKey := s\<rparr>) (decode_string v (cKey c))
      else map_option (\<lambda>b. c\<lparr>cValue := b\<rparr>) (decode_bytes v))"

definition Command_of_json :: "json \<Rightarrow> Command option" where
  "Command_of_json v = decode_struct [''operation'', ''key'', ''value''] set_Command v zeroCommand"

definition EncodeCommand :: "Command \<Rightarrow> GoError + bytes" where
  "EncodeCommand command =
     (case ValidateCommand command of
        Some err \<Rightarrow> Inl err
      | None \<Rightarrow> Inr (print_json (Command_json command)))"

definition DecodeCommand :: "bytes \<Rightarrow> GoError + Command" where
  "DecodeCommand data =
     (case unmarshal Command_of_json data of
        None \<Rightarrow> Inl JSONErr
      | Some command \<Rightarrow>
        (case ValidateCommand command of
           Some err \<Rightarrow> Inl err
         | None \<Rightarrow> Inr command))"

subsection \<open>The state machine\<close>

type_synonym kv_data = "(string, bytes) mapping"

record 'd KVStateMachine =
  kvData :: kv_data
  kvDb :: "'d option"

definition kvBucket :: bytes where "kvBucket = ''kv''"

definition NewKVStateMachine :: "'d KVStateMachine" where
  "NewKVStateMachine = \<lparr>kvData = Mapping.empty, kvDb = None\<rparr>"

definition applyBolt :: "('d, 't) bbolt \<Rightarrow> 'd \<Rightarrow> Command \<Rightarrow> GoError option \<times> 'd" where
  "applyBolt api db command =
     bbUpdate api db (\<lambda>tx.
       case bbCreateBucketIfNotExists api tx kvBucket of
         (Some err, tx) \<Rightarrow> (Some err, tx)
       | (None, tx) \<Rightarrow>
         if cOperation command = OperationNoop then (None, tx)
         else if cOperation command = OperationPut then bbPut api tx kvBucket (cKey command) (cValue command)
         else if cOperation command = OperationDelete then bbDelete api tx kvBucket (cKey command)
         else (None, tx))"

definition apply_data :: "kv_data \<Rightarrow> Command \<Rightarrow> kv_data" where
  "apply_data data command =
     (if cOperation command = OperationNoop then data
      else if cOperation command = OperationPut then Mapping.update (cKey command) (cValue command) data
      else if cOperation command = OperationDelete then Mapping.delete (cKey command) data
      else data)"

definition Apply :: "('d, 't) bbolt \<Rightarrow> 'd KVStateMachine \<Rightarrow> LogEntry \<Rightarrow> GoError option \<times> 'd KVStateMachine" where
  "Apply api s entry =
     (case DecodeCommand (eCommand entry) of
        Inl err \<Rightarrow> (Some err, s)
      | Inr command \<Rightarrow>
        (case (case kvDb s of
                 None \<Rightarrow> (None, s)
               | Some db \<Rightarrow>
                 (case applyBolt api db command of (err, db) \<Rightarrow> (err, s\<lparr>kvDb := Some db\<rparr>))) of
           (Some err, s) \<Rightarrow> (Some err, s)
         | (None, s) \<Rightarrow> (None, s\<lparr>kvData := apply_data (kvData s) command\<rparr>)))"

text \<open>
  \<^verbatim>\<open>Apply\<close> writes the database without the state machine's lock and takes the lock for the map
  only, so another call may run between the two.  \<open>ka_step\<close> is one such part of a call;
  \<open>Apply\<close> above is a call that nobody interrupts.
\<close>

datatype KvApplyRun = KaStart LogEntry | KaMap Command | KaDone "GoError option"

fun ka_step :: "('d, 't) bbolt \<Rightarrow> KvApplyRun \<Rightarrow> 'd KVStateMachine \<Rightarrow> (KvApplyRun \<times> 'd KVStateMachine) option" where
  "ka_step api (KaStart entry) s =
     Some (case DecodeCommand (eCommand entry) of
             Inl err \<Rightarrow> (KaDone (Some err), s)
           | Inr command \<Rightarrow>
             (case kvDb s of
                None \<Rightarrow> (KaMap command, s)
              | Some db \<Rightarrow>
                (case applyBolt api db command of
                   (Some err, db) \<Rightarrow> (KaDone (Some err), s\<lparr>kvDb := Some db\<rparr>)
                 | (None, db) \<Rightarrow> (KaMap command, s\<lparr>kvDb := Some db\<rparr>))))"
| "ka_step api (KaMap command) s = Some (KaDone None, s\<lparr>kvData := apply_data (kvData s) command\<rparr>)"
| "ka_step api (KaDone err) s = None"

text \<open>The value and whether there is one.\<close>

definition Get :: "'d KVStateMachine \<Rightarrow> string \<Rightarrow> bytes \<times> bool" where
  "Get s key = (case Mapping.lookup (kvData s) key of None \<Rightarrow> ([], False) | Some value \<Rightarrow> (value, True))"

subsection \<open>Snapshots\<close>

definition bytes_json :: "bytes \<Rightarrow> json" where
  "bytes_json v = (if v = [] then JNull else JStr (b64_encode v))"

text \<open>The pairs of the map, in key order.\<close>

definition data_entries :: "kv_data \<Rightarrow> (string \<times> bytes) list" where
  "data_entries data =
     map (\<lambda>k. (k, case Mapping.lookup data k of None \<Rightarrow> [] | Some v \<Rightarrow> v)) (Mapping.ordered_keys data)"

definition data_json :: "kv_data \<Rightarrow> json" where
  "data_json data = JObj (map (\<lambda>(k, v). (k, bytes_json v)) (data_entries data))"

fun decode_data :: "(string \<times> json) list \<Rightarrow> kv_data \<Rightarrow> kv_data option" where
  "decode_data [] data = Some data"
| "decode_data ((k, v) # ms) data =
     (case decode_bytes v of None \<Rightarrow> None | Some b \<Rightarrow> decode_data ms (Mapping.update k b data))"

definition data_of_json :: "json \<Rightarrow> kv_data option" where
  "data_of_json v =
     (case v of JObj ms \<Rightarrow> decode_data ms Mapping.empty | JNull \<Rightarrow> Some Mapping.empty | _ \<Rightarrow> None)"

definition Snapshot :: "'d KVStateMachine \<Rightarrow> bytes" where
  "Snapshot s = print_json (data_json (kvData s))"

fun put_all :: "('d, 't) bbolt \<Rightarrow> 't \<Rightarrow> (string \<times> bytes) list \<Rightarrow> GoError option \<times> 't" where
  "put_all api tx [] = (None, tx)"
| "put_all api tx ((k, v) # kvs) =
     (case bbPut api tx kvBucket k v of
        (Some err, tx) \<Rightarrow> (Some err, tx)
      | (None, tx) \<Rightarrow> put_all api tx kvs)"

definition restoreBolt :: "('d, 't) bbolt \<Rightarrow> 'd \<Rightarrow> kv_data \<Rightarrow> GoError option \<times> 'd" where
  "restoreBolt api db data =
     bbUpdate api db (\<lambda>tx.
       case bbDeleteBucket api tx kvBucket of (err, tx) \<Rightarrow>
         if err \<noteq> None \<and> err \<noteq> Some (bbErrBucketNotFound api) then (err, tx)
         else
           (case bbCreateBucketIfNotExists api tx kvBucket of
              (Some err, tx) \<Rightarrow> (Some err, tx)
            | (None, tx) \<Rightarrow> put_all api tx (data_entries data)))"

definition RestoreSnapshot ::
  "('d, 't) bbolt \<Rightarrow> 'd KVStateMachine \<Rightarrow> bytes \<Rightarrow> GoError option \<times> 'd KVStateMachine" where
  "RestoreSnapshot api s snap =
     (if snap = [] then (None, s)
      else
        (case unmarshal data_of_json snap of
           None \<Rightarrow> (Some JSONErr, s)
         | Some restored \<Rightarrow>
           (case (case kvDb s of
                    None \<Rightarrow> (None, s)
                  | Some db \<Rightarrow>
                    (case restoreBolt api db restored of (err, db) \<Rightarrow> (err, s\<lparr>kvDb := Some db\<rparr>))) of
              (Some err, s) \<Rightarrow> (Some err, s)
            | (None, s) \<Rightarrow> (None, s\<lparr>kvData := restored\<rparr>))))"

definition load :: "('d, 't) bbolt \<Rightarrow> 'd \<Rightarrow> kv_data \<Rightarrow> GoError + kv_data" where
  "load api db data =
     (case bbView api db of
        Inl err \<Rightarrow> Inl err
      | Inr tx \<Rightarrow>
        if \<not> bbBucket api tx kvBucket then Inr data
        else Inr (fold (\<lambda>(k, v) data. Mapping.update k v data) (bbForEach api tx kvBucket) data))"

definition NewBoltKVStateMachine :: "('d, 't) bbolt \<Rightarrow> 'd option \<Rightarrow> GoError + 'd KVStateMachine" where
  "NewBoltKVStateMachine api db =
     (case db of
        None \<Rightarrow> Inr \<lparr>kvData = Mapping.empty, kvDb = None\<rparr>
      | Some d \<Rightarrow>
        (case bbUpdate api d (\<lambda>tx. bbCreateBucketIfNotExists api tx kvBucket) of
           (Some err, _) \<Rightarrow> Inl err
         | (None, d) \<Rightarrow>
           (case load api d Mapping.empty of
              Inl err \<Rightarrow> Inl err
            | Inr data \<Rightarrow> Inr \<lparr>kvData = data, kvDb = Some d\<rparr>)))"

end
