(* ===== verification/ApplySteps.thy ===== *)
theory ApplySteps
  imports NodeApply
begin

text \<open>
  \<^verbatim>\<open>ApplyCommitted\<close> section by section.  The loop takes the node's lock three times per entry
  and calls the state machine without it, so several goroutines that apply entries (the
  loop of the process and every HTTP handler) run interleaved.  A running call is a value
  that says what comes next, as in the theories of elections and replication.
\<close>

datatype ApplyRun =
    ApNext
  | ApChange MembershipChange uint64
  | ApApply LogEntry
  | ApMark LogEntry
  | ApDone "GoError option"

fun ap_step ::
  "'s saver \<Rightarrow> 'm applier \<Rightarrow> ApplyRun \<Rightarrow> 's RaftNode \<Rightarrow> 'm \<Rightarrow> (ApplyRun \<times> 's RaftNode \<times> 'm) option" where
  "ap_step sv ap ApNext n m =
     (case nextCommittedEntry n of
        None \<Rightarrow> None
      | Some None \<Rightarrow> Some (ApDone None, n, m)
      | Some (Some entry) \<Rightarrow>
        (case DecodeMembershipChange (eCommand entry) of (change, ok, err) \<Rightarrow>
           Some (if ok then (case err of Some e \<Rightarrow> ApDone (Some e) | None \<Rightarrow> ApChange change (eIndex entry))
                 else ApApply entry, n, m)))"
| "ap_step sv ap (ApChange change index) n m =
     (case applyCommittedMembershipChange sv n change index of
        None \<Rightarrow> None
      | Some (Some err, n) \<Rightarrow> Some (ApDone (Some err), n, m)
      | Some (None, n) \<Rightarrow> Some (ApNext, n, m))"
| "ap_step sv ap (ApApply entry) n m =
     (case ap m entry of
        (Some err, m) \<Rightarrow> Some (ApDone (Some err), n, m)
      | (None, m) \<Rightarrow> Some (ApMark entry, n, m))"
| "ap_step sv ap (ApMark entry) n m = Some (ApNext, markApplied n (eIndex entry), m)"
| "ap_step sv ap (ApDone err) n m = None"

text \<open>The steps of one call that nobody interrupts.\<close>

inductive ap_run ::
  "'s saver \<Rightarrow> 'm applier \<Rightarrow> ApplyRun \<Rightarrow> 's RaftNode \<Rightarrow> 'm \<Rightarrow> GoError option \<Rightarrow> 's RaftNode \<Rightarrow> 'm \<Rightarrow> bool"
  for sv ap where
  returned: "ap_run sv ap (ApDone err) n m err n m"
| advance: "ap_step sv ap r n m = Some (r', n', m') \<Longrightarrow> ap_run sv ap r' n' m' err n'' m''
    \<Longrightarrow> ap_run sv ap r n m err n'' m''"

inductive_simps ap_run_done [simp]: "ap_run sv ap (ApDone err') n m err n' m'"
inductive_simps ap_run_next: "ap_run sv ap ApNext n m err n' m'"
inductive_simps ap_run_section:
  "ap_run sv ap (ApChange change index) n m err n' m'"
  "ap_run sv ap (ApApply entry) n m err n' m'"
  "ap_run sv ap (ApMark entry) n m err n' m'"

text \<open>What is left of the loop after each point, in terms of the loop itself.\<close>

definition ap_rest ::
  "'s saver \<Rightarrow> 'm applier \<Rightarrow> ApplyRun \<Rightarrow> 's RaftNode \<Rightarrow> 'm \<Rightarrow> (GoError option \<times> 's RaftNode \<times> 'm) option" where
  "ap_rest sv ap r n m =
     (case r of
        ApDone err \<Rightarrow> Some (err, n, m)
      | ApNext \<Rightarrow> ApplyCommitted sv ap n m
      | _ \<Rightarrow> (case ap_step sv ap r n m of
               Some (ApDone err, n, m) \<Rightarrow> Some (err, n, m)
             | Some (ApMark entry, n, m) \<Rightarrow> ApplyCommitted sv ap (markApplied n (eIndex entry)) m
             | Some (_, n, m) \<Rightarrow> ApplyCommitted sv ap n m
             | None \<Rightarrow> None))"

lemma ApplyCommitted_unfold:
  "ApplyCommitted sv ap n m =
     (case ap_step sv ap ApNext n m of None \<Rightarrow> None | Some (r, n, m) \<Rightarrow> ap_rest sv ap r n m)"
  by (subst ApplyCommitted.simps)
    (auto simp: ap_rest_def split: option.split prod.split bind_split)

lemma ap_rest_step:
  "ap_step sv ap r n m = Some (r', n', m') \<Longrightarrow> ap_rest sv ap r n m = ap_rest sv ap r' n' m'"
  by (cases r) (auto simp: ap_rest_def ApplyCommitted_unfold [of sv ap n m] split: option.splits prod.splits ApplyRun.splits)

lemma ap_run_rest: "ap_run sv ap r n m err n' m' \<Longrightarrow> ap_rest sv ap r n m = Some (err, n', m')"
  by (induction rule: ap_run.induct) (simp_all add: ap_rest_step, simp add: ap_rest_def)


lemma ApplyCommitted_run:
  assumes "ApplyCommitted sv ap n m = Some (err, n', m')"
  shows "ap_run sv ap ApNext n m err n' m'"
proof -
  have "case res of (err, n', m') \<Rightarrow> ap_run sv ap ApNext n m err n' m'" if "ApplyCommitted sv ap n m = Some res" for res
    using that
  proof (rule ApplyCommitted.raw_induct [rotated, where P = "\<lambda>sv ap n m res. case res of (err, n', m') \<Rightarrow> ap_run sv ap ApNext n m err n' m'"],
      goal_cases)
    case (1 f sv ap n m res)
    obtain err n' m' where res: "res = (err, n', m')" by (cases res rule: prod_cases3)
    from 1(2) obtain nx where nx: "nextCommittedEntry n = Some nx" by (cases "nextCommittedEntry n") auto
    show ?case
    proof (cases nx)
      case None
      then show ?thesis using 1(2) nx res by (simp add: ap_run_next)
    next
      case (Some entry)
      obtain change mem derr where d: "DecodeMembershipChange (eCommand entry) = (change, mem, derr)"
        by (cases rule: prod_cases3)
      have ih: "f sv ap k m1 = Some (err, n', m') \<Longrightarrow> ap_run sv ap ApNext k m1 err n' m'" for k m1
        using 1(1) [of sv ap k m1 "(err, n', m')"] by simp
      show ?thesis
      proof (cases mem)
        case True
        show ?thesis
        proof (cases derr)
          case None
          then obtain er k where "applyCommittedMembershipChange sv n change (eIndex entry) = Some (er, k)"
            using 1(2) nx d True \<open>nx = Some entry\<close> by (auto split: bind_splits)
          then show ?thesis
            unfolding res prod.case ap_run_next [of sv ap n m]
            using 1(2) nx d res True None \<open>nx = Some entry\<close> ih by (cases er) (auto simp: ap_run_section)
        next
          case (Some err')
          then show ?thesis
            unfolding res prod.case ap_run_next [of sv ap n m]
            using 1(2) nx d res True \<open>nx = Some entry\<close> by auto
        qed
      next
        case False
        obtain er m1 where "ap m entry = (er, m1)" by fastforce
        then show ?thesis
          unfolding res prod.case ap_run_next [of sv ap n m]
          using 1(2) nx d res False \<open>nx = Some entry\<close> ih by (cases er) (auto simp: ap_run_section)
      qed
    qed
  qed
  from this [OF assms] show ?thesis by simp
qed

lemma ap_run_iff: "ap_run sv ap ApNext n m err n' m' \<longleftrightarrow> ApplyCommitted sv ap n m = Some (err, n', m')"
  using ap_run_rest [of sv ap ApNext] ApplyCommitted_run by (auto simp: ap_rest_def)

subsection \<open>Any number of callers\<close>

text \<open>
  What a caller holds between two sections: the index it is going to mark is committed, and
  stays committed whatever the others do, because the commit index never falls.
\<close>

fun ap_ok :: "'s RaftNode \<Rightarrow> ApplyRun \<Rightarrow> bool" where
  "ap_ok n (ApChange change index) = (ValidateChange change = None \<and> index \<le> commitIndex n)"
| "ap_ok n (ApApply entry) = (eIndex entry \<le> commitIndex n)"
| "ap_ok n (ApMark entry) = (eIndex entry \<le> commitIndex n)"
| "ap_ok n r = True"

lemma ap_ok_mono: "ap_ok n r \<Longrightarrow> commitIndex n \<le> commitIndex n' \<Longrightarrow> ap_ok n' r"
  by (cases r) auto

lemma ap_step_total:
  assumes "node_ok n" and "ap_ok n r" and "\<forall>err. r \<noteq> ApDone err"
  obtains r' n' m' where "ap_step sv ap r n m = Some (r', n', m')" "node_ok n'" "ap_ok n' r'"
    "commitIndex n \<le> commitIndex n'"
proof (cases r)
  case ApNext
  show ?thesis
  proof (cases "lastApplied n < commitIndex n")
    case True
    then obtain e where e: "nextCommittedEntry n = Some (Some e)" "eIndex e \<le> commitIndex n"
      using next_entry [OF assms(1)] by metis
    obtain change mem derr where d: "DecodeMembershipChange (eCommand e) = (change, mem, derr)"
      by (cases rule: prod_cases3)
    show ?thesis
      by (rule that) (use ApNext e d assms(1) Decode_ok_valid [of "eCommand e" change] in \<open>auto split: option.split\<close>)
  qed (use that ApNext assms(1) nextCommittedEntry_eq [OF assms(1)] in auto)
next
  case (ApChange c i)
  let ?q = "markApplied (settled (reconfigured n c)) i"
  let ?p = "?q\<lparr>store := persist_store sv ?q\<rparr>"
  have le: "commitIndex n \<le> commitIndex (settled (reconfigured n c))"
    using settled_commit_mono [OF node_okD(1) [OF node_ok_reconfigured [OF assms(1)]]] by simp
  have ok: "node_ok ?p"
    using ApChange assms(1,2) le by (auto intro!: node_ok_markApplied simp: node_ok_settled node_ok_reconfigured)
  have "ap_step sv ap r n m = Some (case persist_err sv ?q of Some err \<Rightarrow> ApDone (Some err) | None \<Rightarrow> ApNext, ?p, m)"
    using ApChange assms(1,2) by (simp add: applyCommittedMembershipChange_eq persistLocked_pair split: option.split)
  then show ?thesis by (rule that) (use ok le in \<open>simp_all split: option.split\<close>)
next
  case (ApApply e)
  obtain err m' where "ap m e = (err, m')" by fastforce
  then show ?thesis using that ApApply assms by (cases err) auto
next
  case (ApMark e)
  then show ?thesis using that assms by (auto simp: node_ok_markApplied)
qed (use assms in simp)

end
