(* ===== verification/Mux.thy ===== *)
theory Mux
  imports GoText
begin

text \<open>
  What the program uses of Go's \<^verbatim>\<open>path\<close>, \<^verbatim>\<open>path/filepath\<close> and \<^verbatim>\<open>net/http\<close> packages to
  find the handler of a request: lexical cleaning of paths and the request multiplexer of
  Go 1.22, for patterns that consist of a path without wildcards.
\<close>

subsection \<open>Package path\<close>

abbreviation slash :: char where "slash \<equiv> CHR ''/''"

fun join_with :: "char \<Rightarrow> string list \<Rightarrow> string" where
  "join_with sep [] = []"
| "join_with sep [p] = p"
| "join_with sep (p # ps) = p @ sep # join_with sep ps"

text \<open>
  The elements that remain after \<^verbatim>\<open>.\<close> and \<^verbatim>\<open>..\<close> are processed, last one first; a
  \<^verbatim>\<open>..\<close> at the root is dropped and one at the start of a relative path stays.
\<close>

definition clean_elem :: "bool \<Rightarrow> string \<Rightarrow> string list \<Rightarrow> string list" where
  "clean_elem rooted e out =
     (if e = [] \<or> e = ''.'' then out
      else if e = ''..'' then
        (case out of
           [] \<Rightarrow> if rooted then [] else [e]
         | p # ps \<Rightarrow> if p = ''..'' then e # out else ps)
      else e # out)"

definition path_Clean :: "string \<Rightarrow> string" where
  "path_Clean p =
     (let rooted = HasPrefix p ''/'';
          elems = rev (fold (clean_elem rooted) (Split p slash) []);
          out = (if rooted then ''/'' else []) @ join_with slash elems in
      if out = [] then ''.'' else out)"

text \<open>\<^verbatim>\<open>filepath.Join\<close> of two elements.\<close>

definition path_Join :: "string \<Rightarrow> string \<Rightarrow> string" where
  "path_Join a b =
     (if a = [] \<and> b = [] then [] else if a = [] then path_Clean b
      else if b = [] then path_Clean a else path_Clean (a @ slash # b))"

text \<open>\<^verbatim>\<open>filepath.Dir\<close>: what stands before the last slash, cleaned.\<close>

definition path_Dir :: "string \<Rightarrow> string" where
  "path_Dir p = path_Clean (rev (dropWhile (\<lambda>c. c \<noteq> slash) (rev p)))"

subsection \<open>The request multiplexer\<close>

text \<open>\<^verbatim>\<open>cleanPath\<close> of \<^verbatim>\<open>net/http\<close> keeps a trailing slash.\<close>

definition cleanPath :: "string \<Rightarrow> string" where
  "cleanPath p =
     (if p = [] then ''/''
      else
        (let p = (if HasPrefix p ''/'' then p else slash # p); np = path_Clean p in
         if HasSuffix p ''/'' \<and> np \<noteq> ''/'' then np @ ''/'' else np))"

definition hex_value :: "char \<Rightarrow> nat option" where
  "hex_value c =
     (let n = byte_of c in
      if 48 \<le> n \<and> n \<le> 57 then Some (n - 48)
      else if 97 \<le> n \<and> n \<le> 102 then Some (n - 87)
      else if 65 \<le> n \<and> n \<le> 70 then Some (n - 55)
      else None)"

text \<open>Percent decoding; \<^const>\<open>None\<close> on a malformed escape.\<close>

fun percent_decode :: "string \<Rightarrow> string option" where
  "percent_decode [] = Some []"
| "percent_decode (c # cs) =
     (if c \<noteq> CHR ''%'' then map_option ((#) c) (percent_decode cs)
      else (case cs of
              a # b # r \<Rightarrow>
                (case (hex_value a, hex_value b) of
                   (Some x, Some y) \<Rightarrow> map_option ((#) (chr_of (16 * x + y))) (percent_decode r)
                 | _ \<Rightarrow> None)
            | _ \<Rightarrow> None))"

definition pathUnescape :: "string \<Rightarrow> string" where
  "pathUnescape s = (case percent_decode s of None \<Rightarrow> s | Some t \<Rightarrow> t)"

text \<open>
  The segments of an escaped path that starts with a slash, each decoded on its own; a
  trailing slash is a last segment of its own.
\<close>

definition path_segments :: "string \<Rightarrow> string list" where
  "path_segments p =
     (let segs = tl (Split p slash) in
      if segs \<noteq> [] \<and> last segs = [] then map pathUnescape (butlast segs) @ [''/''] else map pathUnescape segs)"

text \<open>
  A pattern that ends in a slash stands for every path below it.  Literals are tried before
  the rest of a path, so the longest pattern wins, and an exact one before a prefix.
\<close>

definition pattern_matches :: "string \<Rightarrow> string \<Rightarrow> bool" where
  "pattern_matches pat p =
     (let lits = path_segments pat; segs = path_segments p in
      if HasSuffix pat ''/''
      then length (butlast lits) < length segs \<and> take (length (butlast lits)) segs = butlast lits
      else segs = lits)"

definition more_specific :: "string \<Rightarrow> string \<Rightarrow> bool" where
  "more_specific p q =
     (if HasSuffix p ''/'' = HasSuffix q ''/'' then length p > length q else HasSuffix q ''/'')"

fun best_pattern :: "(string \<times> 'h) list \<Rightarrow> string \<Rightarrow> (string \<times> 'h) option" where
  "best_pattern [] p = None"
| "best_pattern ((pat, h) # pats) p =
     (case best_pattern pats p of
        None \<Rightarrow> if pattern_matches pat p then Some (pat, h) else None
      | Some (q, k) \<Rightarrow> if pattern_matches pat p \<and> more_specific pat q then Some (pat, h) else Some (q, k))"

text \<open>A path that is matched by a pattern ending in a slash with nothing after it, or literally.\<close>

definition exactMatch :: "(string \<times> 'h) option \<Rightarrow> string \<Rightarrow> bool" where
  "exactMatch found p =
     (case found of
        None \<Rightarrow> False
      | Some (pat, _) \<Rightarrow>
        if \<not> HasSuffix pat ''/'' then True
        else if p \<noteq> [] \<and> \<not> HasSuffix p ''/'' then False
        else length (path_segments pat) = length (filter (\<lambda>c. c = slash) p))"

datatype 'h Route = RouteTo 'h | RouteRedirect string | RouteNotFound | RouteBadRequest

definition slash_redirect :: "(string \<times> 'h) list \<Rightarrow> string \<Rightarrow> bool" where
  "slash_redirect pats p =
     (\<not> exactMatch (best_pattern pats p) p \<and> \<not> HasSuffix p ''/''
      \<and> exactMatch (best_pattern pats (p @ ''/'')) (p @ ''/''))"

text \<open>
  \<^verbatim>\<open>findHandler\<close>, on the request's method, its escaped path and its path.  \<^verbatim>\<open>CONNECT\<close>
  requests are not cleaned.
\<close>

definition findHandler :: "(string \<times> 'h) list \<Rightarrow> string \<Rightarrow> string \<Rightarrow> string \<Rightarrow> 'h Route" where
  "findHandler pats meth escapedPath upath =
     (if escapedPath = ''*'' then RouteBadRequest
      else
        (let p = (if meth = ''CONNECT'' then escapedPath else cleanPath escapedPath) in
         if slash_redirect pats p then RouteRedirect (cleanPath upath @ ''/'')
         else if p \<noteq> escapedPath then RouteRedirect p
         else (case best_pattern pats p of None \<Rightarrow> RouteNotFound | Some (_, h) \<Rightarrow> RouteTo h)))"

end
