(* ===== verification/Http.thy ===== *)
theory Http
  imports Replication KV ApplySteps Mux
begin

text \<open>
  The HTTP API of \<^verbatim>\<open>client/http.go\<close>: its handlers over the node and the key-value state
  machine, and the forwarding of requests to the leader.

  A request in progress is a value that says which critical section, which reply or which
  answer of another process comes next; \<open>http_step\<close> performs one of them, so that any number
  of requests and the node's own goroutines run interleaved.  A handler's output is the list
  of its calls on the response writer; what the client receives is computed from it.
\<close>

subsection \<open>Package net/http: requests and responses\<close>

text \<open>
  A request as the handlers see it: the method, the path as it was escaped and decoded, and
  the body: the bytes that can be read and the error, if any, that ends them.
\<close>

record HttpRequest =
  rqMethod :: string
  rqEscaped :: string
  rqPath :: string
  rqBody :: "bytes \<times> GoError option"

text \<open>A piece of a body; \<open>ErrText err\<close> is the text of an error and a newline.\<close>

datatype Chunk = Bytes bytes | ErrText GoError

datatype WriterOp =
    SetHeader string string
  | AddHeader string string
  | WriteHeader nat
  | Write Chunk

record ResponseWriter =
  wHeader :: "string \<Rightarrow> string list"
  wSent :: "(nat \<times> (string \<Rightarrow> string list)) option"
  wBody :: "Chunk list"

definition newWriter :: ResponseWriter where
  "newWriter = \<lparr>wHeader = (\<lambda>_. []), wSent = None, wBody = []\<rparr>"

definition bodyAllowedForStatus :: "nat \<Rightarrow> bool" where
  "bodyAllowedForStatus status = (\<not> (100 \<le> status \<and> status \<le> 199) \<and> status \<noteq> 204 \<and> status \<noteq> 304)"

text \<open>
  The server's response writer.  The first status that is not informational counts and
  freezes the header; a status outside 100 to 999 panics; writing a body sends status 200 if
  none was sent, and is dropped where the status allows no body.
\<close>

fun write_op :: "WriterOp \<Rightarrow> ResponseWriter \<Rightarrow> ResponseWriter option" where
  "write_op (SetHeader k v) w = Some (w\<lparr>wHeader := (wHeader w)(k := [v])\<rparr>)"
| "write_op (AddHeader k v) w = Some (w\<lparr>wHeader := (wHeader w)(k := wHeader w k @ [v])\<rparr>)"
| "write_op (WriteHeader status) w =
     (if wSent w \<noteq> None then Some w
      else if status < 100 \<or> status > 999 then None
      else if 100 \<le> status \<and> status \<le> 199 \<and> status \<noteq> 101 then Some w
      else Some (w\<lparr>wSent := Some (status, wHeader w)\<rparr>))"
| "write_op (Write chunk) w =
     (let w = (if wSent w = None then w\<lparr>wSent := Some (200, wHeader w)\<rparr> else w) in
      case wSent w of
        Some (status, _) \<Rightarrow> Some (if bodyAllowedForStatus status then w\<lparr>wBody := wBody w @ [chunk]\<rparr> else w)
      | None \<Rightarrow> Some w)"

fun write_ops :: "WriterOp list \<Rightarrow> ResponseWriter \<Rightarrow> ResponseWriter option" where
  "write_ops [] w = Some w"
| "write_ops (op # ops) w = Option.bind (write_op op w) (write_ops ops)"

text \<open>The status, header and body the client receives.\<close>

definition response :: "WriterOp list \<Rightarrow> (nat \<times> (string \<Rightarrow> string list) \<times> Chunk list) option" where
  "response ops =
     map_option (\<lambda>w. case wSent w of None \<Rightarrow> (200, wHeader w, wBody w) | Some (status, h) \<Rightarrow> (status, h, wBody w))
       (write_ops ops newWriter)"

definition http_Error_chunk :: "Chunk \<Rightarrow> nat \<Rightarrow> WriterOp list" where
  "http_Error_chunk text code =
     [SetHeader ''Content-Type'' ''text/plain; charset=utf-8'', SetHeader ''X-Content-Type-Options'' ''nosniff'',
      WriteHeader code, Write text]"

definition http_Error :: "string \<Rightarrow> nat \<Rightarrow> WriterOp list" where
  "http_Error msg code = http_Error_chunk (Bytes (msg @ [CHR 0x0A])) code"

definition http_Error_err :: "GoError \<Rightarrow> nat \<Rightarrow> WriterOp list" where
  "http_Error_err err code = http_Error_chunk (ErrText err) code"

definition http_NotFound :: "WriterOp list" where
  "http_NotFound = http_Error ''404 page not found'' 404"

text \<open>A redirect by the multiplexer; the short HTML text that goes with it is left out.\<close>

definition http_Redirect :: "string \<Rightarrow> WriterOp list" where
  "http_Redirect url = [SetHeader ''Location'' url, WriteHeader 301]"

text \<open>
  \<^verbatim>\<open>io.ReadAll\<close> over \<^verbatim>\<open>http.MaxBytesReader\<close>: too many bytes before any other error is the
  error of the limit.
\<close>

datatype BodyError = MaxBytesError | BodyFailed GoError

definition read_all_max :: "nat \<Rightarrow> bytes \<times> GoError option \<Rightarrow> BodyError + bytes" where
  "read_all_max limit body =
     (case body of (data, err) \<Rightarrow>
        if length data > limit then Inl MaxBytesError
        else (case err of Some e \<Rightarrow> Inl (BodyFailed e) | None \<Rightarrow> Inr data))"

text \<open>\<^verbatim>\<open>errors.Is\<close> and \<^verbatim>\<open>errors.As\<close> look through wrapped errors.\<close>

fun is_deadline :: "GoError \<Rightarrow> bool" where
  "is_deadline CtxDeadlineExceeded = True"
| "is_deadline (Wrapf _ _ err) = is_deadline err"
| "is_deadline _ = False"

fun is_not_leader :: "GoError \<Rightarrow> bool" where
  "is_not_leader (ErrNotLeader _) = True"
| "is_not_leader (Wrapf _ _ err) = is_not_leader err"
| "is_not_leader _ = False"

subsection \<open>The API and the forwarding of requests\<close>

text \<open>
  \<^verbatim>\<open>API\<close> with its node and state machine passed along as state.  A forwarder is the map of the
  peers' HTTP addresses; the append client may be nil.  Durations are in nanoseconds.
\<close>

record API =
  apiAppendClient :: bool
  apiForwarder :: "(string \<rightharpoonup> string) option"
  apiProposalTimeout :: int
  apiRetryInterval :: int

definition maxKVValueBytes :: nat where "maxKVValueBytes = 2 ^ 20"
definition maxForwardResponseBytes :: nat where "maxForwardResponseBytes = 64 * 2 ^ 10"

definition NewLeaderForwarder :: "string \<Rightarrow> (string \<rightharpoonup> string) \<Rightarrow> (string \<rightharpoonup> string) option" where
  "NewLeaderForwarder selfID httpAddrs = Some httpAddrs"

definition NewAPI :: "bool \<Rightarrow> (string \<rightharpoonup> string) option \<Rightarrow> API" where
  "NewAPI appendClient forwarder =
     \<lparr>apiAppendClient = appendClient, apiForwarder = forwarder,
      apiProposalTimeout = 5 * 1000000000, apiRetryInterval = 25 * 1000000\<rparr>"

text \<open>
  A forwarded request.  Putting the address and the path together as one URL, sending the
  request and reading the answer is the outside world: what comes of it is a
  \<open>ForwardAnswer\<close>, in which any of these steps may have failed, or the leader has answered with
  a status, a header (in the order in which it is ranged over) and a body as it can be read.
\<close>

record ForwardRequest =
  fwLeader :: string
  fwAddr :: string
  fwMethod :: string
  fwPath :: string
  fwBody :: bytes

datatype ForwardAnswer =
    FwFailed GoError
  | FwAnswer nat "(string \<times> string list) list" "bytes \<times> GoError option"

record ForwardResponse =
  frStatusCode :: nat
  frHeader :: "(string \<times> string list) list"
  frBody :: bytes

definition Forward ::
  "(string \<rightharpoonup> string) \<Rightarrow> string \<Rightarrow> string \<Rightarrow> string \<Rightarrow> bytes \<Rightarrow> GoError + ForwardRequest" where
  "Forward httpAddrs leader meth path body =
     (case httpAddrs leader of
        None \<Rightarrow> Inl (Errorf ''unknown leader %s'' [leader])
      | Some addr \<Rightarrow>
        Inr \<lparr>fwLeader = leader, fwAddr = addr, fwMethod = meth, fwPath = path, fwBody = body\<rparr>)"

text \<open>
  \<^verbatim>\<open>io.ReadAll\<close> over \<^verbatim>\<open>io.LimitReader\<close> stops after the limit, before a later error.
\<close>

definition read_all_limit :: "nat \<Rightarrow> bytes \<times> GoError option \<Rightarrow> GoError + bytes" where
  "read_all_limit limit body =
     (case body of (data, err) \<Rightarrow>
        if length data \<ge> limit then Inr (take limit data)
        else (case err of Some e \<Rightarrow> Inl e | None \<Rightarrow> Inr data))"

definition forward_result :: "ForwardAnswer \<Rightarrow> GoError + ForwardResponse" where
  "forward_result ans =
     (case ans of
        FwFailed err \<Rightarrow> Inl err
      | FwAnswer status header body \<Rightarrow>
        (case read_all_limit (maxForwardResponseBytes + 1) body of
           Inl err \<Rightarrow> Inl err
         | Inr respBody \<Rightarrow>
           Inr \<lparr>frStatusCode = status, frHeader = header,
             frBody = (if length respBody > maxForwardResponseBytes
                       then take maxForwardResponseBytes respBody else respBody)\<rparr>))"

definition forwarded_ops :: "GoError + ForwardResponse \<Rightarrow> WriterOp list" where
  "forwarded_ops res =
     (case res of
        Inl err \<Rightarrow> http_Error_err err 502
      | Inr fwd \<Rightarrow>
        concat (map (\<lambda>(key, vals). map (AddHeader key) vals) (frHeader fwd))
        @ [WriteHeader (frStatusCode fwd), Write (Bytes (frBody fwd))])"

subsection \<open>A request in progress\<close>

text \<open>
  \<open>TaskRead key\<close> is the read behind the barrier of \<^verbatim>\<open>handleGet\<close>, \<open>TaskWrite body\<close> a write
  through \<^verbatim>\<open>proposeAndApply\<close> with the body to forward.
\<close>

datatype HttpTask = TaskRead string | TaskWrite bytes

datatype HttpRun =
    HtRole string
  | HtBegin HttpTask bytes
  | HtPropose HttpTask ProposeRun
  | HtApply HttpTask ApplyRun
  | HtGet string
  | HtForward bytes
  | HtRemote ForwardRequest
  | HtLeaderID
  | HtMembers string
  | HtDone "WriterOp list"

datatype HttpEvent =
    HeRun
  | HeBegin "GoError option"
  | HePropose ProposeEvent
  | HeAnswer ForwardAnswer

definition read_error :: "GoError \<Rightarrow> HttpRun" where
  "read_error err =
     HtDone (if is_deadline err then http_Error ''read timed out'' 504
             else if is_not_leader err then http_Error ''not leader'' 409
             else http_Error_err err 500)"

definition write_error :: "bytes \<Rightarrow> GoError \<Rightarrow> HttpRun" where
  "write_error body err =
     (if is_not_leader err then HtForward body
      else HtDone (if is_deadline err then http_Error ''proposal timed out'' 504 else http_Error_err err 500))"

definition not_leader :: HttpRun where
  "not_leader = HtDone (http_Error ''not leader'' 409)"

definition forwardToLeader :: "API \<Rightarrow> HttpRequest \<Rightarrow> bytes \<Rightarrow> 's RaftNode \<Rightarrow> HttpRun" where
  "forwardToLeader api r body n =
     (case apiForwarder api of
        None \<Rightarrow> not_leader
      | Some httpAddrs \<Rightarrow>
        if leaderID n = [] \<or> leaderID n = nid n then not_leader
        else (case Forward httpAddrs (leaderID n) (rqMethod r) (rqPath r) body of
                Inl err \<Rightarrow> HtDone (forwarded_ops (Inl err))
              | Inr req \<Rightarrow> HtRemote req))"

definition proposed :: "HttpTask \<Rightarrow> ProposeRun \<Rightarrow> HttpRun" where
  "proposed task run =
     (case run of
        PrDone entry None \<Rightarrow> HtApply task ApNext
      | PrDone entry (Some err) \<Rightarrow>
        (case task of TaskRead key \<Rightarrow> read_error err | TaskWrite body \<Rightarrow> write_error body err)
      | _ \<Rightarrow> HtPropose task run)"

definition applied :: "HttpTask \<Rightarrow> ApplyRun \<Rightarrow> HttpRun" where
  "applied task run =
     (case run of
        ApDone None \<Rightarrow> (case task of TaskRead key \<Rightarrow> HtGet key | TaskWrite body \<Rightarrow> HtDone [WriteHeader 204])
      | ApDone (Some err) \<Rightarrow>
        (case task of TaskRead key \<Rightarrow> read_error err | TaskWrite body \<Rightarrow> HtDone (http_Error_err err 500))
      | _ \<Rightarrow> HtApply task run)"

definition readBarrier :: "string \<Rightarrow> HttpRun" where
  "readBarrier key =
     (case EncodeCommand \<lparr>cOperation = OperationNoop, cKey = [], cValue = []\<rparr> of
        Inl err \<Rightarrow> read_error err
      | Inr command \<Rightarrow> HtBegin (TaskRead key) command)"

definition found :: "bytes \<times> bool \<Rightarrow> HttpRun" where
  "found r =
     (case r of (value, ok) \<Rightarrow>
        HtDone (if \<not> ok then http_Error ''not found'' 404 else [WriteHeader 200, Write (Bytes value)]))"

definition members_json :: "string \<Rightarrow> string list \<Rightarrow> json" where
  "members_json leader members =
     JObj ((if leader = [] then [] else [(''leader_id'', JStr leader)]) @ [(''members'', JArr (map JStr members))])"

fun http_step ::
  "'s saver \<Rightarrow> ('d, 't) bbolt \<Rightarrow> API \<Rightarrow> HttpRequest \<Rightarrow> HttpEvent \<Rightarrow> HttpRun \<Rightarrow> 's RaftNode \<Rightarrow> 'd KVStateMachine
     \<Rightarrow> (HttpRun \<times> 's RaftNode \<times> 'd KVStateMachine \<times> append_requests) option" where
  "http_step sv bb api r HeRun (HtRole key) n s =
     Some (if state n \<noteq> Leader then HtForward [] else readBarrier key, n, s, [])"
| "http_step sv bb api r (HeBegin ctxErr) (HtBegin task command) n s =
     Some (proposed task (Propose ctxErr command), n, s, [])"
| "http_step sv bb api r (HePropose ev) (HtPropose task run) n s =
     map_option (\<lambda>(run, n, out). (proposed task run, n, s, out))
       (ProposeWithRetryInterval sv (apiAppendClient api) ev run n)"
| "http_step sv bb api r HeRun (HtApply task run) n s =
     map_option (\<lambda>(run, n, s). (applied task run, n, s, [])) (ap_step sv (Apply bb) run n s)"
| "http_step sv bb api r HeRun (HtGet key) n s = Some (found (Get s key), n, s, [])"
| "http_step sv bb api r HeRun (HtForward body) n s = Some (forwardToLeader api r body n, n, s, [])"
| "http_step sv bb api r (HeAnswer ans) (HtRemote req) n s =
     Some (HtDone (forwarded_ops (forward_result ans)), n, s, [])"
| "http_step sv bb api r HeRun HtLeaderID n s = Some (HtMembers (leaderID n), n, s, [])"
| "http_step sv bb api r HeRun (HtMembers leader) n s =
     Some (HtDone [SetHeader ''Content-Type'' ''application/json'',
       Write (Bytes (print_json (members_json leader (Members n)) @ [CHR 0x0A]))], n, s, [])"
| "http_step sv bb api r ev run n s = None"

subsection \<open>The handlers\<close>

definition handleGet :: "string \<Rightarrow> HttpRun" where
  "handleGet key = HtRole key"

definition handlePut :: "HttpRequest \<Rightarrow> string \<Rightarrow> HttpRun" where
  "handlePut r key =
     (case read_all_max maxKVValueBytes (rqBody r) of
        Inl MaxBytesError \<Rightarrow> HtDone (http_Error ''request body too large'' 413)
      | Inl (BodyFailed _) \<Rightarrow> HtDone (http_Error ''read body'' 400)
      | Inr value \<Rightarrow>
        (case EncodeCommand \<lparr>cOperation = OperationPut, cKey = key, cValue = value\<rparr> of
           Inl err \<Rightarrow> HtDone (http_Error_err err 400)
         | Inr command \<Rightarrow> HtBegin (TaskWrite value) command))"

definition handleDelete :: "string \<Rightarrow> HttpRun" where
  "handleDelete key =
     (case EncodeCommand \<lparr>cOperation = OperationDelete, cKey = key, cValue = []\<rparr> of
        Inl err \<Rightarrow> HtDone (http_Error_err err 400)
      | Inr command \<Rightarrow> HtBegin (TaskWrite []) command)"

definition not_allowed :: "string \<Rightarrow> WriterOp list" where
  "not_allowed methods = SetHeader ''Allow'' methods # http_Error ''method not allowed'' 405"

definition handleKV :: "HttpRequest \<Rightarrow> HttpRun" where
  "handleKV r =
     (let key = TrimPrefix (rqPath r) ''/kv/'' in
      if key = [] \<or> ContainsByte key slash then HtDone (http_Error ''invalid key'' 400)
      else if rqMethod r = ''GET'' then handleGet key
      else if rqMethod r = ''PUT'' then handlePut r key
      else if rqMethod r = ''DELETE'' then handleDelete key
      else HtDone (not_allowed ''GET, PUT, DELETE''))"

definition handleClusterMembers :: "HttpRequest \<Rightarrow> HttpRun" where
  "handleClusterMembers r =
     (if rqPath r \<noteq> ''/cluster/members'' then HtDone http_NotFound
      else if rqMethod r \<noteq> ''GET'' then HtDone (not_allowed ''GET'')
      else HtLeaderID)"

definition handleClusterMember :: "HttpRequest \<Rightarrow> HttpRun" where
  "handleClusterMember r =
     (let peerID = TrimPrefix (rqPath r) ''/cluster/members/'';
          propose = (\<lambda>typ. case EncodeMembershipChange \<lparr>mcType = typ, mcPeerID = peerID\<rparr> of
             Inl err \<Rightarrow> HtDone (http_Error_err err 400)
           | Inr command \<Rightarrow> HtBegin (TaskWrite []) command) in
      if peerID = [] \<or> ContainsByte peerID slash then HtDone (http_Error ''invalid member id'' 400)
      else if rqMethod r = ''PUT'' then propose MembershipAddPeer
      else if rqMethod r = ''DELETE'' then propose MembershipRemovePeer
      else HtDone (not_allowed ''PUT, DELETE''))"

datatype ApiHandler = HandleKV | HandleClusterMembers | HandleClusterMember

definition api_patterns :: "(string \<times> ApiHandler) list" where
  "api_patterns =
     [(''/kv/'', HandleKV), (''/cluster/members'', HandleClusterMembers), (''/cluster/members/'', HandleClusterMember)]"

definition api_handler :: "ApiHandler \<Rightarrow> HttpRequest \<Rightarrow> HttpRun" where
  "api_handler h r =
     (case h of
        HandleKV \<Rightarrow> handleKV r
      | HandleClusterMembers \<Rightarrow> handleClusterMembers r
      | HandleClusterMember \<Rightarrow> handleClusterMember r)"

text \<open>A multiplexer as a handler.\<close>

definition serve_mux :: "(string \<times> 'h) list \<Rightarrow> ('h \<Rightarrow> HttpRequest \<Rightarrow> HttpRun) \<Rightarrow> HttpRequest \<Rightarrow> HttpRun" where
  "serve_mux pats handler r =
     (case findHandler pats (rqMethod r) (rqEscaped r) (rqPath r) of
        RouteTo h \<Rightarrow> handler h r
      | RouteRedirect url \<Rightarrow> HtDone (http_Redirect url)
      | RouteNotFound \<Rightarrow> HtDone http_NotFound
      | RouteBadRequest \<Rightarrow> HtDone [WriteHeader 400])"

definition NewHTTPHandlerWithForwarding :: "HttpRequest \<Rightarrow> HttpRun" where
  "NewHTTPHandlerWithForwarding = serve_mux api_patterns api_handler"

end
