(* ===== verification/Metrics.thy ===== *)
theory Metrics
  imports Http
begin

text \<open>
  The instrumentation of \<^verbatim>\<open>observability/metrics.go\<close>.  The counters themselves belong to the
  prometheus library; what the program does is the sequence of its calls on them, so the
  state of \<^verbatim>\<open>Metrics\<close> is the list of the calls made so far.
\<close>

subsection \<open>The metrics\<close>

datatype MetricKind = Counter | Gauge | Histogram

record MetricDesc =
  mdKind :: MetricKind
  mdName :: string
  mdHelp :: string
  mdConstLabels :: "(string \<times> string) list"
  mdLabels :: "string list"

datatype MetricCall =
    IncLeaderElections
  | ObserveReplication string string int
  | SetCommit nat
  | SetTerm nat
  | IncKvRequests string string

record Metrics =
  mNodeID :: string
  mRegistered :: "MetricDesc list"
  mCalls :: "MetricCall list"

definition metric_descs :: "string \<Rightarrow> MetricDesc list" where
  "metric_descs nodeID =
     (let desc = (\<lambda>kind name help labels.
        \<lparr>mdKind = kind, mdName = name, mdHelp = help, mdConstLabels = [(''node'', nodeID)], mdLabels = labels\<rparr>) in
      [desc Counter ''raft_leader_elections_total'' ''Total number of times this node became leader.'' [],
       desc Histogram ''raft_log_replication_latency_seconds''
         ''AppendEntries round-trip latency by peer and result.'' [''peer'', ''result''],
       desc Gauge ''raft_commit_index'' ''Current Raft commit index for this node.'' [],
       desc Gauge ''raft_term_current'' ''Current Raft term for this node.'' [],
       desc Counter ''kv_requests_total'' ''Total HTTP KV API requests by operation and status code.''
         [''operation'', ''status'']])"

text \<open>\<^verbatim>\<open>MustRegister\<close> panics when two metrics have the same name and constant labels.\<close>

definition NewMetrics :: "string \<Rightarrow> Metrics option" where
  "NewMetrics nodeID =
     (if distinct (map (\<lambda>d. (mdName d, mdConstLabels d)) (metric_descs nodeID))
      then Some \<lparr>mNodeID = nodeID, mRegistered = metric_descs nodeID, mCalls = []\<rparr> else None)"

definition call_metric :: "MetricCall \<Rightarrow> Metrics \<Rightarrow> Metrics" where
  "call_metric c m = m\<lparr>mCalls := mCalls m @ [c]\<rparr>"

definition RecordLeaderElection :: "Metrics \<Rightarrow> Metrics" where
  "RecordLeaderElection = call_metric IncLeaderElections"

definition ObserveReplicationLatency :: "string \<Rightarrow> string \<Rightarrow> int \<Rightarrow> Metrics \<Rightarrow> Metrics" where
  "ObserveReplicationLatency peerID result duration = call_metric (ObserveReplication peerID result duration)"

text \<open>
  \<^verbatim>\<open>float64(index)\<close>: the value is rounded to 53 significant bits, to the nearest, ties to
  the even one.
\<close>

fun bit_length :: "nat \<Rightarrow> nat" where
  "bit_length n = (if n = 0 then 0 else Suc (bit_length (n div 2)))"

declare bit_length.simps [simp del]

definition round_half_even :: "nat \<Rightarrow> nat \<Rightarrow> nat" where
  "round_half_even n d =
     (let q = n div d; r = n mod d in
      if 2 * r < d then q else if 2 * r > d then q + 1 else if even q then q else q + 1)"

definition float64_of :: "uint64 \<Rightarrow> nat" where
  "float64_of w = (let n = unat w; d = 2 ^ (bit_length n - 53) in d * round_half_even n d)"

definition SetCommitIndex :: "uint64 \<Rightarrow> Metrics \<Rightarrow> Metrics" where
  "SetCommitIndex index = call_metric (SetCommit (float64_of index))"

definition SetCurrentTerm :: "uint64 \<Rightarrow> Metrics \<Rightarrow> Metrics" where
  "SetCurrentTerm term = call_metric (SetTerm (float64_of term))"

subsection \<open>Instrumented calls\<close>

definition operationForMethod :: "string \<Rightarrow> string" where
  "operationForMethod meth =
     (let m = ToUpper_ascii meth in
      if m = ''GET'' then ''get'' else if m = ''PUT'' then ''put'' else if m = ''DELETE'' then ''delete''
      else ''unknown'')"

text \<open>
  \<^verbatim>\<open>statusRecorder\<close> remembers the last status passed to \<^verbatim>\<open>WriteHeader\<close> and passes every call
  on to the writer it wraps.
\<close>

definition recorder_op :: "WriterOp \<Rightarrow> nat \<Rightarrow> nat" where
  "recorder_op op status = (case op of WriteHeader code \<Rightarrow> code | _ \<Rightarrow> status)"

definition recorder_status :: "WriterOp list \<Rightarrow> nat" where
  "recorder_status ops = fold recorder_op ops 200"

text \<open>
  \<^verbatim>\<open>InstrumentKV\<close> around a handler that has made the calls \<open>ops\<close>: the response is that of the
  calls, and the counter of the operation and the status goes up, unless writing panics.
\<close>

definition InstrumentKV ::
  "HttpRequest \<Rightarrow> WriterOp list \<Rightarrow> Metrics \<Rightarrow> ((nat \<times> (string \<Rightarrow> string list) \<times> Chunk list) \<times> Metrics) option" where
  "InstrumentKV r ops m =
     map_option (\<lambda>resp. (resp, call_metric
       (IncKvRequests (operationForMethod (rqMethod r)) (decimal (recorder_status ops))) m)) (response ops)"

definition InstrumentAppendClient ::
  "(string \<Rightarrow> AppendEntriesRequest \<Rightarrow> GoError + AppendEntriesResponse) \<Rightarrow> int \<Rightarrow> string \<Rightarrow> AppendEntriesRequest
     \<Rightarrow> Metrics \<Rightarrow> (GoError + AppendEntriesResponse) \<times> Metrics" where
  "InstrumentAppendClient next elapsed peerID req m =
     (let res = next peerID req;
          result = (case res of Inl err \<Rightarrow> ''error'' | Inr resp \<Rightarrow> if \<not> aerSuccess resp then ''rejected'' else ''success'')
      in (res, ObserveReplicationLatency peerID result elapsed m))"

end
