(* ===== verification/BoltStore.thy ===== *)
theory BoltStore
  imports Node JsonUtf8 Bbolt
begin

text \<open>
  The stable store of \<^verbatim>\<open>store/bolt_store.go\<close>: Raft's persistent state as one JSON document
  under one key of a bbolt database.  A store whose \<^verbatim>\<open>db\<close> is nil is closed.
\<close>

record 'd BoltRaftStore =
  bsDb :: "'d option"

definition raftBucket :: bytes where "raftBucket = ''raft''"
definition stateKey :: bytes where "stateKey = ''persistent_state''"

subsection \<open>The JSON form\<close>

definition uint64_json :: "uint64 \<Rightarrow> json" where
  "uint64_json w = JNum (decimal (unat w))"

text \<open>
  A nil \<^verbatim>\<open>[]byte\<close> is written as null.  The commands in a saved state come out of
  \<^verbatim>\<open>cloneLog\<close>, where an empty command is nil.
\<close>

definition LogEntry_json :: "LogEntry \<Rightarrow> json" where
  "LogEntry_json e = JObj
     [(''term'', uint64_json (eTerm e)), (''index'', uint64_json (eIndex e)),
      (''command'', if eCommand e = [] then JNull else JStr (b64_encode (eCommand e)))]"

text \<open>Fields marked \<^verbatim>\<open>omitempty\<close> are left out when they are zero, nil or empty.\<close>

definition PersistentState_json :: "PersistentState \<Rightarrow> json" where
  "PersistentState_json st = JObj
     ([(''current_term'', uint64_json (psCurrentTerm st)), (''voted_for'', JStr (psVotedFor st))]
      @ (case psPeers st of None \<Rightarrow> [] | Some ps \<Rightarrow> if ps = [] then [] else [(''peers'', JArr (map JStr ps))])
      @ (case psSelfMember st of None \<Rightarrow> [] | Some b \<Rightarrow> [(''self_member'', JBool b)])
      @ (if psLastIncludedIndex st = 0 then [] else [(''last_included_index'', uint64_json (psLastIncludedIndex st))])
      @ (if psLastIncludedTerm st = 0 then [] else [(''last_included_term'', uint64_json (psLastIncludedTerm st))])
      @ (if psSnapshot st = [] then [] else [(''snapshot'', JStr (b64_encode (psSnapshot st)))])
      @ [(''log'', JArr (map LogEntry_json (psLog st)))])"

definition set_LogEntry :: "string \<Rightarrow> json \<Rightarrow> LogEntry \<Rightarrow> LogEntry option" where
  "set_LogEntry f v e =
     (if f = ''term'' then map_option (\<lambda>w. e\<lparr>eTerm := w\<rparr>) (decode_uint64 v (eTerm e))
      else if f = ''index'' then map_option (\<lambda>w. e\<lparr>eIndex := w\<rparr>) (decode_uint64 v (eIndex e))
      else map_option (\<lambda>b. e\<lparr>eCommand := b\<rparr>) (decode_bytes v))"

definition LogEntry_of_json :: "json \<Rightarrow> LogEntry option" where
  "LogEntry_of_json v = decode_struct [''term'', ''index'', ''command''] set_LogEntry v zeroLogEntry"

text \<open>An array into a fresh slice, element by element; null is the nil slice.\<close>

fun decode_all :: "(json \<Rightarrow> 'a option) \<Rightarrow> json list \<Rightarrow> 'a list option" where
  "decode_all dec [] = Some []"
| "decode_all dec (v # vs) =
     (case dec v of None \<Rightarrow> None | Some x \<Rightarrow> map_option ((#) x) (decode_all dec vs))"

definition decode_slice :: "(json \<Rightarrow> 'a option) \<Rightarrow> json \<Rightarrow> 'a list option option" where
  "decode_slice dec v =
     (case v of JNull \<Rightarrow> Some None | JArr vs \<Rightarrow> map_option Some (decode_all dec vs) | _ \<Rightarrow> None)"

definition decode_bool_ptr :: "json \<Rightarrow> bool option option" where
  "decode_bool_ptr v = (case v of JNull \<Rightarrow> Some None | JBool b \<Rightarrow> Some (Some b) | _ \<Rightarrow> None)"

definition set_PersistentState :: "string \<Rightarrow> json \<Rightarrow> PersistentState \<Rightarrow> PersistentState option" where
  "set_PersistentState f v st =
     (if f = ''current_term'' then
        map_option (\<lambda>w. st\<lparr>psCurrentTerm := w\<rparr>) (decode_uint64 v (psCurrentTerm st))
      else if f = ''voted_for'' then map_option (\<lambda>s. st\<lparr>psVotedFor := s\<rparr>) (decode_string v (psVotedFor st))
      else if f = ''peers'' then
        map_option (\<lambda>ps. st\<lparr>psPeers := ps\<rparr>) (decode_slice (\<lambda>v. decode_string v []) v)
      else if f = ''self_member'' then map_option (\<lambda>b. st\<lparr>psSelfMember := b\<rparr>) (decode_bool_ptr v)
      else if f = ''last_included_index'' then
        map_option (\<lambda>w. st\<lparr>psLastIncludedIndex := w\<rparr>) (decode_uint64 v (psLastIncludedIndex st))
      else if f = ''last_included_term'' then
        map_option (\<lambda>w. st\<lparr>psLastIncludedTerm := w\<rparr>) (decode_uint64 v (psLastIncludedTerm st))
      else if f = ''snapshot'' then map_option (\<lambda>b. st\<lparr>psSnapshot := b\<rparr>) (decode_bytes v)
      else map_option (\<lambda>es. st\<lparr>psLog := slice_elems es\<rparr>) (decode_slice LogEntry_of_json v))"

definition PersistentState_of_json :: "json \<Rightarrow> PersistentState option" where
  "PersistentState_of_json v =
     decode_struct [''current_term'', ''voted_for'', ''peers'', ''self_member'', ''last_included_index'',
       ''last_included_term'', ''snapshot'', ''log''] set_PersistentState v zeroPersistentState"

subsection \<open>The store\<close>

definition init_store :: "('d, 't) bbolt \<Rightarrow> 'd \<Rightarrow> GoError option \<times> 'd" where
  "init_store api db = bbUpdate api db (\<lambda>tx. bbCreateBucketIfNotExists api tx raftBucket)"

text \<open>\<open>opened\<close> is the result of \<^verbatim>\<open>bbolt.Open\<close>.\<close>

definition NewBoltRaftStore :: "('d, 't) bbolt \<Rightarrow> (GoError + 'd) \<Rightarrow> GoError + 'd BoltRaftStore" where
  "NewBoltRaftStore api opened =
     (case opened of
        Inl err \<Rightarrow> Inl err
      | Inr db \<Rightarrow>
        (case init_store api db of
           (Some err, _) \<Rightarrow> Inl err
         | (None, db) \<Rightarrow> Inr \<lparr>bsDb = Some db\<rparr>))"

definition Save :: "('d, 't) bbolt \<Rightarrow> 'd BoltRaftStore \<Rightarrow> PersistentState \<Rightarrow> GoError option \<times> 'd BoltRaftStore" where
  "Save api s st =
     (case bsDb s of
        None \<Rightarrow> (Some (Errorf ''bolt raft store is closed'' []), s)
      | Some db \<Rightarrow>
        (let data = print_json (PersistentState_json st) in
         case bbUpdate api db (\<lambda>tx.
                case bbCreateBucketIfNotExists api tx raftBucket of
                  (Some err, tx) \<Rightarrow> (Some err, tx)
                | (None, tx) \<Rightarrow> bbPut api tx raftBucket stateKey data) of
           (err, db) \<Rightarrow> (err, s\<lparr>bsDb := Some db\<rparr>)))"

definition Load :: "('d, 't) bbolt \<Rightarrow> 'd BoltRaftStore \<Rightarrow> GoError + PersistentState" where
  "Load api s =
     (case bsDb s of
        None \<Rightarrow> Inl (Errorf ''bolt raft store is closed'' [])
      | Some db \<Rightarrow>
        (case bbView api db of
           Inl err \<Rightarrow> Inl err
         | Inr tx \<Rightarrow>
           if \<not> bbBucket api tx raftBucket then Inr zeroPersistentState
           else
             (case bbGet api tx raftBucket stateKey of
                None \<Rightarrow> Inr zeroPersistentState
              | Some data \<Rightarrow>
                (case unmarshal PersistentState_of_json data of
                   None \<Rightarrow> Inl JSONErr
                 | Some st \<Rightarrow> Inr st))))"

end
