(* ===== verification/Grpc.thy ===== *)
theory Grpc
  imports NodeInv
begin

text \<open>
  The gRPC layer: the messages of \<^verbatim>\<open>proto/raft.proto\<close>, the conversions of
  \<^verbatim>\<open>raftgrpc/convert.go\<close>, the server of \<^verbatim>\<open>raftgrpc/server.go\<close> and the client of
  \<^verbatim>\<open>raftgrpc/client.go\<close>.

  A message is handled through a pointer, and its getters give the zero value on a nil
  pointer; a pointer is an option.  What the transport does with a message (the generated
  stub and gRPC itself) is a parameter of the client.
\<close>

subsection \<open>Messages\<close>

record PbLogEntry =
  pleTerm :: uint64
  pleIndex :: uint64
  pleCommand :: bytes

record PbVoteRequest =
  pvqTerm :: uint64
  pvqCandidateId :: string
  pvqLastLogIndex :: uint64
  pvqLastLogTerm :: uint64

record PbVoteResponse =
  pvsTerm :: uint64
  pvsVoteGranted :: bool

record PbAppendRequest =
  paqTerm :: uint64
  paqLeaderId :: string
  paqPrevLogIndex :: uint64
  paqPrevLogTerm :: uint64
  paqEntries :: "PbLogEntry option list"
  paqLeaderCommit :: uint64

record PbAppendResponse =
  pasTerm :: uint64
  pasSuccess :: bool

text \<open>A getter on a pointer.\<close>

definition pb_get :: "('m \<Rightarrow> 'a) \<Rightarrow> 'a \<Rightarrow> 'm option \<Rightarrow> 'a" where
  "pb_get field zero msg = (case msg of None \<Rightarrow> zero | Some m \<Rightarrow> field m)"

lemma pb_get_simps [simp]: "pb_get f z None = z" "pb_get f z (Some m) = f m"
  by (simp_all add: pb_get_def)

subsection \<open>Conversions\<close>

definition toProtoRequestVoteRequest :: "RequestVoteRequest \<Rightarrow> PbVoteRequest" where
  "toProtoRequestVoteRequest req =
     \<lparr>pvqTerm = rvTerm req, pvqCandidateId = rvCandidateID req,
      pvqLastLogIndex = rvLastLogIndex req, pvqLastLogTerm = rvLastLogTerm req\<rparr>"

definition fromProtoRequestVoteRequest :: "PbVoteRequest option \<Rightarrow> RequestVoteRequest" where
  "fromProtoRequestVoteRequest req =
     \<lparr>rvTerm = pb_get pvqTerm 0 req, rvCandidateID = pb_get pvqCandidateId [] req,
      rvLastLogIndex = pb_get pvqLastLogIndex 0 req, rvLastLogTerm = pb_get pvqLastLogTerm 0 req\<rparr>"

definition toProtoRequestVoteResponse :: "RequestVoteResponse \<Rightarrow> PbVoteResponse" where
  "toProtoRequestVoteResponse resp = \<lparr>pvsTerm = rvrTerm resp, pvsVoteGranted = rvrVoteGranted resp\<rparr>"

definition fromProtoRequestVoteResponse :: "PbVoteResponse option \<Rightarrow> RequestVoteResponse" where
  "fromProtoRequestVoteResponse resp =
     \<lparr>rvrTerm = pb_get pvsTerm 0 resp, rvrVoteGranted = pb_get pvsVoteGranted False resp\<rparr>"

definition toProtoPreVoteRequest :: "PreVoteRequest \<Rightarrow> PbVoteRequest" where
  "toProtoPreVoteRequest req =
     \<lparr>pvqTerm = pvTerm req, pvqCandidateId = pvCandidateID req,
      pvqLastLogIndex = pvLastLogIndex req, pvqLastLogTerm = pvLastLogTerm req\<rparr>"

definition fromProtoPreVoteRequest :: "PbVoteRequest option \<Rightarrow> PreVoteRequest" where
  "fromProtoPreVoteRequest req =
     \<lparr>pvTerm = pb_get pvqTerm 0 req, pvCandidateID = pb_get pvqCandidateId [] req,
      pvLastLogIndex = pb_get pvqLastLogIndex 0 req, pvLastLogTerm = pb_get pvqLastLogTerm 0 req\<rparr>"

definition toProtoPreVoteResponse :: "PreVoteResponse \<Rightarrow> PbVoteResponse" where
  "toProtoPreVoteResponse resp = \<lparr>pvsTerm = pvrTerm resp, pvsVoteGranted = pvrVoteGranted resp\<rparr>"

definition fromProtoPreVoteResponse :: "PbVoteResponse option \<Rightarrow> PreVoteResponse" where
  "fromProtoPreVoteResponse resp =
     \<lparr>pvrTerm = pb_get pvsTerm 0 resp, pvrVoteGranted = pb_get pvsVoteGranted False resp\<rparr>"

definition toProtoLogEntries :: "LogEntry list \<Rightarrow> PbLogEntry option list" where
  "toProtoLogEntries entries =
     map (\<lambda>e. Some \<lparr>pleTerm = eTerm e, pleIndex = eIndex e, pleCommand = eCommand e\<rparr>) entries"

definition fromProtoLogEntries :: "PbLogEntry option list \<Rightarrow> LogEntry list" where
  "fromProtoLogEntries entries =
     map (\<lambda>e. \<lparr>eTerm = pb_get pleTerm 0 e, eIndex = pb_get pleIndex 0 e, eCommand = pb_get pleCommand [] e\<rparr>) entries"

definition toProtoAppendEntriesRequest :: "AppendEntriesRequest \<Rightarrow> PbAppendRequest" where
  "toProtoAppendEntriesRequest req =
     \<lparr>paqTerm = aeTerm req, paqLeaderId = aeLeaderID req, paqPrevLogIndex = aePrevLogIndex req,
      paqPrevLogTerm = aePrevLogTerm req, paqEntries = toProtoLogEntries (aeEntries req),
      paqLeaderCommit = aeLeaderCommit req\<rparr>"

definition fromProtoAppendEntriesRequest :: "PbAppendRequest option \<Rightarrow> AppendEntriesRequest" where
  "fromProtoAppendEntriesRequest req =
     \<lparr>aeTerm = pb_get paqTerm 0 req, aeLeaderID = pb_get paqLeaderId [] req,
      aePrevLogIndex = pb_get paqPrevLogIndex 0 req, aePrevLogTerm = pb_get paqPrevLogTerm 0 req,
      aeEntries = fromProtoLogEntries (pb_get paqEntries [] req),
      aeLeaderCommit = pb_get paqLeaderCommit 0 req\<rparr>"

definition toProtoAppendEntriesResponse :: "AppendEntriesResponse \<Rightarrow> PbAppendResponse" where
  "toProtoAppendEntriesResponse resp = \<lparr>pasTerm = aerTerm resp, pasSuccess = aerSuccess resp\<rparr>"

definition fromProtoAppendEntriesResponse :: "PbAppendResponse option \<Rightarrow> AppendEntriesResponse" where
  "fromProtoAppendEntriesResponse resp =
     \<lparr>aerTerm = pb_get pasTerm 0 resp, aerSuccess = pb_get pasSuccess False resp\<rparr>"

subsection \<open>The server\<close>

definition Server_RequestVote ::
  "'s saver \<Rightarrow> 's RaftNode \<Rightarrow> PbVoteRequest option \<Rightarrow> (GoError + PbVoteResponse) \<times> 's RaftNode" where
  "Server_RequestVote sv n req =
     (case RequestVote sv n (fromProtoRequestVoteRequest req) of
        (resp, Some err, n) \<Rightarrow> (Inl err, n)
      | (resp, None, n) \<Rightarrow> (Inr (toProtoRequestVoteResponse resp), n))"

definition Server_PreVote :: "'s RaftNode \<Rightarrow> PbVoteRequest option \<Rightarrow> GoError + PbVoteResponse" where
  "Server_PreVote n req =
     (case PreVote n (fromProtoPreVoteRequest req) of
        (resp, Some err) \<Rightarrow> Inl err
      | (resp, None) \<Rightarrow> Inr (toProtoPreVoteResponse resp))"

text \<open>
  The reset channel of the election timer: \<^const>\<open>None\<close> is nil, otherwise whether its one
  slot is taken.  The send never blocks.
\<close>

definition notifyAppendReset :: "bool option \<Rightarrow> bool option" where
  "notifyAppendReset appendReset = map_option (\<lambda>_. True) appendReset"

definition Server_AppendEntries ::
  "'s saver \<Rightarrow> 's RaftNode \<Rightarrow> bool option \<Rightarrow> PbAppendRequest option
     \<Rightarrow> ((GoError + PbAppendResponse) \<times> 's RaftNode \<times> bool option) option" where
  "Server_AppendEntries sv n appendReset req =
     (case HandleAppendEntries sv n (fromProtoAppendEntriesRequest req) of
        None \<Rightarrow> None
      | Some (resp, Some err, n) \<Rightarrow> Some (Inl err, n, appendReset)
      | Some (resp, None, n) \<Rightarrow>
        Some (Inr (toProtoAppendEntriesResponse resp), n,
              if aerSuccess resp then notifyAppendReset appendReset else appendReset))"

subsection \<open>The client\<close>

text \<open>A stub sends a message to one peer; the client finds the stub by the peer's id.\<close>

type_synonym ('q, 'r) stub = "'q \<Rightarrow> GoError + 'r"

definition peer_call ::
  "('a \<Rightarrow> 'q) \<Rightarrow> ('r option \<Rightarrow> 'b) \<Rightarrow> (string \<rightharpoonup> ('q, 'r) stub) \<Rightarrow> string \<Rightarrow> 'a \<Rightarrow> GoError + 'b" where
  "peer_call to_proto from_proto clients peerID req =
     (case clients peerID of
        None \<Rightarrow> Inl (Errorf ''unknown peer %s'' [peerID])
      | Some call \<Rightarrow>
        (case call (to_proto req) of
           Inl err \<Rightarrow> Inl err
         | Inr resp \<Rightarrow> Inr (from_proto (Some resp))))"

definition PeerClient_RequestVote ::
  "(string \<rightharpoonup> (PbVoteRequest, PbVoteResponse) stub) \<Rightarrow> string \<Rightarrow> RequestVoteRequest
     \<Rightarrow> GoError + RequestVoteResponse" where
  "PeerClient_RequestVote = peer_call toProtoRequestVoteRequest fromProtoRequestVoteResponse"

definition PeerClient_PreVote ::
  "(string \<rightharpoonup> (PbVoteRequest, PbVoteResponse) stub) \<Rightarrow> string \<Rightarrow> PreVoteRequest
     \<Rightarrow> GoError + PreVoteResponse" where
  "PeerClient_PreVote = peer_call toProtoPreVoteRequest fromProtoPreVoteResponse"

definition PeerClient_AppendEntries ::
  "(string \<rightharpoonup> (PbAppendRequest, PbAppendResponse) stub) \<Rightarrow> string \<Rightarrow> AppendEntriesRequest
     \<Rightarrow> GoError + AppendEntriesResponse" where
  "PeerClient_AppendEntries = peer_call toProtoAppendEntriesRequest fromProtoAppendEntriesResponse"

subsection \<open>Set-up\<close>

text \<open>
  A server is the node it serves, which is passed along as state, and its reset channel.
\<close>

definition NewServer :: "bool option" where
  "NewServer = None"

definition NewServerWithAppendReset :: "bool \<Rightarrow> bool option" where
  "NewServerWithAppendReset appendReset = Some appendReset"

text \<open>
  Dialing: \<open>dial\<close> is \<^verbatim>\<open>grpc.NewClient\<close> on an address, and the peers come in the order in
  which the map is ranged over.  The result is the error with the connections that were opened before it,
  all of them closed again, or the clients with the connections to close later.
\<close>

definition closeConnections :: "('c \<Rightarrow> GoError option) \<Rightarrow> 'c list \<Rightarrow> GoError list" where
  "closeConnections close conns = List.map_filter close conns"

fun dial_loop ::
  "(string \<Rightarrow> GoError + 'c) \<Rightarrow> (string \<times> string) list \<Rightarrow> 'c list \<Rightarrow> (string \<rightharpoonup> 'c)
     \<Rightarrow> (GoError \<times> 'c list) + ((string \<rightharpoonup> 'c) \<times> 'c list)" where
  "dial_loop dial [] conns clients = Inr (clients, conns)"
| "dial_loop dial ((i, addr) # ps) conns clients =
     (case dial addr of
        Inl err \<Rightarrow> Inl (Wrapf ''dial peer %s at %s: %w'' [i, addr] err, conns)
      | Inr conn \<Rightarrow> dial_loop dial ps (conns @ [conn]) (clients(i \<mapsto> conn)))"

definition DialPeerClient ::
  "(string \<Rightarrow> GoError + 'c) \<Rightarrow> (string \<times> string) list \<Rightarrow> (GoError \<times> 'c list) + ((string \<rightharpoonup> 'c) \<times> 'c list)" where
  "DialPeerClient dial peerAddrs = dial_loop dial peerAddrs [] Map.empty"

lemma dial_loop_clients:
  "dial_loop dial ps conns clients = Inr (cl, cs) \<Longrightarrow>
     dom cl = dom clients \<union> fst ` set ps \<and> (\<exists>new. cs = conns @ new \<and> length new = length ps)"
proof (induction ps arbitrary: conns clients)
  case (Cons p ps)
  obtain i addr where p: "p = (i, addr)" by (cases p)
  then obtain conn where c: "dial addr = Inr conn" using Cons.prems by (cases "dial addr") auto
  then have "dial_loop dial ps (conns @ [conn]) (clients(i \<mapsto> conn)) = Inr (cl, cs)" using Cons.prems p by simp
  from Cons.IH [OF this] show ?case using p by auto
qed simp

text \<open>Every peer can be called once dialing has succeeded.\<close>

lemma DialPeerClient_clients:
  "DialPeerClient dial ps = Inr (cl, cs) \<Longrightarrow> dom cl = fst ` set ps \<and> length cs = length ps"
  using dial_loop_clients [of dial ps "[]" Map.empty cl cs] by (auto simp: DialPeerClient_def)

subsection \<open>The layer is transparent\<close>

text \<open>
  The contract of a pair of conversions, and of the two pairs of one RPC.  A call whose
  stub hands the message to the server's handler gives what a direct call of the handler
  gives.
\<close>

locale proto_message =
  fixes to_proto :: "'a \<Rightarrow> 'q" and from_proto :: "'q option \<Rightarrow> 'a"
  assumes from_to: "from_proto (Some (to_proto x)) = x"
begin

lemma to_proto_inj: "to_proto x = to_proto y \<Longrightarrow> x = y"
  by (metis from_to)

end

locale proto_rpc = req: proto_message to_q from_q + resp: proto_message to_r from_r
  for to_q :: "'a \<Rightarrow> 'q" and from_q and to_r :: "'b \<Rightarrow> 'r" and from_r
begin

lemma call_served:
  assumes "clients p = Some (\<lambda>q. map_sum id to_r (handler (from_q (Some q))))"
  shows "peer_call to_q from_r clients p x = handler x"
  using assms by (cases "handler x") (simp_all add: peer_call_def req.from_to resp.from_to)

lemma call_unknown: "clients p = None \<Longrightarrow> \<exists>err. peer_call to_q from_r clients p x = Inl err"
  by (simp add: peer_call_def)

end

interpretation vote_rpc: proto_rpc toProtoRequestVoteRequest fromProtoRequestVoteRequest
    toProtoRequestVoteResponse fromProtoRequestVoteResponse
  by unfold_locales
    (simp_all add: toProtoRequestVoteRequest_def fromProtoRequestVoteRequest_def
      toProtoRequestVoteResponse_def fromProtoRequestVoteResponse_def)

interpretation prevote_rpc: proto_rpc toProtoPreVoteRequest fromProtoPreVoteRequest
    toProtoPreVoteResponse fromProtoPreVoteResponse
  by unfold_locales
    (simp_all add: toProtoPreVoteRequest_def fromProtoPreVoteRequest_def
      toProtoPreVoteResponse_def fromProtoPreVoteResponse_def)

lemma LogEntries_from_to: "fromProtoLogEntries (toProtoLogEntries es) = es"
  by (induction es) (simp_all add: fromProtoLogEntries_def toProtoLogEntries_def)

interpretation append_rpc: proto_rpc toProtoAppendEntriesRequest fromProtoAppendEntriesRequest
    toProtoAppendEntriesResponse fromProtoAppendEntriesResponse
  by unfold_locales
    (simp_all add: toProtoAppendEntriesRequest_def fromProtoAppendEntriesRequest_def LogEntries_from_to
      toProtoAppendEntriesResponse_def fromProtoAppendEntriesResponse_def)

end
