(* ===== verification/NodeMain.thy ===== *)
theory NodeMain
  imports Metrics BoltStore Grpc
begin

text \<open>
  The process of \<^verbatim>\<open>cmd/node/main.go\<close>: the peer flags, the start from the two databases, the
  routes of its HTTP server, the loops it runs beside the node's own, and how it ends.
\<close>

subsection \<open>Peer flags\<close>

fun parse_loop ::
  "string list \<Rightarrow> string list \<Rightarrow> (string \<rightharpoonup> string) \<Rightarrow> GoError + (string list \<times> (string \<rightharpoonup> string))" where
  "parse_loop [] ids addrs = Inr (ids, addrs)"
| "parse_loop (rawPeer # rest) ids addrs =
     (let parts = SplitN2 (TrimSpace rawPeer) (CHR ''='') in
      if length parts \<noteq> 2 \<or> TrimSpace (parts ! 0) = [] \<or> TrimSpace (parts ! 1) = []
      then Inl (Errorf ''invalid peer %q, want id=address'' [rawPeer])
      else
        (let i = TrimSpace (parts ! 0); addr = TrimSpace (parts ! 1) in
         if addrs i \<noteq> None then Inl (Errorf ''duplicate peer id %q'' [i])
         else parse_loop rest (ids @ [i]) (addrs(i \<mapsto> addr))))"

definition parsePeers :: "string \<Rightarrow> GoError + (string list \<times> (string \<rightharpoonup> string))" where
  "parsePeers value =
     (if TrimSpace value = [] then Inr ([], Map.empty)
      else parse_loop (Split value (CHR '','')) [] Map.empty)"

subsection \<open>Start\<close>

record Flags =
  flId :: string
  flRaftAddr :: string
  flHttpAddr :: string
  flPeers :: string
  flPeerHTTP :: string
  flData :: string
  flKVData :: string

definition default_flags :: Flags where
  "default_flags =
     \<lparr>flId = [], flRaftAddr = '':9001'', flHttpAddr = '':8080'', flPeers = [], flPeerHTTP = [], flData = [], flKVData = []\<rparr>"

text \<open>
  The operating system and the libraries as the start meets them: creating a directory,
  opening a database file, listening on an address, dialing a peer.
\<close>

record ('d, 'c) Env =
  envMkdirAll :: "string \<Rightarrow> GoError option"
  envOpen :: "string \<Rightarrow> GoError + 'd"
  envListen :: "string \<Rightarrow> GoError option"
  envDial :: "string \<Rightarrow> GoError + 'c"

record ('d, 'c) Started =
  stNode :: "'d BoltRaftStore RaftNode"
  stMachine :: "'d KVStateMachine"
  stMetrics :: Metrics
  stClients :: "string \<rightharpoonup> 'c"
  stAPI :: API
  stReset :: "bool option"

definition data_path :: "Flags \<Rightarrow> string" where
  "data_path f = (if flData f = [] then path_Join ''data'' (flId f @ ''.db'') else flData f)"

definition kv_data_path :: "Flags \<Rightarrow> string" where
  "kv_data_path f = (if flKVData f = [] then path_Join ''data'' (flId f @ ''-kv.db'') else flKVData f)"

definition start_node :: "('d, 't) bbolt \<Rightarrow> ('d, 'c) Env \<Rightarrow> Flags \<Rightarrow> string list \<Rightarrow> GoError + 'd BoltRaftStore RaftNode" where
  "start_node bb env f peerIDs =
     (case envMkdirAll env (path_Dir (data_path f)) of
        Some err \<Rightarrow> Inl (Wrapf ''create data dir: %w'' [] err)
      | None \<Rightarrow>
        (case NewBoltRaftStore bb (envOpen env (data_path f)) of
           Inl err \<Rightarrow> Inl (Wrapf ''open raft store: %w'' [] err)
         | Inr stableStore \<Rightarrow>
           (case NewRaftNode (Load bb) (flId f) peerIDs (Some stableStore) of
              Inl err \<Rightarrow> Inl (Wrapf ''create raft node: %w'' [] err)
            | Inr node \<Rightarrow> Inr node)))"

definition start_machine :: "('d, 't) bbolt \<Rightarrow> ('d, 'c) Env \<Rightarrow> Flags \<Rightarrow> bytes \<Rightarrow> GoError + 'd KVStateMachine" where
  "start_machine bb env f snap =
     (case envMkdirAll env (path_Dir (kv_data_path f)) of
        Some err \<Rightarrow> Inl (Wrapf ''create kv data dir: %w'' [] err)
      | None \<Rightarrow>
        (case envOpen env (kv_data_path f) of
           Inl err \<Rightarrow> Inl (Wrapf ''open kv store: %w'' [] err)
         | Inr db \<Rightarrow>
           (case NewBoltKVStateMachine bb (Some db) of
              Inl err \<Rightarrow> Inl (Wrapf ''create kv state machine: %w'' [] err)
            | Inr machine \<Rightarrow>
              if length snap > 0 then
                (case RestoreSnapshot bb machine snap of
                   (Some err, _) \<Rightarrow> Inl (Wrapf ''restore kv snapshot: %w'' [] err)
                 | (None, machine) \<Rightarrow> Inr machine)
              else Inr machine)))"

text \<open>
  \<^verbatim>\<open>run\<close> up to the point where its goroutines start; \<^const>\<open>None\<close> is a panic.
\<close>

definition run_start :: "('d, 't) bbolt \<Rightarrow> ('d, 'c) Env \<Rightarrow> Flags \<Rightarrow> (GoError + ('d, 'c) Started) option" where
  "run_start bb env f =
     (if flId f = [] then Some (Inl (Errorf ''missing required --id'' []))
      else
        (case parsePeers (flPeers f) of
           Inl err \<Rightarrow> Some (Inl err)
         | Inr (peerIDs, peerAddrs) \<Rightarrow>
           (case parsePeers (flPeerHTTP f) of
              Inl err \<Rightarrow> Some (Inl (Wrapf ''parse peer HTTP addresses: %w'' [] err))
            | Inr (_, peerHTTPAddrs) \<Rightarrow>
              (case start_node bb env f peerIDs of
                 Inl err \<Rightarrow> Some (Inl err)
               | Inr node \<Rightarrow>
                 (case start_machine bb env f (snapshot node) of
                    Inl err \<Rightarrow> Some (Inl err)
                  | Inr machine \<Rightarrow>
                    (case NewMetrics (flId f) of
                       None \<Rightarrow> None
                     | Some metrics \<Rightarrow>
                       (case envListen env (flRaftAddr f) of
                          Some err \<Rightarrow> Some (Inl (Wrapf ''listen on %s: %w'' [flRaftAddr f] err))
                        | None \<Rightarrow>
                          (case DialPeerClient (envDial env) (map (\<lambda>i. (i, case peerAddrs i of None \<Rightarrow> [] | Some a \<Rightarrow> a)) peerIDs) of
                             Inl (err, _) \<Rightarrow> Some (Inl err)
                           | Inr (clients, _) \<Rightarrow>
                             Some (Inr \<lparr>stNode = node, stMachine = machine, stMetrics = metrics, stClients = clients,
                               stAPI = NewAPI True (NewLeaderForwarder (flId f) peerHTTPAddrs),
                               stReset = NewServerWithAppendReset False\<rparr>)))))))))"

subsection \<open>Routes\<close>

datatype ProcessHandler = HandleAPI | HandleMetrics

definition process_patterns :: "(string \<times> ProcessHandler) list" where
  "process_patterns = [(''/kv/'', HandleAPI), (''/metrics'', HandleMetrics)]"

text \<open>\<open>metrics_page\<close> is the handler of the prometheus library.\<close>

definition process_handler :: "WriterOp list \<Rightarrow> ProcessHandler \<Rightarrow> HttpRequest \<Rightarrow> HttpRun" where
  "process_handler metrics_page h r =
     (case h of HandleAPI \<Rightarrow> NewHTTPHandlerWithForwarding r | HandleMetrics \<Rightarrow> HtDone metrics_page)"

definition serve_process :: "WriterOp list \<Rightarrow> HttpRequest \<Rightarrow> HttpRun" where
  "serve_process metrics_page = serve_mux process_patterns (process_handler metrics_page)"

subsection \<open>The apply loop\<close>

definition snapshotThresholdEntries :: uint64 where
  "snapshotThresholdEntries = 64"

text \<open>
  \<open>AlShould\<close> is the test of the threshold, \<open>AlSnapshot\<close> the snapshot of the state machine and
  \<open>AlCompact\<close> the call of \<^verbatim>\<open>Compact\<close> with it: three sections, with others running between them.
\<close>

datatype LoopRun =
    AlApply ApplyRun
  | AlShould
  | AlSnapshot
  | AlCompact bytes
  | AlWait
  | AlStopped "GoError option"

datatype LoopEvent = AlRun | AlReady | AlCancel GoError

fun al_applied :: "ApplyRun \<Rightarrow> LoopRun" where
  "al_applied (ApDone None) = AlShould"
| "al_applied (ApDone (Some err)) = AlStopped (Some err)"
| "al_applied r = AlApply r"

fun applyCommittedLoop ::
  "'s saver \<Rightarrow> ('d, 't) bbolt \<Rightarrow> LoopEvent \<Rightarrow> LoopRun \<Rightarrow> 's RaftNode \<Rightarrow> 'd KVStateMachine
     \<Rightarrow> (LoopRun \<times> 's RaftNode \<times> 'd KVStateMachine) option" where
  "applyCommittedLoop sv bb AlRun (AlApply r) n s =
     map_option (\<lambda>(r, n, s). (al_applied r, n, s)) (ap_step sv (Apply bb) r n s)"
| "applyCommittedLoop sv bb AlRun AlShould n s =
     Some (if ShouldSnapshot n snapshotThresholdEntries then AlSnapshot else AlWait, n, s)"
| "applyCommittedLoop sv bb AlRun AlSnapshot n s = Some (AlCompact (Snapshot s), n, s)"
| "applyCommittedLoop sv bb AlRun (AlCompact snap) n s =
     map_option (\<lambda>(err, n). (if err \<noteq> None then AlStopped err else AlWait, n, s)) (Compact sv n snap)"
| "applyCommittedLoop sv bb (AlCancel err) AlWait n s = Some (AlStopped (Some err), n, s)"
| "applyCommittedLoop sv bb AlReady AlWait n s =
     (if commitReady n then Some (AlApply ApNext, n\<lparr>commitReady := False\<rparr>, s) else None)"
| "applyCommittedLoop sv bb ev r n s = None"

subsection \<open>The state logger\<close>

text \<open>
  On every tick the node is read four times, each under its own lock, and the metrics are
  set.  The zero value of the Go type of states is none of its three values.
\<close>

record LogSeen =
  lsTerm :: uint64
  lsState :: "State option"
  lsVote :: string

datatype LogRun =
    LgWait
  | LgTerm
  | LgState uint64
  | LgVote uint64 State
  | LgCommit uint64 State string
  | LgStopped

datatype LogEvent = LgTick | LgRun | LgCancel

definition log_start :: LogSeen where
  "log_start = \<lparr>lsTerm = 0, lsState = None, lsVote = []\<rparr>"

definition log_change :: "uint64 \<Rightarrow> State \<Rightarrow> string \<Rightarrow> LogSeen \<Rightarrow> Metrics \<Rightarrow> LogSeen \<times> Metrics" where
  "log_change term st vote seen m =
     (if term \<noteq> lsTerm seen \<or> Some st \<noteq> lsState seen \<or> vote \<noteq> lsVote seen
      then (\<lparr>lsTerm = term, lsState = Some st, lsVote = vote\<rparr>,
            if st = Leader \<and> lsState seen \<noteq> Some Leader then RecordLeaderElection m else m)
      else (seen, m))"

fun logNodeState ::
  "LogEvent \<Rightarrow> LogRun \<Rightarrow> LogSeen \<Rightarrow> 's RaftNode \<Rightarrow> Metrics \<Rightarrow> (LogRun \<times> LogSeen \<times> Metrics) option" where
  "logNodeState LgCancel LgWait seen n m = Some (LgStopped, seen, m)"
| "logNodeState LgTick LgWait seen n m = Some (LgTerm, seen, m)"
| "logNodeState LgRun LgTerm seen n m = Some (LgState (currentTerm n), seen, m)"
| "logNodeState LgRun (LgState term) seen n m = Some (LgVote term (state n), seen, m)"
| "logNodeState LgRun (LgVote term st) seen n m =
     Some (LgCommit term st (votedFor n), seen, SetCurrentTerm term m)"
| "logNodeState LgRun (LgCommit term st vote) seen n m =
     (case log_change term st vote seen (SetCommitIndex (commitIndex n) m) of (seen, m) \<Rightarrow> Some (LgWait, seen, m))"
| "logNodeState ev r seen n m = None"

subsection \<open>The end of the process\<close>

text \<open>
  The first of the events \<^verbatim>\<open>run\<close> waits for decides what it returns.
\<close>

datatype ExitEvent =
    ExitSignal
  | ExitServer "GoError option"
  | ExitHTTP "GoError option"
  | ExitLoop "GoError option"

fun is_canceled :: "GoError \<Rightarrow> bool" where
  "is_canceled CtxCanceled = True"
| "is_canceled (Wrapf _ _ err) = is_canceled err"
| "is_canceled _ = False"

definition run_exit :: "ExitEvent \<Rightarrow> GoError option" where
  "run_exit ev =
     (case ev of
        ExitSignal \<Rightarrow> None
      | ExitServer err \<Rightarrow> map_option (Wrapf ''raft grpc server: %w'' []) err
      | ExitHTTP err \<Rightarrow> map_option (Wrapf ''http server: %w'' []) err
      | ExitLoop err \<Rightarrow> (case err of None \<Rightarrow> None | Some e \<Rightarrow> if is_canceled e then None else Some e))"

end
