(* ===== verification/Goroutines.thy ===== *)
theory Goroutines
  imports NodeOps NodeMain
begin

text \<open>
  The goroutines of the process act on the node through the operations of the theory of
  node operations: every step of an election, of the heartbeat loop, of a proposal, of an
  HTTP request and of the apply loop is one such operation that meets its precondition, or
  leaves the node as it is.  So what is proved of sequences of operations holds of every
  interleaving of the goroutines.
\<close>

definition by_op :: "'s saver \<Rightarrow> 's RaftNode \<Rightarrow> 's RaftNode \<Rightarrow> bool" where
  "by_op sv n n' =
     (n' = n \<or> n' = n\<lparr>commitReady := False\<rparr> \<or> (\<exists>op. op_ok n op \<and> node_op sv op n = Some n'))"

lemma by_op_refl [simp, intro]: "by_op sv n n"
  by (simp add: by_op_def)

lemma by_opI: "node_op sv op n = Some n' \<Longrightarrow> op_ok n op \<Longrightarrow> by_op sv n n'"
  by (auto simp: by_op_def)

text \<open>Room for one more entry and one more term: no counter of the node is about to wrap around.\<close>

definition roomy :: "'s RaftNode \<Rightarrow> bool" where
  "roomy n = (has_room n \<and> unat (currentTerm n) + 1 < 2 ^ 64)"

text \<open>The critical sections that write.\<close>

lemma stepDown_by_op: "stepDownForHigherTerm sv n t = (b, err, n') \<Longrightarrow> by_op sv n n'"
  by (rule by_opI [of sv "OpStepDown t"]) simp_all

lemma promote_by_op: "promoteCandidate sv n t = Some (won, err, n') \<Longrightarrow> by_op sv n n'"
  by (rule by_opI [of sv "OpPromote t"]) simp_all

lemma ensure_by_op: "ensureLeaderProgress n = Some n' \<Longrightarrow> by_op sv n n'"
  by (rule by_opI [of sv OpEnsure]) simp_all

lemma matched_by_op: "RecordReplicationSuccess n p k = Some (err, n') \<Longrightarrow> by_op sv n n'"
  by (rule by_opI [of sv "OpMatched p k"]) simp_all

lemma mismatch_by_op: "RecordReplicationFailure n p = Some (err, n') \<Longrightarrow> by_op sv n n'"
  by (rule by_opI [of sv "OpMismatch p"]) simp_all

lemma local_by_op: "AppendLocal sv n c = Some (e, err, n') \<Longrightarrow> roomy n \<Longrightarrow> by_op sv n n'"
  by (rule by_opI [of sv "OpLocal c"]) (simp_all add: roomy_def)

lemma change_by_op:
  "applyCommittedMembershipChange sv n c i = Some (err, n') \<Longrightarrow> ap_ok n (ApChange c i) \<Longrightarrow> by_op sv n n'"
  by (rule by_opI [of sv "OpChange c i"]) simp_all

lemma mark_by_op: "ap_ok n (ApMark e) \<Longrightarrow> by_op sv n (markApplied n (eIndex e))"
  by (rule by_opI [of sv "OpApplied (eIndex e)"]) simp_all

lemma compact_by_op: "Compact sv n snap = Some (err, n') \<Longrightarrow> by_op sv n n'"
  by (rule by_opI [of sv "OpCompact snap"]) simp_all

lemmas section_by_op =
  stepDown_by_op promote_by_op ensure_by_op matched_by_op mismatch_by_op local_by_op change_by_op compact_by_op

subsection \<open>Elections\<close>

lemma pv_step_by_op: "pv_step sv ev r n = Some (r', n', out) \<Longrightarrow> by_op sv n n'"
  by (cases "(sv, ev, r, n)" rule: pv_step.cases)
    (auto simp: Let_def split: if_splits sum.splits prod.splits dest: stepDown_by_op)

lemma el_step_by_op:
  assumes "el_step sv ev r n = Some (r', n', out)" and "roomy n"
  shows "by_op sv n n'"
proof (cases "r = ElBecome")
  case True
  then have "ev = VoteEvent Run" using assms(1) by (cases "(sv, ev, r, n)" rule: el_step.cases) auto
  then have "n' = snd (BecomeCandidate sv n)"
    using assms(1) True by (auto split: prod.splits)
  then show ?thesis using assms(2) by (intro by_opI [of sv OpCandidate]) (simp_all add: roomy_def)
next
  case False
  then show ?thesis using assms(1)
    by (cases "(sv, ev, r, n)" rule: el_step.cases)
      (auto simp: Let_def split: if_splits sum.splits prod.splits dest: section_by_op pv_step_by_op)
qed

lemma timer_by_op:
  assumes "RunElectionTimer sv client ev r n = Some (r', n', out)" and "roomy n"
  shows "by_op sv n n'"
  using assms by (cases "(sv, client, ev, r, n)" rule: RunElectionTimer.cases) (auto dest: el_step_by_op)

subsection \<open>Replication and proposals\<close>

lemma replicateOnce_by_op: "replicateOnce sv stop ev r n = Some (r', n', out) \<Longrightarrow> by_op sv n n'"
  by (cases "(sv, stop, ev, r, n)" rule: replicateOnce.cases)
    (auto simp: Let_def split: if_splits option.splits sum.splits prod.splits list.splits dest: section_by_op)

lemma heartbeat_by_op: "RunHeartbeatLoop sv ev r n = Some (r', n', out) \<Longrightarrow> by_op sv n n'"
  by (cases "(sv, ev, r, n)" rule: RunHeartbeatLoop.cases) (auto dest: replicateOnce_by_op)

lemma propose_by_op:
  "ProposeWithRetryInterval sv client ev r n = Some (r', n', out) \<Longrightarrow> roomy n \<Longrightarrow> by_op sv n n'"
  by (cases "(sv, client, ev, r, n)" rule: ProposeWithRetryInterval.cases)
    (auto split: if_splits option.splits prod.splits dest: section_by_op replicateOnce_by_op)

subsection \<open>Applying entries\<close>

lemma ap_step_by_op:
  "ap_step sv ap r n m = Some (r', n', m') \<Longrightarrow> ap_ok n r \<Longrightarrow> by_op sv n n'"
  by (cases "(sv, ap, r, n, m)" rule: ap_step.cases)
    (auto split: if_splits option.splits prod.splits dest: section_by_op intro: mark_by_op)

text \<open>What a request or the apply loop holds between two sections.\<close>

fun http_ok :: "'s RaftNode \<Rightarrow> HttpRun \<Rightarrow> bool" where
  "http_ok n (HtApply task r) = ap_ok n r"
| "http_ok n r = True"

fun loop_ok :: "'s RaftNode \<Rightarrow> LoopRun \<Rightarrow> bool" where
  "loop_ok n (AlApply r) = ap_ok n r"
| "loop_ok n r = True"

lemma http_ok_mono: "http_ok n r \<Longrightarrow> commitIndex n \<le> commitIndex n' \<Longrightarrow> http_ok n' r"
  by (cases r) (auto intro: ap_ok_mono)

lemma loop_ok_mono: "loop_ok n r \<Longrightarrow> commitIndex n \<le> commitIndex n' \<Longrightarrow> loop_ok n' r"
  by (cases r) (auto intro: ap_ok_mono)

lemma http_step_by_op:
  assumes "http_step sv bb api rq ev r n s = Some (r', n', s', out)" and "http_ok n r" and "roomy n"
  shows "by_op sv n n'"
  using assms
  by (cases "(sv, bb, api, rq, ev, r, n, s)" rule: http_step.cases)
    (auto dest: propose_by_op ap_step_by_op)

lemma loop_by_op:
  assumes "applyCommittedLoop sv bb ev r n s = Some (r', n', s')" and "loop_ok n r"
  shows "by_op sv n n'"
  using assms
  by (cases "(sv, bb, ev, r, n, s)" rule: applyCommittedLoop.cases)
    (auto simp: by_op_def [of sv n "n\<lparr>commitReady := False\<rparr>"] split: if_splits dest: ap_step_by_op section_by_op)

end
