(* ===== verification/Process.thy ===== *)
theory Process
  imports Goroutines
begin

text \<open>
  The process as a whole: one node and one state machine, with the election timer, the
  heartbeat loop, the apply loop, any number of HTTP requests and the RPCs of the peers, all
  interleaved in any order.
\<close>

record ('s, 'd) Process =
  pNode :: "'s RaftNode"
  pMachine :: "'d KVStateMachine"
  pTimer :: TimerRun
  pHeart :: HeartbeatRun
  pLoop :: LoopRun
  pRequests :: "nat \<rightharpoonup> HttpRequest \<times> HttpRun"

definition process_init :: "'s RaftNode \<Rightarrow> 'd KVStateMachine \<Rightarrow> ('s, 'd) Process" where
  "process_init n s =
     \<lparr>pNode = n, pMachine = s, pTimer = TmWait, pHeart = StartHeartbeatLoop True, pLoop = AlApply ApNext,
      pRequests = Map.empty\<rparr>"

text \<open>
  The steps: a section of one goroutine, a new HTTP request, or an RPC of a peer.  Whatever a
  peer sends is a step.
\<close>

datatype ProcessEvent =
    EvTimer TimerEvent
  | EvHeartbeat HeartbeatEvent
  | EvLoop LoopEvent
  | EvAccept nat HttpRequest
  | EvRequest nat HttpEvent
  | EvPreVote PreVoteRequest
  | EvVote RequestVoteRequest
  | EvAppend AppendEntriesRequest

inductive process_step ::
  "'s saver \<Rightarrow> ('d, 't) bbolt \<Rightarrow> API \<Rightarrow> WriterOp list \<Rightarrow> ProcessEvent \<Rightarrow> ('s, 'd) Process \<Rightarrow> ('s, 'd) Process \<Rightarrow> bool"
  for sv bb api page where
  timer: "RunElectionTimer sv True ev (pTimer P) (pNode P) = Some (r, n, out)
    \<Longrightarrow> process_step sv bb api page (EvTimer ev) P (P\<lparr>pNode := n, pTimer := r\<rparr>)"
| heartbeat: "RunHeartbeatLoop sv ev (pHeart P) (pNode P) = Some (r, n, out)
    \<Longrightarrow> process_step sv bb api page (EvHeartbeat ev) P (P\<lparr>pNode := n, pHeart := r\<rparr>)"
| loop: "applyCommittedLoop sv bb ev (pLoop P) (pNode P) (pMachine P) = Some (r, n, s)
    \<Longrightarrow> process_step sv bb api page (EvLoop ev) P (P\<lparr>pNode := n, pMachine := s, pLoop := r\<rparr>)"
| accept: "pRequests P k = None
    \<Longrightarrow> process_step sv bb api page (EvAccept k rq) P (P\<lparr>pRequests := (pRequests P)(k \<mapsto> (rq, serve_process page rq))\<rparr>)"
| request: "pRequests P k = Some (rq, run)
    \<Longrightarrow> http_step sv bb api rq ev run (pNode P) (pMachine P) = Some (run', n, s, out)
    \<Longrightarrow> process_step sv bb api page (EvRequest k ev) P
          (P\<lparr>pNode := n, pMachine := s, pRequests := (pRequests P)(k \<mapsto> (rq, run'))\<rparr>)"
| prevote: "process_step sv bb api page (EvPreVote req) P P"
| vote: "RequestVote sv (pNode P) req = (resp, err, n)
    \<Longrightarrow> process_step sv bb api page (EvVote req) P (P\<lparr>pNode := n\<rparr>)"
| append: "HandleAppendEntries sv (pNode P) req = Some (resp, err, n)
    \<Longrightarrow> process_step sv bb api page (EvAppend req) P (P\<lparr>pNode := n\<rparr>)"

text \<open>
  What the theorems about runs ask of the events: an append request leaves no gap after the log
  and sends no other term for a committed entry, and no section of a goroutine starts on a node
  whose term or last index is about to wrap around.
\<close>

fun tame :: "'s RaftNode \<Rightarrow> ProcessEvent \<Rightarrow> bool" where
  "tame n (EvAppend req) = op_ok n (OpAppend req)"
| "tame n (EvTimer ev) = roomy n"
| "tame n (EvHeartbeat ev) = roomy n"
| "tame n (EvLoop ev) = roomy n"
| "tame n (EvRequest k ev) = roomy n"
| "tame n ev = True"

inductive tame_run ::
  "'s saver \<Rightarrow> ('d, 't) bbolt \<Rightarrow> API \<Rightarrow> WriterOp list \<Rightarrow> ('s, 'd) Process \<Rightarrow> ('s, 'd) Process \<Rightarrow> bool"
  for sv bb api page where
  none: "tame_run sv bb api page P P"
| more: "tame_run sv bb api page P Q \<Longrightarrow> tame (pNode Q) ev \<Longrightarrow> process_step sv bb api page ev Q R
    \<Longrightarrow> tame_run sv bb api page P R"

subsection \<open>Requests are never stuck\<close>

text \<open>A request that waits, waits for something that can happen.\<close>

fun rp_live :: "ReplRun \<Rightarrow> bool" where
  "rp_live (RpBuild todo built) = (todo \<noteq> [])"
| "rp_live (RpCollect waiting) = (waiting \<noteq> [])"
| "rp_live (RpDone err) = False"
| "rp_live r = True"

fun pr_live :: "ProposeRun \<Rightarrow> bool" where
  "pr_live (PrRepl entry r) = rp_live r"
| "pr_live (PrDone entry err) = False"
| "pr_live r = True"

fun ap_live :: "ApplyRun \<Rightarrow> bool" where
  "ap_live (ApDone err) = False"
| "ap_live r = True"

fun http_live :: "HttpRun \<Rightarrow> bool" where
  "http_live (HtPropose task r) = pr_live r"
| "http_live (HtApply task r) = ap_live r"
| "http_live r = True"

lemma rp_wait_live: "rp_live (rp_wait waiting) \<or> (\<exists>err. rp_wait waiting = RpDone err)"
  by (simp add: rp_wait_def)

lemma replicateOnce_live:
  "replicateOnce sv stop ev r n = Some (r', n', out) \<Longrightarrow> rp_live r' \<or> (\<exists>err. r' = RpDone err)"
  using rp_wait_live
  by (cases "(sv, stop, ev, r, n)" rule: replicateOnce.cases)
    (auto simp: Let_def split: if_splits option.splits sum.splits prod.splits)

lemma pr_loop_live: "rp_live r \<or> (\<exists>err. r = RpDone err) \<Longrightarrow> pr_live (pr_loop e r) \<or> (\<exists>err. pr_loop e r = PrDone e err)"
  by (cases "(e, r)" rule: pr_loop.cases) auto

lemma propose_live:
  "ProposeWithRetryInterval sv client ev r n = Some (r', n', out) \<Longrightarrow> pr_live r' \<or> (\<exists>e err. r' = PrDone e err)"
  by (cases "(sv, client, ev, r, n)" rule: ProposeWithRetryInterval.cases)
    (auto split: if_splits option.splits prod.splits dest!: replicateOnce_live pr_loop_live)

lemma proposed_live: "pr_live r \<or> (\<exists>e err. r = PrDone e err) \<Longrightarrow> http_live (proposed task r)"
  by (auto simp: proposed_def read_error_def write_error_def split: ProposeRun.split option.split HttpTask.split)

lemma applied_live: "http_live (applied task r)"
  by (auto simp: applied_def read_error_def split: ApplyRun.split option.split HttpTask.split)

lemma http_plain_live:
  "http_live (read_error err)" "http_live (readBarrier key)" "http_live (found v)" "http_live not_leader"
  "http_live (forwardToLeader api rq body k)" "http_live (proposed task (Propose ctxErr command))"
  by (auto simp: read_error_def readBarrier_def found_def not_leader_def forwardToLeader_def Let_def Propose_def
      intro!: proposed_live split: sum.split option.split prod.split)

lemma serve_live: "http_live (serve_process page rq)"
proof -
  have "http_live (handleKV rq)" "http_live (handleClusterMembers rq)" "http_live (handleClusterMember rq)"
    by (auto simp: handleKV_def handleGet_def handlePut_def handleDelete_def handleClusterMembers_def
        handleClusterMember_def Let_def split: sum.split BodyError.split)
  then have "http_live (NewHTTPHandlerWithForwarding rq)"
    by (simp add: NewHTTPHandlerWithForwarding_def serve_mux_def api_handler_def split: Route.split ApiHandler.split)
  then show ?thesis
    by (simp add: serve_process_def serve_mux_def process_handler_def split: Route.split ProcessHandler.split)
qed

lemma http_step_live:
  "http_step sv bb api rq ev r n s = Some (r', n', s', out) \<Longrightarrow> http_live r'"
  by (cases "(sv, bb, api, rq, ev, r, n, s)" rule: http_step.cases)
    (auto simp: http_plain_live applied_live proposed_live split: if_splits dest!: propose_live)

lemma BuildAppendEntries_total:
  assumes "log_ok n"
  shows "BuildAppendEntries n p \<noteq> None"
  using assms by (auto simp: BuildAppendEntries_def Let_def logTermAt_eq cloneEntriesFrom_eq split: option.split)

text \<open>
  What a request waits for at each point: its next section, the reply of a peer that has not
  answered, the retry timer, the leader's answer to a forwarded request, or the end of its
  context.
\<close>

fun rp_awaits :: "ReplRun \<Rightarrow> AppendEntriesResponse RunEvent \<Rightarrow> bool" where
  "rp_awaits (RpBuild todo built) ev = (case ev of Run \<Rightarrow> todo \<noteq> [] | Reply p result \<Rightarrow> False | Cancel err \<Rightarrow> True)"
| "rp_awaits (RpCollect waiting) ev =
     (case ev of Run \<Rightarrow> False | Reply p result \<Rightarrow> p \<in> fst ` set waiting | Cancel err \<Rightarrow> True)"
| "rp_awaits (RpDone err) ev = False"
| "rp_awaits r ev = (ev = Run)"

fun pr_awaits :: "ProposeRun \<Rightarrow> ProposeEvent \<Rightarrow> bool" where
  "pr_awaits (PrRepl entry r) ev = (case ev of PrReply e \<Rightarrow> rp_awaits r e | _ \<Rightarrow> False)"
| "pr_awaits (PrWait entry) ev = (case ev of PrTimer \<Rightarrow> True | PrCancel err \<Rightarrow> True | _ \<Rightarrow> False)"
| "pr_awaits (PrDone entry err) ev = False"
| "pr_awaits r ev = (ev = PrRun)"

fun http_awaits :: "HttpRun \<Rightarrow> HttpEvent \<Rightarrow> bool" where
  "http_awaits (HtBegin task command) ev = (\<exists>ctxErr. ev = HeBegin ctxErr)"
| "http_awaits (HtPropose task r) ev = (case ev of HePropose e \<Rightarrow> pr_awaits r e | _ \<Rightarrow> False)"
| "http_awaits (HtApply task r) ev = (ev = HeRun \<and> ap_live r)"
| "http_awaits (HtRemote req) ev = (\<exists>ans. ev = HeAnswer ans)"
| "http_awaits (HtDone ops) ev = False"
| "http_awaits r ev = (ev = HeRun)"

text \<open>The events by which a request ends early: its context is over, or the leader cannot be reached.\<close>

fun gives_up :: "HttpEvent \<Rightarrow> bool" where
  "gives_up (HeBegin (Some err)) = True"
| "gives_up (HePropose (PrCancel err)) = True"
| "gives_up (HePropose (PrReply (Cancel err))) = True"
| "gives_up (HeAnswer (FwFailed err)) = True"
| "gives_up ev = False"

lemma map_of_key: "map_of xs p = Some v \<Longrightarrow> p \<in> fst ` set xs"
  by (force dest: map_of_SomeD)

lemma replicateOnce_awaits:
  assumes "node_ok n"
  shows "replicateOnce sv stop ev r n \<noteq> None \<longleftrightarrow> rp_awaits r ev"
  using BuildAppendEntries_total [OF node_okD(1) [OF assms]] ensure_skip [OF assms]
  by (cases "(sv, stop, ev, r, n)" rule: replicateOnce.cases)
    (auto simp: Let_def RecordSuccess_eq [OF assms] RecordFailure_eq [OF assms] map_of_eq_None_iff
      split: option.split sum.split prod.split intro: map_of_key)

lemma propose_awaits:
  assumes "node_ok n" and "has_room n"
  shows "ProposeWithRetryInterval sv client ev r n \<noteq> None \<longleftrightarrow> pr_awaits r ev"
proof -
  have "AppendLocal sv n c \<noteq> None" for c by (rule AppendLocal_ok [OF assms, of sv c]) simp
  then show ?thesis using replicateOnce_awaits [OF assms(1), of sv]
    by (cases "(sv, client, ev, r, n)" rule: ProposeWithRetryInterval.cases) (auto split: option.split)
qed

lemma http_step_awaits:
  assumes "node_ok n" and "has_room n" and "http_ok n r"
  shows "http_step sv bb api rq ev r n s \<noteq> None \<longleftrightarrow> http_awaits r ev"
proof (cases "\<exists>task q. r = HtApply task q")
  case True
  then obtain task q where r: "r = HtApply task q" "ap_ok n q" using assms(3) by auto
  have "ap_step sv (Apply bb) q n s \<noteq> None" if "ap_live q"
  proof -
    have "\<forall>err. q \<noteq> ApDone err" using that by auto
    then show ?thesis by (rule ap_step_total [OF assms(1) r(2), of sv "Apply bb" s]) simp
  qed
  then have "ap_step sv (Apply bb) q n s \<noteq> None \<longleftrightarrow> ap_live q" by (cases q) auto
  then show ?thesis using r(1) by (cases ev) auto
next
  case False
  then show ?thesis using propose_awaits [OF assms(1,2), of sv]
    by (cases "(sv, bb, api, rq, ev, r, n, s)" rule: http_step.cases) auto
qed

lemma rp_live_awaits: "rp_live r \<Longrightarrow> \<exists>ev. rp_awaits r ev \<and> \<not> gives_up (HePropose (PrReply ev))"
proof (cases r)
  case (RpCollect waiting)
  assume "rp_live r"
  then show ?thesis
    using RpCollect by (intro exI [of _ "Reply (fst (hd waiting)) (Inl CtxCanceled)"]) simp
qed (auto intro: exI [of _ Run])

lemma pr_live_awaits: "pr_live r \<Longrightarrow> \<exists>ev. pr_awaits r ev \<and> \<not> gives_up (HePropose ev)"
proof (cases r)
  case (PrRepl e q)
  assume "pr_live r"
  then obtain ev where "rp_awaits q ev" "\<not> gives_up (HePropose (PrReply ev))" using PrRepl rp_live_awaits [of q] by auto
  then show ?thesis using PrRepl by (intro exI [of _ "PrReply ev"]) simp
qed (auto intro: exI [of _ PrRun] exI [of _ PrTimer])

lemma http_live_awaits:
  assumes "http_live r"
  shows "(\<exists>ops. r = HtDone ops) \<or> (\<exists>ev. http_awaits r ev \<and> \<not> gives_up ev)"
proof (cases r)
  case (HtPropose task q)
  then obtain ev where "pr_awaits q ev" "\<not> gives_up (HePropose ev)" using assms pr_live_awaits [of q] by auto
  then show ?thesis using HtPropose by (intro disjI2 exI [of _ "HePropose ev"]) simp
next
  case (HtBegin task c)
  then show ?thesis by (intro disjI2 exI [of _ "HeBegin None"]) simp
next
  case (HtRemote req)
  then show ?thesis by (intro disjI2 exI [of _ "HeAnswer (FwAnswer 200 [] ([], None))"]) simp
qed (use assms in \<open>auto intro: exI [of _ HeRun]\<close>)

subsection \<open>Every step is an operation on the node\<close>

lemma by_op_ok:
  assumes "node_ok n" and "by_op sv n n'"
  shows "node_ok n'" and "commit_kept n n'"
proof -
  consider "n' = n" | "n' = n\<lparr>commitReady := False\<rparr>" | op where "op_ok n op" "node_op sv op n = Some n'"
    using assms(2) by (auto simp: by_op_def)
  then have "node_ok n' \<and> commit_kept n n'"
  proof cases
    case 2
    then show ?thesis using assms(1) by (auto simp: node_ok_def ok_defs intro!: commit_kept_frame)
  next
    case 3
    then show ?thesis using node_op_ok [OF assms(1), of op sv] commits.le_op [OF assms(1), of op sv n'] by auto
  qed (use assms(1) commits.le_refl in auto)
  then show "node_ok n'" "commit_kept n n'" by simp_all
qed

lemma ap_step_ok:
  assumes "ap_step sv ap r n m = Some (r', n', m')" and "node_ok n" and "ap_ok n r"
  shows "ap_ok n' r'"
proof -
  have "\<forall>err. r \<noteq> ApDone err" using assms(1) by auto
  from ap_step_total [OF assms(2,3) this, of sv ap m] assms(1) show ?thesis by auto
qed

text \<open>The invariant: the node is well formed and every index a goroutine holds is committed.\<close>

definition process_ok :: "('s, 'd) Process \<Rightarrow> bool" where
  "process_ok P =
     (node_ok (pNode P) \<and> loop_ok (pNode P) (pLoop P)
      \<and> (\<forall>k rq run. pRequests P k = Some (rq, run) \<longrightarrow> http_ok (pNode P) run \<and> http_live run))"

lemma proposed_ok: "http_ok n (proposed task r)"
  by (auto simp: proposed_def read_error_def write_error_def split: ProposeRun.split option.split HttpTask.split)

lemma applied_ok: "ap_ok n r \<Longrightarrow> http_ok n (applied task r)"
  by (auto simp: applied_def read_error_def split: ApplyRun.split option.split HttpTask.split)

lemma al_applied_ok: "ap_ok n r \<Longrightarrow> loop_ok n (al_applied r)"
  by (cases r rule: al_applied.cases) auto

lemma plain_ok: 
  "http_ok n (read_error err)" "http_ok n (readBarrier key)" "http_ok n (found v)" "http_ok n not_leader"
  "http_ok n (forwardToLeader api rq body k)" "http_ok n (handleGet key)" "http_ok n (handlePut rq key)"
  "http_ok n (handleDelete key)" "http_ok n (handleClusterMembers rq)"
  by (auto simp: read_error_def readBarrier_def found_def not_leader_def forwardToLeader_def Let_def handleGet_def
      handlePut_def handleDelete_def handleClusterMembers_def split: sum.split option.split prod.split BodyError.split)

lemma handler_ok: "http_ok n (handleKV rq)" "http_ok n (handleClusterMember rq)"
  by (simp_all add: handleKV_def handleClusterMember_def plain_ok Let_def split: sum.split)

lemma api_ok: "http_ok n (NewHTTPHandlerWithForwarding rq)"
  by (simp add: NewHTTPHandlerWithForwarding_def serve_mux_def api_handler_def handler_ok plain_ok
      split: Route.split ApiHandler.split)

lemma serve_ok: "http_ok n (serve_process page rq)"
  by (simp add: serve_process_def serve_mux_def process_handler_def api_ok split: Route.split ProcessHandler.split)

lemma http_step_ok:
  assumes "http_step sv bb api rq ev r n s = Some (r', n', s', out)" and "node_ok n" and "http_ok n r"
  shows "http_ok n' r'"
  using assms
  by (cases "(sv, bb, api, rq, ev, r, n, s)" rule: http_step.cases)
    (auto simp: proposed_ok plain_ok split: if_splits intro!: applied_ok dest: ap_step_ok)

lemma loop_step_ok:
  assumes "applyCommittedLoop sv bb ev r n s = Some (r', n', s')" and "node_ok n" and "loop_ok n r"
  shows "loop_ok n' r'"
  using assms
  by (cases "(sv, bb, ev, r, n, s)" rule: applyCommittedLoop.cases)
    (auto split: if_splits intro!: al_applied_ok dest: ap_step_ok)

subsection \<open>The contract of a goroutine\<close>

text \<open>
  A goroutine of the process: what it holds between two of its sections stays good while the
  others move the node, and each of its own sections is one operation of the node.  Such a
  goroutine, interleaved with operations of any others, keeps the node's invariant and its
  committed entries.
\<close>

locale goroutine =
  fixes sv :: "'s saver"
    and advances :: "'s RaftNode \<Rightarrow> 'r \<Rightarrow> 's RaftNode \<Rightarrow> 'r \<Rightarrow> bool"
    and good :: "'s RaftNode \<Rightarrow> 'r \<Rightarrow> bool"
  assumes section_op: "advances n r n' r' \<Longrightarrow> good n r \<Longrightarrow> roomy n \<Longrightarrow> by_op sv n n'"
    and good_next: "advances n r n' r' \<Longrightarrow> node_ok n \<Longrightarrow> good n r \<Longrightarrow> good n' r'"
    and good_mono: "good n r \<Longrightarrow> commitIndex n \<le> commitIndex n' \<Longrightarrow> good n' r"
begin

lemma others: "good n r \<Longrightarrow> node_ok n \<Longrightarrow> by_op sv n n' \<Longrightarrow> good n' r"
  using by_op_ok(2) [of n sv n'] good_mono [of n r n'] by (auto simp: commit_kept_def)

lemma own_section:
  assumes "advances n r n' r'" and "roomy n" and "node_ok n" and "good n r"
  shows "node_ok n' \<and> commit_kept n n' \<and> good n' r'"
  using by_op_ok [OF assms(3) section_op [OF assms(1,4,2)]] good_next [OF assms(1,3,4)] by simp

lemma interleaved:
  assumes "(\<lambda>(n, r) (n', r'). roomy n \<and> advances n r n' r' \<or> by_op sv n n' \<and> r' = r)\<^sup>*\<^sup>* x y"
    and "node_ok (fst x)" and "good (fst x) (snd x)"
  shows "node_ok (fst y) \<and> commit_kept (fst x) (fst y) \<and> good (fst y) (snd y)"
  using assms
proof (induction rule: rtranclp_induct)
  case (step y z)
  obtain n r n' r' where yz: "y = (n, r)" "z = (n', r')" by fastforce
  have "node_ok n" "good n r" "commit_kept (fst x) n" using step yz by auto
  moreover from this have "node_ok n' \<and> commit_kept n n' \<and> good n' r'"
    using step(2) own_section [of n r n' r'] others [of n r n'] by_op_ok [of n sv n'] by (auto simp: yz)
  ultimately show ?case using commits.le_trans by (auto simp: yz)
qed (simp add: commits.le_refl)

end

interpretation timer: goroutine sv "\<lambda>n r n' r'. \<exists>ev out. RunElectionTimer sv client ev r n = Some (r', n', out)" "\<lambda>_ _. True"
  for sv client
  by unfold_locales (auto dest: timer_by_op)

interpretation heartbeats: goroutine sv "\<lambda>n r n' r'. \<exists>ev out. RunHeartbeatLoop sv ev r n = Some (r', n', out)" "\<lambda>_ _. True"
  for sv
  by unfold_locales (auto dest: heartbeat_by_op)

interpretation apply_loop: goroutine sv "\<lambda>n r n' r'. \<exists>ev s s'. applyCommittedLoop sv bb ev r n s = Some (r', n', s')" loop_ok
  for sv bb
  by unfold_locales (auto dest: loop_by_op loop_step_ok loop_ok_mono)

interpretation http_request: goroutine sv
    "\<lambda>n r n' r'. \<exists>ev s s' out. http_step sv bb api rq ev r n s = Some (r', n', s', out)" http_ok
  for sv bb api rq
  by unfold_locales (auto dest: http_step_by_op http_step_ok http_ok_mono)

text \<open>An operation on the node leaves the rest of the invariant as it is.\<close>

lemma process_ok_node:
  assumes "process_ok P" and "node_ok n" and "commit_kept (pNode P) n"
  shows "loop_ok n (pLoop P)"
    and "\<forall>k rq run. pRequests P k = Some (rq, run) \<longrightarrow> http_ok n run \<and> http_live run"
proof -
  have le: "commitIndex (pNode P) \<le> commitIndex n" using assms(3) by (simp add: commit_kept_def)
  show "loop_ok n (pLoop P)" using assms(1) le by (auto simp: process_ok_def intro: loop_ok_mono)
  show "\<forall>k rq run. pRequests P k = Some (rq, run) \<longrightarrow> http_ok n run \<and> http_live run"
    using assms(1) le unfolding process_ok_def by (blast intro: http_ok_mono)
qed

lemma process_step_ok:
  assumes "process_step sv bb api page ev P Q" and "tame (pNode P) ev" and "process_ok P"
  shows "process_ok Q" and "commit_kept (pNode P) (pNode Q)"
proof -
  have ok: "node_ok (pNode P)" "loop_ok (pNode P) (pLoop P)"
      "\<And>k rq run. pRequests P k = Some (rq, run) \<Longrightarrow> http_ok (pNode P) run"
    using assms(3) by (auto simp: process_ok_def)
  note keep = process_ok_node [OF assms(3)]
  have rpc: "process_ok (P\<lparr>pNode := n\<rparr>) \<and> commit_kept (pNode P) n" if "by_op sv (pNode P) n" for n
    using by_op_ok [OF ok(1) that] keep [of n] by (simp add: process_ok_def)
  have "process_ok Q \<and> commit_kept (pNode P) (pNode Q)"
    using assms(1)
  proof cases
    case (timer e r n out)
    have "node_ok n \<and> commit_kept (pNode P) n" using timer(1,3) assms(2) timer.own_section [of sv True "pTimer P" "pNode P" r n] ok(1) by auto
    with keep [of n] timer(2) show ?thesis by (simp add: process_ok_def)
  next
    case (heartbeat e r n out)
    have "node_ok n \<and> commit_kept (pNode P) n" using heartbeat(1,3) assms(2) heartbeats.own_section [of sv "pHeart P" "pNode P" r n] ok(1) by auto
    with keep [of n] heartbeat(2) show ?thesis by (simp add: process_ok_def)
  next
    case (loop e r n s)
    have "node_ok n \<and> commit_kept (pNode P) n \<and> loop_ok n r"
      using loop(1,3) assms(2) apply_loop.own_section [of sv bb "pLoop P" "pNode P" r n] ok(1,2) by auto
    with keep [of n] loop(2) show ?thesis by (simp add: process_ok_def)
  next
    case (accept k rq)
    then show ?thesis using assms(3) by (auto simp: process_ok_def serve_ok serve_live commits.le_refl)
  next
    case (request k rq run e run' n s out)
    have "node_ok n \<and> commit_kept (pNode P) n \<and> http_ok n run'"
      using request(1,4) assms(2) http_request.own_section [of sv bb api rq run "pNode P" run' n] ok(1) ok(3) [OF request(3)] by auto
    with keep [of n] request(2) http_step_live [OF request(4)] show ?thesis by (simp add: process_ok_def)
  next
    case (prevote req)
    then show ?thesis using assms(3) by (simp add: commits.le_refl)
  next
    case (vote req resp err n)
    then have "by_op sv (pNode P) n" by (intro by_opI [of sv "OpVote req"]) simp_all
    from rpc [OF this] vote(2) show ?thesis by simp
  next
    case (append req resp err n)
    then have "by_op sv (pNode P) n" using assms(2) by (intro by_opI [of sv "OpAppend req"]) simp_all
    from rpc [OF this] append(2) show ?thesis by simp
  qed
  then show "process_ok Q" "commit_kept (pNode P) (pNode Q)" by simp_all
qed

lemma process_init_ok: "node_ok n \<Longrightarrow> process_ok (process_init n s)"
  by (simp add: process_init_def process_ok_def)

lemma process_reach:
  assumes "tame_run sv bb api page P Q" and "process_ok P"
  shows "process_ok Q" and "commit_kept (pNode P) (pNode Q)"
proof -
  have "process_ok Q \<and> commit_kept (pNode P) (pNode Q)"
    using assms
  proof induction
    case (more P Q ev R)
    then show ?case using process_step_ok [OF more(3,2)] commits.le_trans by blast
  qed (simp add: commits.le_refl)
  then show "process_ok Q" "commit_kept (pNode P) (pNode Q)" by simp_all
qed

end
