(* ===== verification/KVFacts.thy ===== *)
theory KVFacts
  imports KV
begin

text \<open>
  Facts about the key-value state machine: the JSON forms of its commands and of its data
  can be read back, the keys it holds are valid UTF-8, and the database mirrors the map.
\<close>

subsection \<open>Commands\<close>

definition Command_utf8 :: "Command \<Rightarrow> bool" where
  "Command_utf8 c = (valid_utf8 (cOperation c) \<and> valid_utf8 (cKey c))"

interpretation command_codec: json_codec Command_json Command_of_json Command_utf8
  by unfold_locales
    (auto simp: Command_utf8_def Command_json_def Command_of_json_def zeroCommand_def ascii_names max_depth_def
      decode_struct_def field_match_def set_Command_def decode_string_def decode_bytes_def b64_roundtrip)

text \<open>A decoder that keeps a property field by field keeps it for the whole struct.\<close>

lemma decode_members_keeps:
  assumes "decode_members names set_field ms a = Some b" and "P a" and "\<forall>m \<in> set ms. U (snd m)"
    and "\<And>f v x y. U v \<Longrightarrow> P x \<Longrightarrow> set_field f v x = Some y \<Longrightarrow> P y"
  shows "P b"
  using assms(1-3)
proof (induction ms arbitrary: a)
  case (Cons m ms)
  obtain k v where m: "m = (k, v)" by fastforce
  show ?case
  proof (cases "field_match k names")
    case None
    then show ?thesis using Cons m by auto
  next
    case (Some f)
    then obtain a' where a': "set_field f v a = Some a'" "decode_members names set_field ms a' = Some b"
      using Cons.prems(1) m by (auto split: option.splits)
    then have "P a'" using assms(4) [of v a f a'] Cons.prems m by simp
    then show ?thesis using Cons.IH [OF a'(2)] Cons.prems(3) by simp
  qed
qed simp

lemma Command_of_json_utf8:
  assumes "Command_of_json v = Some c" and "json_utf8 v"
  shows "valid_utf8 (cKey c)"
proof -
  consider "v = JNull" | ms where "v = JObj ms"
    using assms(1) by (auto simp: Command_of_json_def decode_struct_def split: json.splits)
  then show ?thesis
  proof cases
    case 1
    then show ?thesis using assms(1) by (auto simp: Command_of_json_def decode_struct_def zeroCommand_def)
  next
    case 2
    then have d: "decode_members [''operation'', ''key'', ''value''] set_Command ms zeroCommand = Some c"
      using assms(1) by (simp add: Command_of_json_def decode_struct_def)
    show ?thesis
    proof (rule decode_members_keeps [OF d, where U = json_utf8])
      show "\<And>f v x y. json_utf8 v \<Longrightarrow> valid_utf8 (cKey x) \<Longrightarrow> set_Command f v x = Some y \<Longrightarrow> valid_utf8 (cKey y)"
        by (auto simp: set_Command_def decode_string_def split: if_splits json.splits)
    qed (use assms(2) 2 in \<open>auto simp: zeroCommand_def\<close>)
  qed
qed

lemma DecodeCommand_utf8: "DecodeCommand data = Inr c \<Longrightarrow> valid_utf8 (cKey c)"
  by (auto simp: DecodeCommand_def unmarshal_def split: option.splits bind_splits
      dest!: parse_json_utf8 intro: Command_of_json_utf8)

lemma DecodeCommand_valid: "DecodeCommand data = Inr c \<Longrightarrow> ValidateCommand c = None"
  by (auto simp: DecodeCommand_def split: option.splits)

lemma ValidateCommand_None:
  "ValidateCommand c = None \<longleftrightarrow>
     cOperation c = OperationNoop \<or> cKey c \<noteq> [] \<and> cOperation c \<in> {OperationPut, OperationDelete}"
  by (auto simp: ValidateCommand_def)

lemma operations_utf8: "ValidateCommand c = None \<Longrightarrow> valid_utf8 (cOperation c)"
  by (auto simp: ValidateCommand_None OperationNoop_def OperationPut_def OperationDelete_def valid_utf8_ascii)

lemma DecodeCommand_Encode:
  assumes "EncodeCommand c = Inr data" and "valid_utf8 (cKey c)"
  shows "DecodeCommand data = Inr c"
proof -
  have v: "ValidateCommand c = None" "data = print_json (Command_json c)"
    using assms(1) by (auto simp: EncodeCommand_def split: option.splits)
  then have "Command_utf8 c" using assms(2) operations_utf8 by (simp add: Command_utf8_def)
  then show ?thesis using v command_codec.unmarshal_marshal by (simp add: DecodeCommand_def)
qed

text \<open>A command of the store is not a membership command, and the other way round.\<close>

lemma kv_not_membership:
  assumes "EncodeCommand c = Inr data" and "valid_utf8 (cKey c)"
  shows "\<not> is_membership data"
proof -
  have v: "ValidateCommand c = None" "data = print_json (Command_json c)"
    using assms(1) by (auto simp: EncodeCommand_def split: option.splits)
  then have "Command_utf8 c" using assms(2) operations_utf8 by (simp add: Command_utf8_def)
  then have "parse_json data = Some (Command_json c)"
    unfolding v(2) by (intro parse_print_json command_codec.enc_ok command_codec.enc_depth)
  then have "unmarshal membershipCommand_of_json data
      = Some \<lparr>cmdOperation = cOperation c, cmdType = [], cmdPeerID = []\<rparr>"
    by (simp add: unmarshal_def Command_json_def membershipCommand_of_json_def decode_struct_def field_match_def
        set_membershipCommand_def decode_string_def in_range_def fold_name.simps)
  moreover have "cOperation c \<noteq> membershipCommandOperation"
    using v(1) by (auto simp: ValidateCommand_None membershipCommandOperation_def OperationNoop_def
        OperationPut_def OperationDelete_def)
  ultimately show ?thesis by (simp add: is_membership_def DecodeMembershipChange_def)
qed

lemma membership_not_kv:
  assumes "EncodeMembershipChange ch = Inr data" and "valid_utf8 (mcPeerID ch)"
  shows "DecodeCommand data = Inl (Errorf ''kv command key is required'' [])"
proof -
  let ?c = "\<lparr>cmdOperation = membershipCommandOperation, cmdType = mcType ch, cmdPeerID = mcPeerID ch\<rparr>"
  have v: "ValidateChange ch = None" "data = print_json (membershipCommand_json ?c)"
    using assms(1) by (auto simp: EncodeMembershipChange_def split: option.splits)
  then have "membershipCommand_utf8 ?c"
    using assms(2) by (auto simp: membershipCommand_utf8_def ValidateChange_None membershipCommandOperation_def
        MembershipAddPeer_def MembershipRemovePeer_def valid_utf8_ascii)
  then have "parse_json data = Some (membershipCommand_json ?c)"
    unfolding v(2) by (intro parse_print_json membership_codec.enc_ok membership_codec.enc_depth)
  then have "unmarshal Command_of_json data = Some \<lparr>cOperation = membershipCommandOperation, cKey = [], cValue = []\<rparr>"
    by (simp add: unmarshal_def membershipCommand_json_def Command_of_json_def zeroCommand_def decode_struct_def
        field_match_def set_Command_def decode_string_def in_range_def fold_name.simps)
  then show ?thesis
    by (simp add: DecodeCommand_def ValidateCommand_def membershipCommandOperation_def OperationNoop_def)
qed

subsection \<open>The data\<close>

definition data_ok :: "kv_data \<Rightarrow> bool" where
  "data_ok data = (finite (Mapping.keys data) \<and> (\<forall>k \<in> Mapping.keys data. valid_utf8 k))"

lemma decode_bytes_json [simp]: "decode_bytes (bytes_json v) = Some v"
  by (simp add: bytes_json_def decode_bytes_def b64_roundtrip)

lemma decode_data_json:
  "decode_data (map (\<lambda>(k, v). (k, bytes_json v)) kvs) data = Some (fold (\<lambda>(k, v). Mapping.update k v) kvs data)"
  by (induction kvs arbitrary: data) auto

lemma lookup_fold_update:
  "distinct (map fst kvs) \<Longrightarrow>
     Mapping.lookup (fold (\<lambda>(k, v). Mapping.update k v) kvs data) x
       = (case map_of kvs x of None \<Rightarrow> Mapping.lookup data x | Some v \<Rightarrow> Some v)"
proof (induction kvs arbitrary: data)
  case (Cons kv kvs)
  obtain k v where kv: "kv = (k, v)" by fastforce
  have "map_of kvs k = None" using Cons.prems kv by (simp add: map_of_eq_None_iff)
  then show ?case using Cons kv by (auto simp: lookup_update' split: option.split)
qed simp

lemma map_of_data_entries:
  assumes "finite (Mapping.keys data)"
  shows "map_of (data_entries data) = Mapping.lookup data" and "distinct (map fst (data_entries data))"
proof -
  have f: "map fst (data_entries data) = Mapping.ordered_keys data"
    by (simp add: data_entries_def comp_def)
  then show "distinct (map fst (data_entries data))" by simp
  show "map_of (data_entries data) = Mapping.lookup data"
  proof
    fix k
    show "map_of (data_entries data) k = Mapping.lookup data k"
    proof (cases "Mapping.lookup data k")
      case None
      then have "k \<notin> set (Mapping.ordered_keys data)" using assms by (auto simp: keys_dom_lookup)
      then show ?thesis using None f by (metis map_of_eq_None_iff list.set_map)
    next
      case (Some v)
      then have "k \<in> set (Mapping.ordered_keys data)" using assms by (auto simp: keys_dom_lookup)
      then show ?thesis using Some by (simp add: data_entries_def map_of_map_restrict)
    qed
  qed
qed

lemma fold_data_entries:
  assumes "finite (Mapping.keys data)"
  shows "fold (\<lambda>(k, v). Mapping.update k v) (data_entries data) Mapping.empty = data"
  by (rule mapping_eqI) (simp add: lookup_fold_update map_of_data_entries [OF assms] split: option.split)

interpretation data_codec: json_codec data_json data_of_json data_ok
proof
  fix data assume d: "data_ok data"
  show "json_ok (data_json data)"
    using d by (auto simp: data_json_def data_ok_def data_entries_def bytes_json_def)
  have "json_depth (bytes_json v) = 0" for v by (simp add: bytes_json_def)
  then have "set (map (\<lambda>m. json_depth (snd m)) (map (\<lambda>(k, v). (k, bytes_json v)) (data_entries data))) \<subseteq> {0}"
    by auto
  then have "Max (insert 0 (set (map (\<lambda>m. json_depth (snd m)) (map (\<lambda>(k, v). (k, bytes_json v)) (data_entries data))))) = 0"
    by (metis Max_singleton insert_absorb2 subset_singletonD)
  then show "json_depth (data_json data) \<le> max_depth"
    unfolding data_json_def json_depth.simps by (simp add: max_depth_def)
  show "data_of_json (data_json data) = Some data"
    using d by (simp add: data_of_json_def data_json_def decode_data_json fold_data_entries data_ok_def)
qed

subsection \<open>Applying commands\<close>

lemma data_ok_empty [simp]: "data_ok Mapping.empty"
  by (simp add: data_ok_def)

lemma data_ok_apply:
  assumes "data_ok data" and "valid_utf8 (cKey c)"
  shows "data_ok (apply_data data c)"
  using assms by (auto simp: data_ok_def apply_data_def)

lemma Apply_data:
  assumes "Apply api s e = (err, s')"
  shows "kvData s' = (case (err, DecodeCommand (eCommand e)) of
           (None, Inr c) \<Rightarrow> apply_data (kvData s) c | _ \<Rightarrow> kvData s)"
  using assms by (auto simp: Apply_def split: sum.splits option.splits prod.splits)

lemma Apply_data_ok: "Apply api s e = (err, s') \<Longrightarrow> data_ok (kvData s) \<Longrightarrow> data_ok (kvData s')"
  using Apply_data [of api s e err s']
  by (auto simp: data_ok_apply DecodeCommand_utf8 split: option.splits sum.splits)

lemma Apply_memory:
  "kvDb s = None \<Longrightarrow> Apply api s e =
     (case DecodeCommand (eCommand e) of
        Inl err \<Rightarrow> (Some err, s)
      | Inr c \<Rightarrow> (None, s\<lparr>kvData := apply_data (kvData s) c\<rparr>))"
  by (simp add: Apply_def split: sum.split)

subsection \<open>Snapshots\<close>

lemma Snapshot_nonempty: "Snapshot s \<noteq> []"
  by (simp add: Snapshot_def data_json_def)

lemma unmarshal_Snapshot: "data_ok (kvData s) \<Longrightarrow> unmarshal data_of_json (Snapshot s) = Some (kvData s)"
  unfolding Snapshot_def by (rule data_codec.unmarshal_marshal)

lemma RestoreSnapshot_memory:
  "kvDb s = None \<Longrightarrow> data_ok (kvData m) \<Longrightarrow>
     RestoreSnapshot api s (Snapshot m) = (None, s\<lparr>kvData := kvData m\<rparr>)"
  by (simp add: RestoreSnapshot_def Snapshot_nonempty unmarshal_Snapshot)

subsection \<open>Replay\<close>

definition apply_all :: "kv_data \<Rightarrow> Command list \<Rightarrow> kv_data" where
  "apply_all data cs = foldl apply_data data cs"

text \<open>What the last command that touches a key makes of it.\<close>

definition cmd_effect :: "Command \<Rightarrow> string \<Rightarrow> bytes option option" where
  "cmd_effect c k =
     (if cOperation c = OperationNoop \<or> cKey c \<noteq> k then None
      else if cOperation c = OperationPut then Some (Some (cValue c))
      else if cOperation c = OperationDelete then Some None
      else None)"

definition last_effect :: "Command list \<Rightarrow> string \<Rightarrow> bytes option option" where
  "last_effect cs k = foldl (\<lambda>acc c. case cmd_effect c k of None \<Rightarrow> acc | Some r \<Rightarrow> Some r) None cs"

lemma lookup_apply_data:
  "Mapping.lookup (apply_data data c) k = (case cmd_effect c k of None \<Rightarrow> Mapping.lookup data k | Some r \<Rightarrow> r)"
  by (auto simp: apply_data_def cmd_effect_def lookup_update')

lemma lookup_apply_all:
  "Mapping.lookup (apply_all data cs) k = (case last_effect cs k of None \<Rightarrow> Mapping.lookup data k | Some r \<Rightarrow> r)"
  by (induction cs rule: rev_induct)
    (auto simp: apply_all_def last_effect_def lookup_apply_data split: option.splits)

lemma last_effect_append:
  "last_effect (xs @ ys) k = (case last_effect ys k of None \<Rightarrow> last_effect xs k | Some r \<Rightarrow> Some r)"
  by (induction ys rule: rev_induct) (auto simp: last_effect_def split: option.splits)

lemma replay_suffix: "apply_all (apply_all data (xs @ ys)) (xs @ ys @ zs) = apply_all data (xs @ ys @ zs)"
  by (rule mapping_eqI) (auto simp: lookup_apply_all last_effect_append split: option.split)

subsection \<open>The database mirrors the map\<close>

text \<open>A call of \<^verbatim>\<open>Apply\<close> whose parts are not interrupted is \<open>Apply\<close>.\<close>

lemma Apply_sections:
  "ka_step api (KaStart entry) s = Some (KaDone err, s') \<longrightarrow> Apply api s entry = (err, s')"
  "ka_step api (KaStart entry) s = Some (KaMap c, s') \<longrightarrow>
     (\<exists>s''. ka_step api (KaMap c) s' = Some (KaDone None, s'') \<and> Apply api s entry = (None, s''))"
  by (auto simp: Apply_def split: sum.splits option.splits prod.splits)

definition mirrored :: "('d \<Rightarrow> buckets) \<Rightarrow> 'd KVStateMachine \<Rightarrow> bool" where
  "mirrored cont s =
     (case kvDb s of None \<Rightarrow> True | Some d \<Rightarrow> cont d kvBucket = Some (Mapping.lookup (kvData s)))"

lemma lookup_update_fun: "Mapping.lookup (Mapping.update k v m) = (Mapping.lookup m)(k \<mapsto> v)"
  by (auto simp: fun_eq_iff lookup_update')

lemma lookup_delete_fun: "Mapping.lookup (Mapping.delete k m) = (Mapping.lookup m)(k := None)"
  by (auto simp: fun_eq_iff)

lemma operation_names:
  "OperationPut \<noteq> OperationNoop" "OperationDelete \<noteq> OperationNoop" "OperationDelete \<noteq> OperationPut"
  by (simp_all add: OperationPut_def OperationNoop_def OperationDelete_def)

lemma applyBolt_cont:
  assumes "bbolt_laws api cont tcont" and "applyBolt api d c = (None, d')"
    and "cont d kvBucket = Some (Mapping.lookup data)"
  shows "cont d' kvBucket = Some (Mapping.lookup (apply_data data c))"
  using assms(1,2) [unfolded applyBolt_def]
proof (cases rule: bbolt_updateE)
  case (commit t t')
  obtain e t1 where c: "bbCreateBucketIfNotExists api t kvBucket = (e, t1)" by fastforce
  have e: "e = None" using commit(2) c by (cases e) auto
  then have t1: "tcont t1 kvBucket = Some (Mapping.lookup data)"
    using bbolt_create [OF assms(1), of t kvBucket t1] c commit(1) assms(3) by simp
  consider "cOperation c = OperationNoop" | "cOperation c = OperationPut" | "cOperation c = OperationDelete"
    | "cOperation c \<notin> {OperationNoop, OperationPut, OperationDelete}" by blast
  then show ?thesis
    using commit(2,3) c e t1 bbolt_in_bucket(4) [OF assms(1) t1, of "cKey c" "cValue c" t']
      bbolt_in_bucket(5) [OF assms(1) t1, of "cKey c" t']
    by cases (simp_all add: apply_data_def lookup_update_fun lookup_delete_fun operation_names)
qed simp

lemma Apply_mirrored:
  assumes "bbolt_laws api cont tcont" and "mirrored cont s" and "Apply api s e = (None, s')"
  shows "mirrored cont s'"
proof (cases "kvDb s")
  case None
  then show ?thesis using assms(3) by (auto simp: Apply_memory mirrored_def split: sum.splits)
next
  case (Some d)
  obtain c where c: "DecodeCommand (eCommand e) = Inr c"
    using assms(3) by (cases "DecodeCommand (eCommand e)") (auto simp: Apply_def)
  obtain er d' where a: "applyBolt api d c = (er, d')" by fastforce
  then have er: "er = None" "s' = s\<lparr>kvDb := Some d', kvData := apply_data (kvData s) c\<rparr>"
    using assms(3) Some c by (cases er; simp add: Apply_def)+
  have "cont d' kvBucket = Some (Mapping.lookup (apply_data (kvData s) c))"
    using applyBolt_cont [OF assms(1)] a er(1) assms(2) Some by (simp add: mirrored_def)
  then show ?thesis using er(2) by (simp add: mirrored_def)
qed

lemma put_all_cont:
  assumes "bbolt_laws api cont tcont" and "put_all api t kvs = (None, t')" and "tcont t kvBucket = Some m"
    and "distinct (map fst kvs)"
  shows "tcont t' kvBucket = Some (\<lambda>k. case map_of kvs k of None \<Rightarrow> m k | Some v \<Rightarrow> Some v)"
  using assms(2-4)
proof (induction kvs arbitrary: t m)
  case (Cons kv kvs)
  obtain k v where kv: "kv = (k, v)" by fastforce
  obtain e t1 where p: "bbPut api t kvBucket k v = (e, t1)" by fastforce
  have e: "e = None" using Cons.prems(1) kv p by (cases e) auto
  have t1: "tcont t1 kvBucket = Some (m(k \<mapsto> v))"
    using bbolt_in_bucket(4) [OF assms(1) Cons.prems(2)] p e by simp
  have "map_of kvs k = None" using Cons.prems(3) kv by (simp add: map_of_eq_None_iff)
  moreover have "tcont t' kvBucket = Some (\<lambda>x. case map_of kvs x of None \<Rightarrow> (m(k \<mapsto> v)) x | Some v \<Rightarrow> Some v)"
    using Cons.IH [OF _ t1] Cons.prems kv p e by simp
  ultimately show ?case by (simp add: kv fun_eq_iff split: option.split)
qed simp

lemma restoreBolt_cont:
  assumes "bbolt_laws api cont tcont" and "restoreBolt api d data = (None, d')" and "finite (Mapping.keys data)"
  shows "cont d' kvBucket = Some (Mapping.lookup data)"
  using assms(1,2) [unfolded restoreBolt_def]
proof (cases rule: bbolt_updateE)
  case (commit t t')
  obtain e0 t0 where d: "bbDeleteBucket api t kvBucket = (e0, t0)" by fastforce
  have e0: "e0 = None \<or> e0 = Some (bbErrBucketNotFound api)" using commit(2) d by (auto split: if_splits)
  then have t0: "tcont t0 kvBucket = None" using bbolt_delete_bucket [OF assms(1) d] by simp
  obtain e1 t1 where c: "bbCreateBucketIfNotExists api t0 kvBucket = (e1, t1)" by fastforce
  have e1: "e1 = None" using commit(2) d e0 c by (cases e1) auto
  then have t1: "tcont t1 kvBucket = Some Map.empty" using bbolt_create [OF assms(1)] c t0 by simp
  have "put_all api t1 (data_entries data) = (None, t')" using commit(2) d e0 c e1 by auto
  from put_all_cont [OF assms(1) this t1] show ?thesis
    using commit(3) map_of_data_entries [OF assms(3)] by (simp add: fun_eq_iff option.case_eq_if)
qed simp

lemma decode_data_finite:
  "decode_data ms data = Some data' \<Longrightarrow> finite (Mapping.keys data) \<Longrightarrow> finite (Mapping.keys data')"
  by (induction ms data arbitrary: data' rule: decode_data.induct) (auto split: option.splits)

lemma unmarshal_data_finite: "unmarshal data_of_json b = Some data \<Longrightarrow> finite (Mapping.keys data)"
  using decode_data_finite [of _ Mapping.empty data]
  by (auto simp: unmarshal_def data_of_json_def split: bind_splits json.splits)

lemma RestoreSnapshot_mirrored:
  assumes "bbolt_laws api cont tcont" and "mirrored cont s" and "RestoreSnapshot api s b = (None, s')"
  shows "mirrored cont s'"
proof (cases "b = [] \<or> kvDb s = None")
  case True
  then show ?thesis using assms(2,3) by (auto simp: RestoreSnapshot_def mirrored_def split: option.splits if_splits)
next
  case False
  then obtain d where d: "kvDb s = Some d" and b: "b \<noteq> []" by blast
  obtain r where r: "unmarshal data_of_json b = Some r"
    using assms(3) b by (cases "unmarshal data_of_json b") (auto simp: RestoreSnapshot_def)
  obtain er d' where a: "restoreBolt api d r = (er, d')" by fastforce
  then have er: "er = None" "s' = s\<lparr>kvDb := Some d', kvData := r\<rparr>"
    using assms(3) b d r by (cases er; simp add: RestoreSnapshot_def)+
  then show ?thesis
    using restoreBolt_cont [OF assms(1) _ unmarshal_data_finite [OF r]] a by (simp add: mirrored_def)
qed

lemma NewBolt_mirrored:
  assumes "bbolt_laws api cont tcont" and "NewBoltKVStateMachine api (Some d) = Inr s"
  shows "mirrored cont s" and "cont d kvBucket = Some m \<Longrightarrow> Mapping.lookup (kvData s) = m"
proof -
  let ?f = "\<lambda>tx. bbCreateBucketIfNotExists api tx kvBucket"
  obtain e d' where u: "bbUpdate api d ?f = (e, d')" by fastforce
  have e: "e = None" using assms(2) u by (cases e) (auto simp: NewBoltKVStateMachine_def)
  obtain t t' where t: "tcont t = cont d" "?f t = (None, t')" "cont d' = tcont t'"
    using assms(1) u e by (cases rule: bbolt_updateE) auto
  have d': "cont d' kvBucket = Some (case cont d kvBucket of None \<Rightarrow> Map.empty | Some m \<Rightarrow> m)"
    using bbolt_create [OF assms(1) t(2)] t by (auto split: option.split)
  obtain tv where v: "bbView api d' = Inr tv"
    using assms(2) u e by (cases "bbView api d'") (auto simp: NewBoltKVStateMachine_def load_def)
  have tv: "tcont tv kvBucket = cont d' kvBucket" using bbolt_view [OF assms(1) v] by simp
  have s: "s = \<lparr>kvData = fold (\<lambda>(k, v). Mapping.update k v) (bbForEach api tv kvBucket) Mapping.empty, kvDb = Some d'\<rparr>"
    using assms(2) u e v d' tv bbolt_bucket [OF assms(1)] by (simp add: NewBoltKVStateMachine_def load_def)
  obtain m0 where m0: "cont d' kvBucket = Some m0" using d' by blast
  then have "tcont tv kvBucket = Some m0" using tv by simp
  note fe = bbolt_in_bucket(2,3) [OF assms(1) this]
  have "Mapping.lookup (kvData s) = m0"
    unfolding s by (rule ext) (simp add: lookup_fold_update [OF fe(2)] fe(1) option.case_eq_if)
  then have "cont d' kvBucket = Some (Mapping.lookup (kvData s))" using m0 by simp
  then show "mirrored cont s" and "cont d kvBucket = Some m \<Longrightarrow> Mapping.lookup (kvData s) = m"
    using s d' by (auto simp: mirrored_def)
qed

subsection \<open>The interface to the node\<close>

definition memory_ok :: "'d KVStateMachine \<Rightarrow> bool" where
  "memory_ok s = (kvDb s = None \<and> data_ok (kvData s))"

lemma Apply_failed_unchanged:
  "kvDb s = None \<Longrightarrow> Apply api s e = (Some err, s') \<Longrightarrow> s' = s"
  by (auto simp: Apply_memory split: sum.splits)

interpretation kv: state_machine "Apply api" Snapshot "RestoreSnapshot api" NewKVStateMachine memory_ok
  for api :: "('d, 't) bbolt"
proof
  show "memory_ok NewKVStateMachine" by (simp add: memory_ok_def NewKVStateMachine_def)
next
  fix s e err and s' :: "'d KVStateMachine"
  assume "memory_ok s" "Apply api s e = (err, s')"
  then show "memory_ok s'" using Apply_data_ok [of api s e err s']
    by (auto simp: memory_ok_def Apply_memory split: sum.splits)
next
  fix s e err and s' :: "'d KVStateMachine"
  assume "memory_ok s" "Apply api s e = (Some err, s')"
  then show "s' = s" using Apply_failed_unchanged by (auto simp: memory_ok_def)
next
  fix s m :: "'d KVStateMachine"
  assume "memory_ok s" "memory_ok m"
  then show "RestoreSnapshot api s (Snapshot m) = (None, m)"
    by (simp add: memory_ok_def RestoreSnapshot_memory)
qed

end
