(* ===== verification/Restart.thy ===== *)
theory Restart
  imports NodeInv
begin

text \<open>
  A node that comes back after a crash.  \<^verbatim>\<open>NewRaftNode\<close> starts from what the stable store
  holds; what it then knows of the node that saved it is \<open>recovered\<close>.
\<close>

definition recovered :: "'s RaftNode \<Rightarrow> string \<Rightarrow> string list \<Rightarrow> 's \<Rightarrow> 's RaftNode" where
  "recovered m i ps s =
     \<lparr>nid = i, peers = (if peers m = [] then ps else peers m), selfMember = selfMember m,
      membershipConfigured = True, state = Follower, leaderID = [], currentTerm = currentTerm m,
      votedFor = votedFor m, nlog = nlog m, commitIndex = lastIncludedIndex m,
      lastApplied = lastIncludedIndex m, lastIncludedIndex = lastIncludedIndex m,
      lastIncludedTerm = lastIncludedTerm m, snapshot = snapshot m, nextIndex = None,
      matchIndex = None, store = Some s, commitReady = False\<rparr>"

lemma NewRaftNode_recovered:
  "ld s = Inr (persistent_of m) \<Longrightarrow> NewRaftNode ld i ps (Some s) = Inr (recovered m i ps s)"
  by (cases "peers m = []") (simp_all add: NewRaftNode_def persistent_of_def recovered_def Let_def clonePeers_def slice_elems_def)

lemma node_ok_recovered:
  assumes "node_ok m" and "nid m = i" and "distinct ps" and "i \<notin> set ps"
  shows "node_ok (recovered m i ps s)"
  using assms by (auto simp: node_ok_def ok_defs recovered_def)

text \<open>A node with no store, or with one that nothing was saved in, starts from nothing.\<close>

lemma node_ok_New:
  assumes "NewRaftNode ld i ps st = Inr n" and "distinct ps" and "i \<notin> set ps"
    and "\<And>s. st = Some s \<Longrightarrow> ld s = Inr zeroPersistentState"
  shows "node_ok n"
  using assms
  by (cases st) (auto simp: NewRaftNode_def node_ok_def ok_defs zeroPersistentState_def Let_def)

subsection \<open>What a node asks of its stable store\<close>

text \<open>
  The \<^verbatim>\<open>StableStore\<close> interface of \<^verbatim>\<open>raft/types.go\<close>.  \<open>saved\<close> is what is on disk: a save that
  succeeds replaces it, one that fails may or may not have done so, and \<^verbatim>\<open>Load\<close>, when it
  returns a state, returns that one.  The laws hold for states in \<open>fit\<close>.
\<close>

locale stable_store =
  fixes sv :: "'s saver" and ld :: "'s loader" and saved :: "'s \<Rightarrow> PersistentState"
    and fit :: "PersistentState \<Rightarrow> bool"
  assumes save_done: "fit ps \<Longrightarrow> sv s ps = (None, s') \<Longrightarrow> saved s' = ps"
    and save_failed: "fit ps \<Longrightarrow> sv s ps = (Some err, s') \<Longrightarrow> saved s' = saved s \<or> saved s' = ps"
    and load_saved: "ld s = Inr ps \<Longrightarrow> ps = saved s"
begin

lemma persist_saved:
  assumes "store n = Some s" and "fit (persistent_of n)"
  obtains s' where "persist_store sv n = Some s'"
    "saved s' = persistent_of n \<or> persist_err sv n \<noteq> None \<and> saved s' = saved s"
proof -
  obtain err s' where r: "sv s (persistent_of n) = (err, s')" by fastforce
  then have "saved s' = persistent_of n \<or> err \<noteq> None \<and> saved s' = saved s"
    using save_done [OF assms(2), of s s'] save_failed [OF assms(2), of s _ s'] by (cases err) auto
  then show ?thesis
    using that [of s'] assms(1) r by (simp add: persist_store_def persist_err_def)
qed

text \<open>A crash after a save that succeeded loses nothing of the persistent state.\<close>

lemma restart_after_save:
  assumes "store n = Some s" and "fit (persistent_of n)" and "persistLocked sv n = (None, n')"
    and "NewRaftNode ld i ps (store n') = Inr k"
  shows "\<exists>s'. store n' = Some s' \<and> k = recovered n i ps s'"
proof -
  obtain s' where s': "persist_store sv n = Some s'" "saved s' = persistent_of n"
    using persist_saved [OF assms(1,2)] assms(3) by (auto simp: persistLocked_pair)
  then have st: "store n' = Some s'" using assms(3) by (auto simp: persistLocked_pair)
  then obtain pst where l: "ld s' = Inr pst"
    using assms(4) by (cases "ld s'") (auto simp: NewRaftNode_def)
  then have "ld s' = Inr (persistent_of n)" using load_saved [OF l] s'(2) by simp
  then show ?thesis using assms(4) st NewRaftNode_recovered [of ld s' n i ps] by simp
qed

end

end
