(* ===== verification/MainFacts.thy ===== *)
theory MainFacts
  imports Process KVFacts Restart
begin

text \<open>
  Facts about the process of \<^verbatim>\<open>cmd/node/main.go\<close>: the peer flags, one round of the apply
  loop, and what a start leaves behind.
\<close>

subsection \<open>Trimming\<close>

lemma HasPrefix_append [simp]: "HasPrefix (p @ s) p"
  by (simp add: HasPrefix_def)

lemma HasPrefix_iff: "HasPrefix s p \<longleftrightarrow> (\<exists>t. s = p @ t)"
  by (metis HasPrefix_append HasPrefix_def append_take_drop_id)

lemma HasSuffix_iff: "HasSuffix s p \<longleftrightarrow> (\<exists>t. s = t @ p)"
  unfolding HasSuffix_def HasPrefix_iff by (metis rev_append rev_rev_ident)

lemma space_prefix_0: "space_prefix s = 0 \<longleftrightarrow> (\<forall>p \<in> set space_seqs. \<not> HasPrefix s p)"
proof -
  have "\<forall>p \<in> set space_seqs. length p > 0" by (simp add: space_seqs_def)
  then show ?thesis
    by (auto simp: space_prefix_def find_None_iff find_Some_iff split: option.split)
qed

lemma space_suffix_0: "space_suffix s = 0 \<longleftrightarrow> (\<forall>p \<in> set space_seqs. \<not> HasSuffix s p)"
proof -
  have "\<forall>p \<in> set space_seqs. length p > 0" by (simp add: space_seqs_def)
  then show ?thesis
    by (auto simp: space_suffix_def find_None_iff find_Some_iff split: option.split)
qed

text \<open>A string without white space at either end.\<close>

definition trimmed :: "string \<Rightarrow> bool" where
  "trimmed s = (\<forall>p \<in> set space_seqs. \<not> HasPrefix s p \<and> \<not> HasSuffix s p)"

lemma trim_left_suffix: "\<exists>t. s = t @ trim_left s"
proof (induction s rule: trim_left.induct)
  case (1 s)
  show ?case
  proof (cases "s = [] \<or> space_prefix s = 0")
    case False
    from 1 [OF this] obtain t where "drop (space_prefix s) s = t @ trim_left (drop (space_prefix s) s)" ..
    then have "s = (take (space_prefix s) s @ t) @ trim_left s"
      using False trim_left.simps [of s] by (metis append.assoc append_take_drop_id)
    then show ?thesis by blast
  qed (auto simp: trim_left.simps [of s])
qed

lemma trim_right_prefix: "\<exists>t. s = trim_right s @ t"
proof (induction s rule: trim_right.induct)
  case (1 s)
  show ?case
  proof (cases "s = [] \<or> space_suffix s = 0")
    case False
    let ?k = "length s - space_suffix s"
    from 1 [OF False] obtain t where "take ?k s = trim_right (take ?k s) @ t" ..
    then have "s = trim_right s @ (t @ drop ?k s)"
      using False trim_right.simps [of s] by (metis append.assoc append_take_drop_id)
    then show ?thesis by blast
  qed (auto simp: trim_right.simps [of s])
qed

lemma trim_left_no_prefix: "p \<in> set space_seqs \<Longrightarrow> \<not> HasPrefix (trim_left s) p"
proof (induction s rule: trim_left.induct)
  case (1 s)
  have "p \<noteq> []" using 1(2) by (auto simp: space_seqs_def)
  then show ?case
    using 1 space_prefix_0 [of s] trim_left.simps [of s] by (cases "s = [] \<or> space_prefix s = 0") (auto simp: HasPrefix_def)
qed

lemma trim_right_no_suffix: "p \<in> set space_seqs \<Longrightarrow> \<not> HasSuffix (trim_right s) p"
proof (induction s rule: trim_right.induct)
  case (1 s)
  have "p \<noteq> []" using 1(2) by (auto simp: space_seqs_def)
  then show ?case
    using 1 space_suffix_0 [of s] trim_right.simps [of s]
    by (cases "s = [] \<or> space_suffix s = 0") (auto simp: HasSuffix_def HasPrefix_def)
qed

lemma trimmed_TrimSpace: "trimmed (TrimSpace s)"
  unfolding trimmed_def
proof (intro ballI conjI)
  fix p assume p: "p \<in> set space_seqs"
  obtain t where t: "trim_left s = TrimSpace s @ t" using trim_right_prefix [of "trim_left s"] by (auto simp: TrimSpace_def)
  show "\<not> HasPrefix (TrimSpace s) p"
    using trim_left_no_prefix [OF p, of s] t by (auto simp: HasPrefix_iff)
  show "\<not> HasSuffix (TrimSpace s) p" using trim_right_no_suffix [OF p] by (simp add: TrimSpace_def)
qed

lemma TrimSpace_trimmed: "trimmed s \<Longrightarrow> TrimSpace s = s"
  using space_prefix_0 [of s] space_suffix_0 [of s]
  by (simp add: trimmed_def TrimSpace_def trim_left.simps [of s] trim_right.simps [of s])

lemma TrimSpace_part: "\<exists>a b. s = a @ TrimSpace s @ b"
  using trim_left_suffix [of s] trim_right_prefix [of "trim_left s"] by (metis TrimSpace_def)

lemma TrimSpace_set: "c \<in> set (TrimSpace s) \<Longrightarrow> c \<in> set s"
  using TrimSpace_part [of s] by (metis UnCI set_append)

subsection \<open>Peer flags\<close>

lemma Split_parts: "p \<in> set (Split s sep) \<Longrightarrow> sep \<notin> set p"
  by (induction s arbitrary: p) (auto split: if_splits list.splits)

lemma SplitN2_parts:
  assumes "length (SplitN2 s sep) = 2"
  shows "s = SplitN2 s sep ! 0 @ sep # SplitN2 s sep ! 1" and "sep \<notin> set (SplitN2 s sep ! 0)"
proof -
  have i: "sep \<in> set s" using assms by (auto simp: SplitN2_def split: if_splits)
  let ?d = "dropWhile (\<lambda>c. c \<noteq> sep) s"
  have "?d \<noteq> []" using i by auto
  moreover from this have "hd ?d = sep" using hd_dropWhile [of "\<lambda>c. c \<noteq> sep" s] by simp
  ultimately have "?d = sep # tl ?d" by (metis list.collapse)
  then have "s = takeWhile (\<lambda>c. c \<noteq> sep) s @ sep # tl ?d" by (metis takeWhile_dropWhile_id)
  then show "s = SplitN2 s sep ! 0 @ sep # SplitN2 s sep ! 1" using i by (simp add: SplitN2_def)
  show "sep \<notin> set (SplitN2 s sep ! 0)" using i by (auto simp: SplitN2_def dest: set_takeWhileD)
qed

text \<open>What the flags of one peer can be.\<close>

definition good_peer :: "string \<Rightarrow> string \<Rightarrow> bool" where
  "good_peer i a =
     (i \<noteq> [] \<and> trimmed i \<and> CHR ''='' \<notin> set i \<and> CHR '','' \<notin> set i \<and> a \<noteq> [] \<and> trimmed a \<and> CHR '','' \<notin> set a)"

definition good_peers :: "string list \<Rightarrow> (string \<rightharpoonup> string) \<Rightarrow> bool" where
  "good_peers ids addrs =
     (distinct ids \<and> set ids = dom addrs \<and> (\<forall>i a. addrs i = Some a \<longrightarrow> good_peer i a))"

lemma parse_loop_good:
  "parse_loop raws ids addrs = Inr (ids', addrs') \<Longrightarrow> good_peers ids addrs \<Longrightarrow> \<forall>r \<in> set raws. CHR '','' \<notin> set r
     \<Longrightarrow> good_peers ids' addrs'"
proof (induction raws arbitrary: ids addrs)
  case (Cons raw raws)
  let ?parts = "SplitN2 (TrimSpace raw) (CHR ''='')"
  let ?i = "TrimSpace (?parts ! 0)" and ?a = "TrimSpace (?parts ! 1)"
  have c: "length ?parts = 2" "?i \<noteq> []" "?a \<noteq> []" "addrs ?i = None"
      "parse_loop raws (ids @ [?i]) (addrs(?i \<mapsto> ?a)) = Inr (ids', addrs')"
    using Cons.prems(1) by (auto simp: Let_def split: if_splits)
  note parts = SplitN2_parts [OF c(1)]
  have "c \<in> set raw" if "c \<in> set (?parts ! 0) \<or> c \<in> set (?parts ! 1)" for c
    using that arg_cong [OF parts(1), of set] TrimSpace_set [of c raw] by auto
  then have "CHR '','' \<notin> set (?parts ! 0)" "CHR '','' \<notin> set (?parts ! 1)" using Cons.prems(3) by auto
  then have "good_peer ?i ?a"
    using c(2,3) parts(2) trimmed_TrimSpace TrimSpace_set by (auto simp: good_peer_def)
  then have g: "good_peers (ids @ [?i]) (addrs(?i \<mapsto> ?a))"
    using Cons.prems(2) c(4) by (auto simp: good_peers_def dom_def)
  show ?case by (rule Cons.IH [OF c(5) g]) (use Cons.prems(3) in simp)
qed simp

lemma parsePeers_good: "parsePeers v = Inr (ids, addrs) \<Longrightarrow> good_peers ids addrs"
  using parse_loop_good [of "Split v (CHR '','')" "[]" Map.empty ids addrs] Split_parts [of _ v "CHR '',''"]
  by (auto simp: parsePeers_def good_peers_def split: if_splits)

text \<open>Writing a list of peers as the flag takes it.\<close>

definition print_peer :: "string \<times> string \<Rightarrow> string" where
  "print_peer p = fst p @ CHR ''='' # snd p"

definition print_peers :: "(string \<times> string) list \<Rightarrow> string" where
  "print_peers ps = join_with (CHR '','') (map print_peer ps)"

lemma Split_append: "sep \<notin> set p \<Longrightarrow> Split (p @ sep # s) sep = p # Split s sep"
  by (induction p) auto

lemma Split_whole: "sep \<notin> set p \<Longrightarrow> Split p sep = [p]"
  by (induction p) auto

lemma Split_join:
  "\<forall>p \<in> set ps. sep \<notin> set p \<Longrightarrow> ps \<noteq> [] \<Longrightarrow> Split (join_with sep ps) sep = ps"
  by (induction sep ps rule: join_with.induct) (auto simp: Split_append Split_whole)

lemma seqs_no_eq: "p \<in> set space_seqs \<Longrightarrow> CHR ''='' \<notin> set p"
  by (auto simp: space_seqs_def)

lemma space_prefix_parts:
  assumes "space_prefix s \<noteq> 0"
  obtains p where "p \<in> set space_seqs" "s = p @ drop (space_prefix s) s"
proof -
  obtain p where p: "find (HasPrefix s) space_seqs = Some p" "space_prefix s = length p"
    using assms by (auto simp: space_prefix_def split: option.splits)
  then have "p \<in> set space_seqs" "HasPrefix s p" by (auto simp: find_Some_iff)
  then show ?thesis using that [of p] p(2) by (auto simp: HasPrefix_iff)
qed

lemma space_suffix_parts:
  assumes "space_suffix s \<noteq> 0"
  obtains p where "p \<in> set space_seqs" "s = take (length s - space_suffix s) s @ p"
proof -
  obtain p where p: "find (HasSuffix s) space_seqs = Some p" "space_suffix s = length p"
    using assms by (auto simp: space_suffix_def split: option.splits)
  then have "p \<in> set space_seqs" "HasSuffix s p" by (auto simp: find_Some_iff)
  then show ?thesis using that [of p] p(2) by (auto simp: HasSuffix_iff)
qed

lemma trim_left_keeps: "CHR ''='' \<in> set s \<Longrightarrow> CHR ''='' \<in> set (trim_left s)"
proof (induction s rule: trim_left.induct)
  case (1 s)
  show ?case
  proof (cases "s = [] \<or> space_prefix s = 0")
    case False
    then obtain p where p: "p \<in> set space_seqs" "s = p @ drop (space_prefix s) s" by (meson space_prefix_parts)
    then have "CHR ''='' \<in> set (drop (space_prefix s) s)"
      using 1(2) seqs_no_eq [OF p(1)] by (metis Un_iff set_append)
    then show ?thesis using 1(1) [OF False] False trim_left.simps [of s] by simp
  qed (use 1(2) trim_left.simps [of s] in auto)
qed

lemma trim_right_keeps: "CHR ''='' \<in> set s \<Longrightarrow> CHR ''='' \<in> set (trim_right s)"
proof (induction s rule: trim_right.induct)
  case (1 s)
  show ?case
  proof (cases "s = [] \<or> space_suffix s = 0")
    case False
    then obtain p where p: "p \<in> set space_seqs" "s = take (length s - space_suffix s) s @ p" by (meson space_suffix_parts)
    then have "CHR ''='' \<in> set (take (length s - space_suffix s) s)"
      using 1(2) seqs_no_eq [OF p(1)] by (metis Un_iff set_append)
    then show ?thesis using 1(1) [OF False] False trim_right.simps [of s] by simp
  qed (use 1(2) trim_right.simps [of s] in auto)
qed

lemma TrimSpace_nonempty: "CHR ''='' \<in> set s \<Longrightarrow> TrimSpace s \<noteq> []"
  using trim_right_keeps [OF trim_left_keeps, of s] by (auto simp: TrimSpace_def)

lemma print_peers_eq: "ps \<noteq> [] \<Longrightarrow> CHR ''='' \<in> set (print_peers ps)"
  by (cases ps; cases "tl ps") (auto simp: print_peers_def print_peer_def)

lemma print_peer_trimmed:
  assumes "good_peer i a"
  shows "trimmed (print_peer (i, a))"
  unfolding trimmed_def
proof (intro ballI conjI)
  fix p assume p: "p \<in> set space_seqs"
  note eq = seqs_no_eq [OF p]
  show "\<not> HasPrefix (print_peer (i, a)) p"
  proof
    assume "HasPrefix (print_peer (i, a)) p"
    then obtain t where "i @ CHR ''='' # a = p @ t" by (auto simp: HasPrefix_iff print_peer_def)
    then have "\<exists>u. i = p @ u" using eq by (auto simp: append_eq_append_conv2 Cons_eq_append_conv)
    then show False using assms p by (auto simp: good_peer_def trimmed_def HasPrefix_iff)
  qed
  show "\<not> HasSuffix (print_peer (i, a)) p"
  proof
    assume "HasSuffix (print_peer (i, a)) p"
    then obtain t where "i @ CHR ''='' # a = t @ p" by (auto simp: HasSuffix_iff print_peer_def)
    then have "\<exists>u. a = u @ p" using eq by (auto simp: append_eq_append_conv2 Cons_eq_append_conv append_eq_Cons_conv)
    then show False using assms p by (auto simp: good_peer_def trimmed_def HasSuffix_iff)
  qed
qed

lemma SplitN2_print: "CHR ''='' \<notin> set i \<Longrightarrow> SplitN2 (print_peer (i, a)) (CHR ''='') = [i, a]"
proof -
  assume "CHR ''='' \<notin> set i"
  then have "takeWhile (\<lambda>c. c \<noteq> CHR ''='') (i @ CHR ''='' # a) = i" "dropWhile (\<lambda>c. c \<noteq> CHR ''='') (i @ CHR ''='' # a) = CHR ''='' # a"
    by (induction i) auto
  then show ?thesis by (simp add: SplitN2_def print_peer_def)
qed

lemma parse_loop_print:
  "\<forall>(i, a) \<in> set ps. good_peer i a \<Longrightarrow> distinct (map fst ps) \<Longrightarrow> set (map fst ps) \<inter> dom addrs = {} \<Longrightarrow>
     parse_loop (map print_peer ps) ids addrs = Inr (ids @ map fst ps, addrs ++ map_of ps)"
proof (induction ps arbitrary: ids addrs)
  case (Cons p ps)
  obtain i a where p: "p = (i, a)" by (cases p)
  have g: "good_peer i a" using Cons.prems(1) p by simp
  then have t: "TrimSpace (print_peer (i, a)) = print_peer (i, a)" "TrimSpace i = i" "TrimSpace a = a"
      "SplitN2 (print_peer (i, a)) (CHR ''='') = [i, a]" "i \<noteq> []" "a \<noteq> []"
    by (auto simp: print_peer_trimmed TrimSpace_trimmed good_peer_def SplitN2_print)
  have n: "addrs i = None" using Cons.prems(3) p by auto
  have eq: "(addrs(i \<mapsto> a)) ++ map_of ps = addrs ++ map_of (p # ps)"
    using Cons.prems(2) p map_of_eq_None_iff [of ps i] by (auto simp: fun_eq_iff map_add_def split: option.splits)
  have ih: "parse_loop (map print_peer ps) (ids @ [i]) (addrs(i \<mapsto> a))
      = Inr ((ids @ [i]) @ map fst ps, addrs(i \<mapsto> a) ++ map_of ps)"
  proof (rule Cons.IH)
    have "fst ` set ps \<inter> dom addrs = {}" "i \<notin> fst ` set ps" using Cons.prems(2,3) p by auto
    then show "set (map fst ps) \<inter> dom (addrs(i \<mapsto> a)) = {}" by (simp add: Int_insert_right)
  qed (use Cons.prems(1,2) p in auto)
  have "parse_loop (map print_peer (p # ps)) ids addrs = parse_loop (map print_peer ps) (ids @ [i]) (addrs(i \<mapsto> a))"
    using t n p by simp
  also note ih
  also have "(ids @ [i]) @ map fst ps = ids @ map fst (p # ps)" using p by simp
  finally show ?case unfolding eq .
qed simp

lemma parsePeers_print:
  assumes "list_all (\<lambda>(i, a). good_peer i a) ps" and "distinct (map fst ps)"
  shows "parsePeers (print_peers ps) = Inr (map fst ps, map_of ps)"
proof (cases ps)
  case (Cons p qs)
  have g: "\<forall>(i, a) \<in> set ps. good_peer i a" using assms(1) by (simp add: list_all_iff)
  have "\<forall>p \<in> set (map print_peer ps). CHR '','' \<notin> set p"
    using g by (auto simp: print_peer_def good_peer_def)
  then have s: "Split (print_peers ps) (CHR '','') = map print_peer ps"
    using Cons unfolding print_peers_def by (intro Split_join) simp_all
  have "TrimSpace (print_peers ps) \<noteq> []" using Cons by (intro TrimSpace_nonempty print_peers_eq) simp
  then show ?thesis using s parse_loop_print [OF g assms(2), of Map.empty "[]"] by (simp add: parsePeers_def)
qed (simp add: parsePeers_def print_peers_def TrimSpace_def trim_left.simps trim_right.simps)

subsection \<open>A round of the apply loop\<close>

text \<open>The loop when nobody interrupts it, from one wait to the next.\<close>

inductive loop_alone ::
  "'s saver \<Rightarrow> ('d, 't) bbolt \<Rightarrow> LoopRun \<Rightarrow> 's RaftNode \<Rightarrow> 'd KVStateMachine
     \<Rightarrow> LoopRun \<Rightarrow> 's RaftNode \<Rightarrow> 'd KVStateMachine \<Rightarrow> bool"
  for sv bb where
  here: "loop_alone sv bb r n s r n s"
| more: "applyCommittedLoop sv bb AlRun r n s = Some (r', n', s') \<Longrightarrow> loop_alone sv bb r' n' s' r'' n'' s''
    \<Longrightarrow> loop_alone sv bb r n s r'' n'' s''"

lemma loop_alone_trans:
  "loop_alone sv bb r n s r' n' s' \<Longrightarrow> loop_alone sv bb r' n' s' r'' n'' s'' \<Longrightarrow> loop_alone sv bb r n s r'' n'' s''"
  by (induction rule: loop_alone.induct) (auto intro: loop_alone.more)

lemma loop_applies:
  "ap_run sv (Apply bb) r n s err n' s' \<Longrightarrow> loop_alone sv bb (al_applied r) n s (al_applied (ApDone err)) n' s'"
proof (induction rule: ap_run.induct)
  case (advance r n m r' n' m' err n'' m'')
  have "al_applied r = AlApply r" using advance(1) by (cases r) auto
  then show ?case using advance by (intro loop_alone.more [of sv bb "al_applied r"]) auto
qed (rule loop_alone.here)

text \<open>When the threshold is not reached, fewer than 64 applied entries are in the log.\<close>

lemma below_threshold:
  assumes "node_ok n" and "\<not> ShouldSnapshot n snapshotThresholdEntries"
  shows "unat (lastApplied n) < unat (lastIncludedIndex n) + 64"
proof -
  have le: "unat (lastIncludedIndex n) \<le> unat (lastApplied n)" using assms(1) by (simp add: node_ok_def index_ok_def word_le_nat_alt)
  have lt: "unat (lastApplied n) < unat (lastIncludedIndex n + 64)"
    using assms(2) by (simp add: ShouldSnapshot_def snapshotThresholdEntries_def word_le_nat_alt)
  have "unat (lastIncludedIndex n + 64) \<le> unat (lastIncludedIndex n) + 64"
    using unat_word_ariths(1) [of "lastIncludedIndex n" 64] by simp
  with lt show ?thesis by linarith
qed

lemma loop_round:
  assumes "node_ok n"
  shows "\<exists>r n' s'. loop_alone sv bb (AlApply ApNext) n s r n' s' \<and> node_ok n'
    \<and> ((\<exists>err. r = AlStopped (Some err))
       \<or> r = AlWait \<and> lastApplied n' = commitIndex n' \<and> unat (lastApplied n') < unat (lastIncludedIndex n') + 64
         \<and> (lastIncludedIndex n' = lastIncludedIndex n \<or> lastIncludedIndex n' = lastApplied n' \<and> snapshot n' = Snapshot s'))"
proof -
  obtain err n1 s1 where a: "ApplyCommitted sv (Apply bb) n s = Some (err, n1, s1)" "node_ok n1" "apply_run (Apply bb) n s err n1 s1"
    using ApplyCommitted_runs [OF assms, of sv "Apply bb" s] by blast
  then have l: "loop_alone sv bb (AlApply ApNext) n s (al_applied (ApDone err)) n1 s1"
    using loop_applies [of sv bb ApNext] by (simp add: ap_run_iff)
  have li: "lastIncludedIndex n1 = lastIncludedIndex n" using a(3) by (simp add: apply_run_def)
  show ?thesis
  proof (cases err)
    case (Some e)
    then show ?thesis using l a(2) by (intro exI [of _ "AlStopped (Some e)"] exI [of _ n1] exI [of _ s1]) simp
  next
    case None
    then have c: "lastApplied n1 = commitIndex n1" using a(3) by (auto simp: apply_run_def)
    have l1: "loop_alone sv bb (AlApply ApNext) n s AlShould n1 s1" using l None by simp
    show ?thesis
    proof (cases "ShouldSnapshot n1 snapshotThresholdEntries")
      case False
      have "loop_alone sv bb AlShould n1 s1 AlWait n1 s1"
        by (rule loop_alone.more [of sv bb AlShould n1 s1 AlWait n1 s1]) (simp_all add: False loop_alone.here)
      then show ?thesis
        using loop_alone_trans [OF l1] below_threshold [OF a(2) False] a(2) c li by blast
    next
      case True
      obtain er n2 where k: "Compact sv n1 (Snapshot s1) = Some (er, n2)" "node_ok n2"
        by (rule Compact_ok [OF a(2)])
      let ?stop = "if er \<noteq> None then AlStopped er else AlWait"
      have "loop_alone sv bb (AlCompact (Snapshot s1)) n1 s1 ?stop n2 s1"
        by (rule loop_alone.more [of sv bb "AlCompact (Snapshot s1)" n1 s1 ?stop n2 s1]) (simp_all add: k(1) loop_alone.here)
      then have "loop_alone sv bb AlSnapshot n1 s1 ?stop n2 s1" by (rule loop_alone.more [rotated]) simp
      then have "loop_alone sv bb AlShould n1 s1 ?stop n2 s1" by (rule loop_alone.more [rotated]) (simp add: True)
      from loop_alone_trans [OF l1 this]
      have l2: "loop_alone sv bb (AlApply ApNext) n s (if er \<noteq> None then AlStopped er else AlWait) n2 s1" .
      show ?thesis
      proof (cases er)
        case None
        then consider "n2 = n1" "lastApplied n1 \<le> lastIncludedIndex n1" | st where "n2 = (compacted n1 (Snapshot s1))\<lparr>store := st\<rparr>"
          using k(1) by (auto simp: Compact_eq [OF a(2)] persistLocked_pair split: if_splits)
        then have "lastApplied n2 = commitIndex n2 \<and> unat (lastApplied n2) < unat (lastIncludedIndex n2) + 64
            \<and> (lastIncludedIndex n2 = lastIncludedIndex n \<or> lastIncludedIndex n2 = lastApplied n2 \<and> snapshot n2 = Snapshot s1)"
          by cases (use c li in \<open>auto simp: compacted_def word_le_nat_alt\<close>)
        then show ?thesis using l2 k(2) None by auto
      next
        case (Some e)
        then show ?thesis using l2 k(2) by auto
      qed
    qed
  qed
qed

subsection \<open>Starting\<close>

text \<open>What the raft store can hold when a process starts: nothing, or what a well-formed node saved.\<close>

definition saved_well :: "string \<Rightarrow> PersistentState \<Rightarrow> bool" where
  "saved_well i pst = (pst = zeroPersistentState \<or> (\<exists>m :: unit RaftNode. node_ok m \<and> nid m = i \<and> pst = persistent_of m))"

lemma started_node_ok:
  assumes "NewRaftNode ld i ps (Some s) = Inr n" and "distinct ps" and "i \<notin> set ps"
    and "ld s = Inr pst" and "saved_well i pst"
  shows "node_ok n \<and> nid n = i \<and> state n = Follower \<and> lastApplied n = lastIncludedIndex n"
proof (cases "pst = zeroPersistentState")
  case True
  then show ?thesis using node_ok_New [OF assms(1-3)] assms(1,4) by (auto simp: NewRaftNode_def Let_def)
next
  case False
  then obtain m :: "unit RaftNode" where m: "node_ok m" "nid m = i" "pst = persistent_of m"
    using assms(5) by (auto simp: saved_well_def)
  have cp: "clonePeers [] = None" "qs \<noteq> [] \<Longrightarrow> clonePeers qs = Some qs" "slice_elems (Some qs) = qs" for qs
    by (simp_all add: clonePeers_def slice_elems_def)
  have "node_ok n"
    using assms(1-4) m
    by (cases "peers m = []") (auto simp: NewRaftNode_def persistent_of_def Let_def cp node_ok_def ok_defs)
  moreover have "nid n = i \<and> state n = Follower \<and> lastApplied n = lastIncludedIndex n"
    using assms(1,4) by (auto simp: NewRaftNode_def Let_def)
  ultimately show ?thesis by simp
qed

lemma start_node_parts:
  assumes "start_node bb env f ids = Inr n"
  obtains stable where "NewRaftNode (Load bb) (flId f) ids (Some stable) = Inr n" "store n = Some stable"
proof -
  obtain stable where s: "NewRaftNode (Load bb) (flId f) ids (Some stable) = Inr n"
    using assms by (auto simp: start_node_def split: option.splits sum.splits)
  then have "store n = Some stable" by (auto simp: NewRaftNode_def Let_def split: sum.splits)
  with s show ?thesis by (rule that)
qed

lemma start_machine_parts:
  assumes "start_machine bb env f snap = Inr k"
  obtains db m where "NewBoltKVStateMachine bb (Some db) = Inr m"
    "if snap = [] then k = m else RestoreSnapshot bb m snap = (None, k)"
  using assms that by (auto simp: start_machine_def split: option.splits sum.splits if_splits prod.splits)

lemma run_start_parts:
  assumes "run_start bb env f = Some (Inr st)" and "parsePeers (flPeers f) = Inr (ids, addrs)"
  shows "start_node bb env f ids = Inr (stNode st)" "start_machine bb env f (snapshot (stNode st)) = Inr (stMachine st)"
    "dom (stClients st) = set ids"
proof -
  obtain node machine clients conns where r: "start_node bb env f ids = Inr node" "start_machine bb env f (snapshot node) = Inr machine"
      "DialPeerClient (envDial env) (map (\<lambda>i. (i, case addrs i of None \<Rightarrow> [] | Some a \<Rightarrow> a)) ids) = Inr (clients, conns)"
      "stNode st = node" "stMachine st = machine" "stClients st = clients"
    using assms by (auto simp: run_start_def split: if_splits sum.splits option.splits prod.splits)
  show "start_node bb env f ids = Inr (stNode st)" "start_machine bb env f (snapshot (stNode st)) = Inr (stMachine st)"
    using r by simp_all
  show "dom (stClients st) = set ids" using DialPeerClient_clients [OF r(3)] r(6) by (auto simp: image_iff)
qed

lemma started_machine:
  assumes "bbolt_laws bb cont tcont" and "start_machine bb env f snap = Inr k"
  shows "mirrored cont k \<and> (snap \<noteq> [] \<longrightarrow> unmarshal data_of_json snap = Some (kvData k))"
proof -
  obtain db m where m: "NewBoltKVStateMachine bb (Some db) = Inr m"
      "if snap = [] then k = m else RestoreSnapshot bb m snap = (None, k)"
    by (rule start_machine_parts [OF assms(2)])
  have mm: "mirrored cont m" by (rule NewBolt_mirrored(1) [OF assms(1) m(1)])
  show ?thesis
  proof (cases "snap = []")
    case False
    then have r: "RestoreSnapshot bb m snap = (None, k)" using m(2) by simp
    then have "unmarshal data_of_json snap = Some (kvData k)"
      using False by (auto simp: RestoreSnapshot_def split: option.splits prod.splits)
    then show ?thesis using RestoreSnapshot_mirrored [OF assms(1) mm r] by simp
  qed (use mm m(2) in simp)
qed

end
