(* ===== verification/KVProps.thy ===== *)
theory KVProps
  imports KVFacts
begin

text \<open>
  Properties of the key-value state machine as the node runs it: what its commands mean,
  what a read returns, and that a restart from the database or from a snapshot followed by a
  replay of the log ends in the same state.
\<close>

subsection \<open>A run of the state machine\<close>

text \<open>The commands among some entries, in order.\<close>

fun kv_commands :: "LogEntry list \<Rightarrow> Command list" where
  "kv_commands [] = []"
| "kv_commands (e # es) =
     (if is_membership (eCommand e) then kv_commands es
      else case DecodeCommand (eCommand e) of Inl _ \<Rightarrow> kv_commands es | Inr c \<Rightarrow> c # kv_commands es)"

lemma kv_commands_append [simp]: "kv_commands (xs @ ys) = kv_commands xs @ kv_commands ys"
  by (induction xs) (auto split: sum.split)

lemma apply_all_simps [simp]:
  "apply_all data [] = data" "apply_all data (c # cs) = apply_all (apply_data data c) cs"
  "apply_all data (cs @ ds) = apply_all (apply_all data cs) ds"
  by (simp_all add: apply_all_def)

lemma sm_run_data:
  "sm_run (Apply api) s es = (None, s') \<Longrightarrow> kvData s' = apply_all (kvData s) (kv_commands es)"
proof (induction es arbitrary: s)
  case (Cons e es)
  show ?case
  proof (cases "is_membership (eCommand e)")
    case False
    obtain er s1 where a: "Apply api s e = (er, s1)" by fastforce
    then have er: "er = None" using Cons.prems False by (cases er) auto
    then obtain c where "DecodeCommand (eCommand e) = Inr c" "kvData s1 = apply_data (kvData s) c"
      using a by (auto simp: Apply_def split: sum.splits prod.splits option.splits)
    then show ?thesis using Cons a er False by simp
  qed (use Cons in simp)
qed simp

lemma sm_run_mirrored:
  assumes "bbolt_laws api cont tcont"
  shows "mirrored cont s \<Longrightarrow> sm_run (Apply api) s es = (None, s') \<Longrightarrow> mirrored cont s'"
proof (induction es arbitrary: s)
  case (Cons e es)
  obtain er s1 where a: "Apply api s e = (er, s1)" by fastforce
  then show ?case
    using Cons Apply_mirrored [OF assms Cons.prems(1), of e s1] by (cases er) (auto split: if_splits)
qed simp

subsection \<open>Reads\<close>

text \<open>C24. A read after a run of entries returns what the last command on the key left: the value
  of the last put, nothing after a delete, and what was there before if no command touched
  the key.\<close>

theorem read_last_write:
  assumes "sm_run (Apply api) s es = (None, s')"
  shows "Get s' k = (case last_effect (kv_commands es) k of
      None \<Rightarrow> Get s k | Some None \<Rightarrow> ([], False) | Some (Some v) \<Rightarrow> (v, True))"
  using sm_run_data [OF assms] by (auto simp: Get_def lookup_apply_all split: option.split)

subsection \<open>Restarts\<close>


text \<open>C26. Replaying is harmless: a state machine that has applied \<open>xs\<close> and is then given \<open>xs\<close>
  again and \<open>ys\<close> after it, as after a restart, ends with the data of one that was given
  \<open>xs\<close> and \<open>ys\<close> once.\<close>

theorem replay_same_data:
  assumes "sm_run (Apply api) s xs = (None, m)" and "sm_run (Apply api) m (xs @ ys) = (None, again)"
    and "sm_run (Apply api) s (xs @ ys) = (None, once)"
  shows "kvData again = kvData once"
  using replay_suffix [of "kvData s" "[]" "kv_commands xs" "kv_commands ys"]
  by (simp add: sm_run_data [OF assms(1)] sm_run_data [OF assms(2)] sm_run_data [OF assms(3)])

text \<open>C27. Recovery from a snapshot: restoring the snapshot of a state machine that has applied
  \<open>xs\<close>, on any other one, and applying \<open>ys\<close> gives the data of one that applied \<open>xs\<close> and then
  \<open>ys\<close>.\<close>

theorem snapshot_recovers:
  assumes "sm_run (Apply api) NewKVStateMachine xs = (None, m0)"
    and "RestoreSnapshot api s (Snapshot m0) = (None, s')" and "sm_run (Apply api) s' ys = (None, s'')"
    and "sm_run (Apply api) NewKVStateMachine (xs @ ys) = (None, m)"
  shows "kvData s'' = kvData m"
proof -
  have "memory_ok m0" by (rule kv.run_ok [OF kv.fresh_ok assms(1)])
  then have "kvData s' = kvData m0"
    using assms(2) unmarshal_Snapshot [of m0] Snapshot_nonempty [of m0]
    by (auto simp: RestoreSnapshot_def memory_ok_def split: option.splits prod.splits)
  then show ?thesis
    by (simp add: sm_run_data [OF assms(1)] sm_run_data [OF assms(3)] sm_run_data [OF assms(4)])
qed

subsection \<open>Commands\<close>

text \<open>C28. For a key and a peer id that are valid UTF-8: a command that the store encodes is decoded as
  itself and is not taken for a membership change; an encoded membership change is decoded as
  itself and is not taken for a command.\<close>

theorem commands_kept_apart:
  assumes "valid_utf8 (cKey c)" and "valid_utf8 (mcPeerID ch)"
  shows "(EncodeCommand c = Inr data \<longrightarrow> DecodeCommand data = Inr c \<and> \<not> is_membership data)
    \<and> (EncodeMembershipChange ch = Inr data \<longrightarrow>
         DecodeMembershipChange data = (ch, True, None) \<and> (\<exists>err. DecodeCommand data = Inl err))"
  using assms DecodeCommand_Encode [of c data] kv_not_membership [of c data] DecodeMembershipChange_Encode [of ch data]
    membership_not_kv [of ch data] by blast

subsection \<open>Instances\<close>

definition sample_command :: "string \<Rightarrow> bytes \<Rightarrow> Command" where
  "sample_command op v = \<lparr>cOperation = op, cKey = ''k'', cValue = v\<rparr>"

definition sample_entry :: "string \<Rightarrow> bytes \<Rightarrow> LogEntry" where
  "sample_entry op v =
     \<lparr>eTerm = 1, eIndex = 1,
      eCommand = (case EncodeCommand (sample_command op v) of Inl _ \<Rightarrow> [] | Inr data \<Rightarrow> data)\<rparr>"

lemma sample_entry_decodes:
  assumes "op \<in> {OperationPut, OperationDelete}"
  shows "DecodeCommand (eCommand (sample_entry op v)) = Inr (sample_command op v)"
    and "\<not> is_membership (eCommand (sample_entry op v))"
proof -
  have k: "valid_utf8 (cKey (sample_command op v))" by (simp add: sample_command_def valid_utf8_ascii)
  have "EncodeCommand (sample_command op v) = Inr (eCommand (sample_entry op v))"
    using assms by (auto simp: sample_entry_def EncodeCommand_def ValidateCommand_def sample_command_def)
  then show "DecodeCommand (eCommand (sample_entry op v)) = Inr (sample_command op v)"
      "\<not> is_membership (eCommand (sample_entry op v))"
    using DecodeCommand_Encode kv_not_membership k by blast+
qed

text \<open>A database, opened empty.\<close>

definition sample_kv :: "ref_db KVStateMachine" where
  "sample_kv = \<lparr>kvData = Mapping.empty, kvDb = Some [(kvBucket, [])]\<rparr>"

lemma NewBolt_sample: "NewBoltKVStateMachine ref_bbolt (Some []) = Inr sample_kv"
  by (simp add: NewBoltKVStateMachine_def load_def ref_bbolt_def ref_bucket_def sample_kv_def)

lemma Apply_put: 
  "kvDb s = None \<Longrightarrow>
     sm_run (Apply ref_bbolt) s (sample_entry OperationPut v # es)
       = sm_run (Apply ref_bbolt) (s\<lparr>kvData := Mapping.update ''k'' v (kvData s)\<rparr>) es"
  by (simp add: Apply_memory sample_entry_decodes apply_data_def sample_command_def operation_names)

lemma Apply_put_db:
  "sm_run (Apply ref_bbolt) sample_kv [sample_entry OperationPut v]
     = (None, \<lparr>kvData = Mapping.update ''k'' v Mapping.empty, kvDb = Some [(kvBucket, [(''k'', v)])]\<rparr>)"
  by (simp add: Apply_def applyBolt_def ref_bbolt_def ref_bucket_def sample_kv_def sample_entry_decodes apply_data_def
      sample_command_def operation_names)

theorem read_last_write_witness:
  "\<exists>s'. sm_run (Apply ref_bbolt) NewKVStateMachine [sample_entry OperationPut ''v'', sample_entry OperationPut ''w''] = (None, s')
     \<and> Get s' ''k'' = (''w'', True)"
proof -
  obtain s' where r: "sm_run (Apply ref_bbolt) NewKVStateMachine
      [sample_entry OperationPut ''v'', sample_entry OperationPut ''w''] = (None, s')"
    by (simp add: Apply_put NewKVStateMachine_def del: sm_run.simps(2))
  have "last_effect (kv_commands [sample_entry OperationPut ''v'', sample_entry OperationPut ''w'']) ''k'' = Some (Some ''w'')"
    by (simp add: sample_entry_decodes last_effect_def cmd_effect_def sample_command_def operation_names)
  with read_last_write [OF r] r show ?thesis by simp
qed


theorem replay_same_data_witness:
  "\<exists>m again. sm_run (Apply ref_bbolt) NewKVStateMachine [sample_entry OperationPut ''v''] = (None, m)
     \<and> sm_run (Apply ref_bbolt) m [sample_entry OperationPut ''v'', sample_entry OperationPut ''w''] = (None, again)
     \<and> Get again ''k'' = (''w'', True)"
proof -
  let ?x = "sample_entry OperationPut ''v''" and ?y = "sample_entry OperationPut ''w''"
  obtain m again once where r: "sm_run (Apply ref_bbolt) NewKVStateMachine [?x] = (None, m)"
      "sm_run (Apply ref_bbolt) m ([?x] @ [?y]) = (None, again)"
      "sm_run (Apply ref_bbolt) NewKVStateMachine ([?x] @ [?y]) = (None, once)" "Get once ''k'' = (''w'', True)"
    by (simp add: Apply_put NewKVStateMachine_def Get_def del: sm_run.simps(2))
  have "Get again ''k'' = (''w'', True)" using replay_same_data [OF r(1,2,3)] r(4) by (simp add: Get_def)
  then show ?thesis using r(1,2) by auto
qed

theorem snapshot_recovers_witness:
  "\<exists>m0 s' s''. sm_run (Apply ref_bbolt) NewKVStateMachine [sample_entry OperationPut ''v''] = (None, m0)
     \<and> RestoreSnapshot ref_bbolt NewKVStateMachine (Snapshot m0) = (None, s')
     \<and> sm_run (Apply ref_bbolt) s' [sample_entry OperationPut ''w''] = (None, s'') \<and> Get s'' ''k'' = (''w'', True)"
proof -
  let ?x = "sample_entry OperationPut ''v''" and ?y = "sample_entry OperationPut ''w''"
  obtain m0 m where r: "sm_run (Apply ref_bbolt) NewKVStateMachine [?x] = (None, m0)"
      "sm_run (Apply ref_bbolt) NewKVStateMachine ([?x] @ [?y]) = (None, m)" "Get m ''k'' = (''w'', True)" "kvDb m0 = None"
    by (simp add: Apply_put NewKVStateMachine_def Get_def del: sm_run.simps(2))
  have s: "RestoreSnapshot ref_bbolt NewKVStateMachine (Snapshot m0) = (None, m0)"
    by (rule kv.restore_snap [OF kv.fresh_ok kv.run_ok [OF kv.fresh_ok r(1)]])
  obtain s'' where y: "sm_run (Apply ref_bbolt) m0 [?y] = (None, s'')"
    using r(4) by (simp add: Apply_put del: sm_run.simps(2))
  have "Get s'' ''k'' = (''w'', True)" using snapshot_recovers [OF r(1) s y r(2)] r(3) by (simp add: Get_def)
  then show ?thesis using r(1) s y by blast
qed

theorem commands_kept_apart_witness:
  "\<exists>data ch. EncodeCommand (sample_command OperationPut ''v'') = Inr data \<and> DecodeCommand data = Inr (sample_command OperationPut ''v'')
     \<and> EncodeMembershipChange \<lparr>mcType = MembershipAddPeer, mcPeerID = ''d''\<rparr> = Inr ch \<and> is_membership ch"
proof -
  let ?c = "sample_command OperationPut ''v''" and ?m = "\<lparr>mcType = MembershipAddPeer, mcPeerID = ''d''\<rparr>"
  have u: "valid_utf8 (cKey ?c)" "valid_utf8 (mcPeerID ?m)" by (simp_all add: sample_command_def valid_utf8_ascii)
  obtain data where d: "EncodeCommand ?c = Inr data"
    by (simp add: EncodeCommand_def ValidateCommand_def sample_command_def operation_names)
  have "ValidateChange ?m = None" by code_simp
  then obtain ch where c: "EncodeMembershipChange ?m = Inr ch" by (simp add: EncodeMembershipChange_def)
  show ?thesis
    using commands_kept_apart [OF u, of data] commands_kept_apart [OF u, of ch] c d
    by (auto simp: is_membership_def)
qed

end
