(* ===== verification/HttpFacts.thy ===== *)
theory HttpFacts
  imports Process KVProps
begin

text \<open>
  A request of the HTTP API while anything else happens to the node, with what holds of it at
  every point; and a request on a cluster of one that nothing else interrupts.
\<close>

subsection \<open>A request among other activity\<close>

text \<open>
  \<open>served\<close> follows one request while anything else happens to the node between its steps; the
  last argument is the entry the request has appended to the log, if it has.
\<close>

definition appended_by :: "'s saver \<Rightarrow> HttpRun \<Rightarrow> 's RaftNode \<Rightarrow> LogEntry option \<Rightarrow> LogEntry option" where
  "appended_by sv run n e =
     (case run of
        HtPropose task (PrAppend command) \<Rightarrow>
          (case AppendLocal sv n command of Some (entry, None, _) \<Rightarrow> Some entry | _ \<Rightarrow> e)
      | _ \<Rightarrow> e)"

inductive served ::
  "'s saver \<Rightarrow> ('d, 't) bbolt \<Rightarrow> API \<Rightarrow> HttpRequest \<Rightarrow> HttpRun \<Rightarrow> 's RaftNode \<Rightarrow> LogEntry option \<Rightarrow> bool"
  for sv bb api rq where
  begin_request: "node_ok n \<Longrightarrow> served sv bb api rq (handleKV rq) n None"
| other: "served sv bb api rq run n e \<Longrightarrow> by_op sv n n' \<Longrightarrow> served sv bb api rq run n' e"
| own: "served sv bb api rq run n e \<Longrightarrow> roomy n \<Longrightarrow> http_step sv bb api rq ev run n s = Some (run', n', s', out)
    \<Longrightarrow> served sv bb api rq run' n' (appended_by sv run n e)"

text \<open>The command a request puts into the log.\<close>

definition request_command :: "HttpRequest \<Rightarrow> Command" where
  "request_command rq =
     (if rqMethod rq = ''PUT''
      then \<lparr>cOperation = OperationPut, cKey = TrimPrefix (rqPath rq) ''/kv/'', cValue = fst (rqBody rq)\<rparr>
      else if rqMethod rq = ''DELETE''
      then \<lparr>cOperation = OperationDelete, cKey = TrimPrefix (rqPath rq) ''/kv/'', cValue = []\<rparr>
      else \<lparr>cOperation = OperationNoop, cKey = [], cValue = []\<rparr>)"

definition its_entry :: "HttpRequest \<Rightarrow> LogEntry option \<Rightarrow> LogEntry \<Rightarrow> bool" where
  "its_entry rq e entry = (e = Some entry \<and> EncodeCommand (request_command rq) = Inr (eCommand entry))"

fun its_task :: "HttpRequest \<Rightarrow> HttpTask \<Rightarrow> bool" where
  "its_task rq (TaskRead key) = (rqMethod rq = ''GET'' \<and> key = TrimPrefix (rqPath rq) ''/kv/'')"
| "its_task rq (TaskWrite body) = (rqMethod rq \<noteq> ''GET'')"

fun propose_inv :: "HttpRequest \<Rightarrow> LogEntry option \<Rightarrow> ProposeRun \<Rightarrow> bool" where
  "propose_inv rq e (PrStart c) = (EncodeCommand (request_command rq) = Inr c)"
| "propose_inv rq e (PrAppend c) = (EncodeCommand (request_command rq) = Inr c)"
| "propose_inv rq e (PrCommitted entry) = its_entry rq e entry"
| "propose_inv rq e (PrLeader entry) = its_entry rq e entry"
| "propose_inv rq e (PrRepl entry r) = its_entry rq e entry"
| "propose_inv rq e (PrAgain entry) = its_entry rq e entry"
| "propose_inv rq e (PrWait entry) = its_entry rq e entry"
| "propose_inv rq e (PrDone entry err) = True"

fun served_inv :: "HttpRequest \<Rightarrow> HttpRun \<Rightarrow> 's RaftNode \<Rightarrow> LogEntry option \<Rightarrow> bool" where
  "served_inv rq (HtRole key) n e = (rqMethod rq = ''GET'' \<and> key = TrimPrefix (rqPath rq) ''/kv/'')"
| "served_inv rq (HtBegin task c) n e = (its_task rq task \<and> EncodeCommand (request_command rq) = Inr c)"
| "served_inv rq (HtPropose task r) n e = (its_task rq task \<and> propose_inv rq e r)"
| "served_inv rq (HtApply task r) n e =
     (its_task rq task \<and> (\<exists>entry. its_entry rq e entry \<and> eIndex entry \<le> commitIndex n))"
| "served_inv rq (HtGet key) n e =
     (rqMethod rq = ''GET'' \<and> key = TrimPrefix (rqPath rq) ''/kv/''
      \<and> (\<exists>entry. its_entry rq e entry \<and> eIndex entry \<le> lastApplied n))"
| "served_inv rq (HtDone ops) n e =
     (ops = [WriteHeader 204] \<longrightarrow> rqMethod rq \<noteq> ''GET'' \<and> (\<exists>entry. its_entry rq e entry \<and> eIndex entry \<le> lastApplied n))"
| "served_inv rq run n e = True"

lemma not_204:
  "http_Error msg code \<noteq> [WriteHeader 204]" "http_Error_err err code \<noteq> [WriteHeader 204]"
  "not_allowed methods \<noteq> [WriteHeader 204]" "forwarded_ops res \<noteq> [WriteHeader 204]"
  by (auto simp: http_Error_def http_Error_err_def http_Error_chunk_def not_allowed_def forwarded_ops_def
      append_eq_Cons_conv split: sum.split)

lemma served_inv_mono:
  "served_inv rq run n e \<Longrightarrow> commit_kept n n' \<Longrightarrow> served_inv rq run n' e"
  by (cases run) (auto simp: commit_kept_def dest: order_trans)

lemma served_inv_plain:
  "served_inv rq (read_error err) n e" "served_inv rq (write_error body err) n e" "served_inv rq not_leader n e"
  "served_inv rq (forwardToLeader api rq body n) n e" "served_inv rq (found v) n e"
  by (auto simp: read_error_def write_error_def not_leader_def forwardToLeader_def found_def not_204
      split: option.split sum.split prod.split)

lemma handleKV_inv: "served_inv rq (handleKV rq) n e"
proof -
  have "served_inv rq (handlePut rq (TrimPrefix (rqPath rq) ''/kv/'')) n e" if "rqMethod rq = ''PUT''"
    using that
    by (auto simp: handlePut_def not_204 request_command_def read_all_max_def
        split: sum.split BodyError.split prod.splits option.splits if_splits)
  moreover have "served_inv rq (handleDelete (TrimPrefix (rqPath rq) ''/kv/'')) n e" if "rqMethod rq = ''DELETE''"
    using that by (auto simp: handleDelete_def not_204 request_command_def split: sum.split)
  ultimately show ?thesis by (auto simp: handleKV_def handleGet_def Let_def not_204)
qed

lemma AppendLocal_command: "AppendLocal sv n c = Some (entry, None, n') \<Longrightarrow> eCommand entry = c"
  by (auto simp: AppendLocal_def Let_def split: prod.splits if_splits option.splits)

lemma pr_loop_inv: "its_entry rq e entry \<Longrightarrow> propose_inv rq e (pr_loop entry r) \<and> (\<forall>en. pr_loop entry r \<noteq> PrDone en None)"
  by (cases "(entry, r)" rule: pr_loop.cases) auto

definition committed_inv :: "HttpRequest \<Rightarrow> ProposeRun \<Rightarrow> 's RaftNode \<Rightarrow> LogEntry option \<Rightarrow> bool" where
  "committed_inv rq r n e =
     (propose_inv rq e r \<and> (\<forall>entry. r = PrDone entry None \<longrightarrow> its_entry rq e entry \<and> eIndex entry \<le> commitIndex n))"

lemma propose_step_inv:
  assumes "ProposeWithRetryInterval sv client ev r n = Some (r', n', out)" and "propose_inv rq e r"
  shows "committed_inv rq r' n' (appended_by sv (HtPropose task r) n e)"
proof (cases "\<exists>c. r = PrAppend c")
  case True
  then obtain c where r: "r = PrAppend c" by blast
  then have "ev = PrRun" using assms(1) by (cases ev) auto
  then show ?thesis
    using assms r AppendLocal_command [of sv n c]
    by (auto simp: committed_inv_def appended_by_def its_entry_def split: option.splits prod.splits)
next
  case False
  then have e: "appended_by sv (HtPropose task r) n e = e" by (cases r) (auto simp: appended_by_def)
  show ?thesis unfolding e
    using assms False pr_loop_inv
    by (cases "(sv, client, ev, r, n)" rule: ProposeWithRetryInterval.cases)
      (auto simp: committed_inv_def isCommitted_def split: if_splits)
qed

lemma proposed_inv:
  "its_task rq task \<Longrightarrow> committed_inv rq r n e \<Longrightarrow> served_inv rq (proposed task r) n e"
  by (auto simp: proposed_def committed_inv_def served_inv_plain split: ProposeRun.split option.split HttpTask.split)

lemma applied_inv:
  assumes "ap_step sv ap r n m = Some (r', n', m')" and "node_ok n" and "served_inv rq (HtApply task r) n e"
    and "commitIndex n \<le> commitIndex n'"
  shows "served_inv rq (applied task r') n' e"
proof -
  obtain entry where en: "its_entry rq e entry" "eIndex entry \<le> commitIndex n" "its_task rq task" using assms(3) by auto
  have "lastApplied n' = commitIndex n'" if "r' = ApDone None"
  proof -
    have "r = ApNext" "nextCommittedEntry n = Some None" "n' = n"
      using assms(1) that by (cases r; auto split: option.splits prod.splits if_splits)+
    then have "\<not> lastApplied n < commitIndex n"
      using next_entry [OF assms(2)] by (metis option.distinct(1) option.inject)
    then show ?thesis using assms(2) \<open>n' = n\<close> by (auto simp: node_ok_def index_ok_def)
  qed
  then show ?thesis
    using en assms(4)
    by (auto simp: applied_def served_inv_plain not_204 split: ApplyRun.split option.split HttpTask.split)
qed

lemma http_step_inv:
  assumes "http_step sv bb api rq ev run n s = Some (run', n', s', out)" and "node_ok n" and "http_ok n run"
    and "roomy n" and "served_inv rq run n e"
  shows "served_inv rq run' n' (appended_by sv run n e)"
proof -
  have le: "commitIndex n \<le> commitIndex n'"
    using by_op_ok(2) [OF assms(2) http_step_by_op [OF assms(1,3,4)]] by (simp add: commit_kept_def)
  show ?thesis
  proof (cases run)
    case (HtPropose task r)
    then obtain pev r' where "ev = HePropose pev" "run' = proposed task r'"
        "ProposeWithRetryInterval sv (apiAppendClient api) pev r n = Some (r', n', out)"
      using assms(1) by (cases ev) auto
    then show ?thesis using HtPropose assms(5) proposed_inv propose_step_inv by fastforce
  next
    case (HtApply task r)
    then obtain r' where r': "ev = HeRun" "run' = applied task r'" "ap_step sv (Apply bb) r n s = Some (r', n', s')"
      using assms(1) by (cases ev) auto
    from applied_inv [OF r'(3) assms(2) _ le, of rq task e] show ?thesis
      using HtApply assms(5) r'(2) by (simp add: appended_by_def)
  next
    case (HtBegin task c)
    then obtain ctxErr where "ev = HeBegin ctxErr" "run' = proposed task (Propose ctxErr c)" using assms(1) by (cases ev) auto
    moreover have "committed_inv rq (Propose ctxErr c) n' e"
      using HtBegin assms(5) by (auto simp: committed_inv_def Propose_def split: option.split)
    ultimately show ?thesis using HtBegin assms(5) by (simp add: appended_by_def proposed_inv)
  next
    case (HtRole key)
    then show ?thesis
      using assms(1,5) by (cases ev) (auto simp: appended_by_def readBarrier_def request_command_def served_inv_plain split: if_splits sum.splits)
  next
    case (HtForward body)
    then show ?thesis using assms(1) by (cases ev) (auto simp: appended_by_def served_inv_plain)
  next
    case (HtGet key)
    then show ?thesis using assms(1) by (cases ev) (auto simp: appended_by_def served_inv_plain)
  qed (use assms(1) in \<open>cases ev; auto simp: not_204\<close>)+
qed

lemma served_all:
  "served sv bb api rq run n e \<Longrightarrow> node_ok n \<and> http_ok n run \<and> served_inv rq run n e"
proof (induction rule: served.induct)
  case (begin_request n)
  then show ?case by (simp add: handler_ok handleKV_inv)
next
  case (other run n e n')
  note b = by_op_ok [of n sv n']
  have "commitIndex n \<le> commitIndex n'" using b other by (auto simp: commit_kept_def)
  then show ?case using other b served_inv_mono http_ok_mono by blast
next
  case (own run n e ev s run' n' s' out)
  then have "by_op sv n n'" using http_step_by_op by blast
  then show ?case
    using own by_op_ok [of n sv n'] http_step_ok [OF own(3)] http_step_inv [OF own(3)] by blast
qed

subsection \<open>A request on a cluster of one\<close>

text \<open>
  A request that runs without interruption: no deadline passes and nobody else moves.  The
  first argument bounds the number of steps.
\<close>

definition next_event :: "HttpRun \<Rightarrow> HttpEvent" where
  "next_event run =
     (case run of
        HtBegin task c \<Rightarrow> HeBegin None
      | HtPropose task r \<Rightarrow> HePropose PrRun
      | _ \<Rightarrow> HeRun)"

primrec http_alone ::
  "nat \<Rightarrow> 's saver \<Rightarrow> ('d, 't) bbolt \<Rightarrow> API \<Rightarrow> HttpRequest \<Rightarrow> HttpRun \<Rightarrow> 's RaftNode \<Rightarrow> 'd KVStateMachine
     \<Rightarrow> (WriterOp list \<times> 's RaftNode \<times> 'd KVStateMachine) option" where
  "http_alone 0 sv bb api rq run n s = None"
| "http_alone (Suc k) sv bb api rq run n s =
     (case run of
        HtDone ops \<Rightarrow> Some (ops, n, s)
      | _ \<Rightarrow>
        (case http_step sv bb api rq (next_event run) run n s of
           None \<Rightarrow> None
         | Some (run', n', s', _) \<Rightarrow> http_alone k sv bb api rq run' n' s'))"

text \<open>The leader of a cluster of one that has applied its whole log.\<close>

definition solo :: "'s RaftNode \<Rightarrow> bool" where
  "solo n = (node_ok n \<and> state n = Leader \<and> selfMember n \<and> peers n = [] \<and> unat (lastApplied n) = log_end n)"

lemma solo_extended:
  assumes "solo n" and "has_room n"
  shows "node_ok (extended n c)" "commitIndex (extended n c) = eIndex (local_entry n c)"
    "log_end (extended n c) = log_end n + 1" "unat (eIndex (local_entry n c)) = log_end n + 1"
    "unat (lastApplied (extended n c)) = log_end n"
    "entry_at (extended n c) (log_end n + 1) = Some (local_entry n c)"
proof -
  let ?m = "n\<lparr>nlog := nlog n @ [local_entry n c]\<rparr>"
  have n: "node_ok n" "state n = Leader" "selfMember n" "peers n = []" "unat (lastApplied n) = log_end n"
    using assms(1) by (simp_all add: solo_def)
  show "node_ok (extended n c)" by (rule node_ok_extended [OF n(1) assms(2)])
  have e: "entry_at ?m (log_end n + 1) = Some (local_entry n c)" by (simp add: entry_at_def)
  have l: "unat (lastLogIndexLocked n) = log_end n" by (rule unat_lastLogIndex [OF node_okD(1) [OF n(1)]])
  then have u: "unat (eIndex (local_entry n c)) = log_end n + 1"
    using assms(2) unat_plus_one_64 [of "lastLogIndexLocked n"] by (simp add: local_entry_def has_room_def)
  then show "unat (eIndex (local_entry n c)) = log_end n + 1" .
  have "committable ?m (log_end n + 1)"
    using e n by (simp add: committable_def term_at_def majority_def clusterSizeLocked_def replicatedCount_def local_entry_def)
  moreover have "unat (commitIndex n) \<le> log_end n" using n(1) by (simp add: node_ok_def index_ok_def)
  ultimately have "best_commit ?m (log_end ?m) = Some (log_end n + 1)" by (auto simp: best_commit_Some)
  then have "commitIndex (extended n c) = of_nat (log_end n + 1)"
    using n by (simp add: extended_def settled_def commit_to_def signalCommitReadyLocked_def)
  also have "\<dots> = eIndex (local_entry n c)" using u by (metis of_nat_unat_64)
  finally show "commitIndex (extended n c) = eIndex (local_entry n c)" .
  show "log_end (extended n c) = log_end n + 1" by (simp add: extended_def)
  show "unat (lastApplied (extended n c)) = log_end n" using n(5) by (simp add: extended_def)
  show "entry_at (extended n c) (log_end n + 1) = Some (local_entry n c)"
    using e by (simp add: extended_def entry_at_def)
qed

lemma Apply_succeeds:
  assumes "DecodeCommand (eCommand entry) = Inr cmd" and "\<And>db c. fst (applyBolt bb db c) = None"
  obtains s' where "Apply bb s entry = (None, s')" "kvData s' = apply_data (kvData s) cmd"
proof (cases "kvDb s")
  case (Some db)
  obtain db' where "applyBolt bb db cmd = (None, db')" using assms(2) [of db cmd] by (cases "applyBolt bb db cmd") auto
  then show ?thesis using that assms(1) Some by (simp add: Apply_def)
qed (use that assms(1) in \<open>simp add: Apply_def\<close>)

lemma persist_succeeds: "(\<And>st ps. fst (sv st ps) = None) \<Longrightarrow> persist_err sv n = None"
  by (simp add: persist_err_def split: option.split)

text \<open>The log and the state machine from the proposal of a command to the point where it is applied.\<close>

lemma solo_command:
  assumes "solo n" and "has_room n" and "EncodeCommand cmd = Inr c" and "valid_utf8 (cKey cmd)"
    and saves: "\<And>st ps. fst (sv st ps) = None" and updates: "\<And>db d. fst (applyBolt bb db d) = None"
  obtains entry n1 n' s' ch derr where "AppendLocal sv n c = Some (entry, None, n1)" "commitIndex n1 = eIndex entry"
    "nextCommittedEntry n1 = Some (Some entry)" "DecodeMembershipChange (eCommand entry) = (ch, False, derr)"
    "Apply bb s entry = (None, s')" "kvData s' = apply_data (kvData s) cmd"
    "n' = markApplied n1 (eIndex entry)" "nextCommittedEntry n' = Some None" "solo n'"
    "log_end n1 = log_end n + 1" "log_end n' = log_end n + 1" "currentTerm n1 = currentTerm n" "currentTerm n' = currentTerm n"
proof -
  let ?e = "local_entry n c" and ?m = "extended n c"
  let ?n1 = "?m\<lparr>store := persist_store sv ?m\<rparr>"
  let ?n2 = "markApplied ?n1 (eIndex ?e)"
  have n: "node_ok n" "state n = Leader" using assms(1) by (simp_all add: solo_def)
  note x = solo_extended [OF assms(1,2), of c]
  have d: "DecodeCommand (eCommand ?e) = Inr cmd" "\<not> is_membership (eCommand ?e)" "eCommand ?e = c"
    using DecodeCommand_Encode [OF assms(3,4)] kv_not_membership [OF assms(3,4)] by (simp_all add: local_entry_def)
  obtain s' where a: "Apply bb s ?e = (None, s')" "kvData s' = apply_data (kvData s) cmd"
    by (rule Apply_succeeds [OF d(1) updates])
  obtain ch derr where m: "DecodeMembershipChange (eCommand ?e) = (ch, False, derr)"
    using d(2) by (cases "DecodeMembershipChange (eCommand ?e)" rule: prod_cases3) (simp add: is_membership_def)
  have ap: "AppendLocal sv n c = Some (?e, None, ?n1)"
    using AppendLocal_appends [OF n(1) assms(2), of c sv] persist_succeeds [where sv = sv and n = ?m, OF saves] m d(3)
    by (simp add: append_error_def)
  have ok1: "node_ok ?n1" using x(1) by simp
  have lt: "lastApplied ?n1 < commitIndex ?n1" using x(2,4,5) by (simp add: word_less_nat_alt)
  have e1: "entry_at ?n1 (unat (lastApplied ?n1) + 1) = Some ?e" using x(5,6) entry_at_cong [of ?n1 ?m] by simp
  have nx1: "nextCommittedEntry ?n1 = Some (Some ?e)" using nextCommittedEntry_eq [OF ok1] lt e1 by simp
  have ok2: "node_ok ?n2" using node_ok_markApplied [OF ok1, of "eIndex ?e"] x(2) by simp
  have la: "lastApplied ?n2 = eIndex ?e" using lt x(2) by (auto simp: markApplied_def)
  have nx2: "nextCommittedEntry ?n2 = Some None" using nextCommittedEntry_eq [OF ok2] la x(2) by simp
  have "solo ?n2" "log_end ?n2 = log_end n + 1"
    using ok2 la x(3,4) assms(1) by (simp_all add: solo_def) (simp_all add: markApplied_def extended_def)
  moreover have "currentTerm ?n2 = currentTerm n" "currentTerm ?n1 = currentTerm n" "commitIndex ?n1 = eIndex ?e"
      "log_end ?n1 = log_end n + 1"
    using x(2,3) by (simp_all add: markApplied_def extended_def)
  ultimately show ?thesis using that [of ?e ?n1 ch derr s' ?n2] ap nx1 m a nx2 by blast
qed

lemma http_alone_command:
  assumes "solo n" and "has_room n" and "EncodeCommand cmd = Inr c" and "valid_utf8 (cKey cmd)"
    and saves: "\<And>st ps. fst (sv st ps) = None" and updates: "\<And>db d. fst (applyBolt bb db d) = None"
  obtains n' s' where "solo n'" "log_end n' = log_end n + 1" "kvData s' = apply_data (kvData s) cmd"
    "http_alone (8 + k) sv bb api rq (HtBegin task c) n s = http_alone k sv bb api rq (applied task (ApDone None)) n' s'"
proof -
  obtain entry n1 n' s' ch derr where r: "AppendLocal sv n c = Some (entry, None, n1)" "commitIndex n1 = eIndex entry"
      "nextCommittedEntry n1 = Some (Some entry)" "DecodeMembershipChange (eCommand entry) = (ch, False, derr)"
      "Apply bb s entry = (None, s')" "kvData s' = apply_data (kvData s) cmd"
      "n' = markApplied n1 (eIndex entry)" "nextCommittedEntry n' = Some None" "solo n'" "log_end n' = log_end n + 1"
    by (rule solo_command [OF assms])
  have "state n = Leader" using assms(1) by (simp add: solo_def)
  then have "http_alone (8 + k) sv bb api rq (HtBegin task c) n s = http_alone k sv bb api rq (applied task (ApDone None)) n' s'"
    using r(1-5,7,8)
    by (simp add: eval_nat_numeral next_event_def proposed_def Propose_def isCommitted_def applied_def [of task "ApApply _"]
        applied_def [of task "ApMark _"] applied_def [of task ApNext] del: ProposeWithRetryInterval.simps(5))
  then show ?thesis using that r(6,9,10) by blast
qed

text \<open>The same run, followed as one of many.\<close>

lemma served_command:
  assumes "solo n" and "has_room n" and "EncodeCommand cmd = Inr c" and "valid_utf8 (cKey cmd)"
    and saves: "\<And>st ps. fst (sv st ps) = None" and updates: "\<And>db d. fst (applyBolt bb db d) = None"
    and "log_end n + 4 < 2 ^ 64" and "unat (currentTerm n) + 1 < 2 ^ 64"
    and begun: "served sv bb api rq (HtBegin task c) n None"
  obtains n' entry where "solo n'" "served sv bb api rq (applied task (ApDone None)) n' (Some entry)"
proof -
  fix s
  obtain entry n1 n' s' ch derr where r: "AppendLocal sv n c = Some (entry, None, n1)" "commitIndex n1 = eIndex entry"
      "nextCommittedEntry n1 = Some (Some entry)" "DecodeMembershipChange (eCommand entry) = (ch, False, derr)"
      "Apply bb s entry = (None, s')" "kvData s' = apply_data (kvData s) cmd"
      "n' = markApplied n1 (eIndex entry)" "nextCommittedEntry n' = Some None" "solo n'"
      "log_end n1 = log_end n + 1" "log_end n' = log_end n + 1" "currentTerm n1 = currentTerm n" "currentTerm n' = currentTerm n"
    by (rule solo_command [OF assms(1-6)])
  have room: "roomy n" "roomy n1" "roomy n'"
    using assms(7,8) r(10-13) by (simp_all add: roomy_def has_room_def)
  have lead: "state n = Leader" using assms(1) by (simp add: solo_def)
  note go = served.own [where bb = bb and api = api and rq = rq]
  have p1: "served sv bb api rq (HtPropose task (PrStart c)) n None"
    using go [OF begun room(1), of "HeBegin None" s] by (simp add: proposed_def Propose_def appended_by_def)
  have p2: "served sv bb api rq (HtPropose task (PrAppend c)) n None"
    using go [OF p1 room(1), of "HePropose PrRun" s] lead by (simp add: proposed_def appended_by_def)
  have p3: "served sv bb api rq (HtPropose task (PrCommitted entry)) n1 (Some entry)"
    using go [OF p2 room(1), of "HePropose PrRun" s] r(1) by (simp add: proposed_def appended_by_def)
  have p4: "served sv bb api rq (HtApply task ApNext) n1 (Some entry)"
    using go [OF p3 room(2), of "HePropose PrRun" s] r(2) by (simp add: proposed_def appended_by_def isCommitted_def)
  have p5: "served sv bb api rq (HtApply task (ApApply entry)) n1 (Some entry)"
    using go [OF p4 room(2), of HeRun s] r(3,4) by (simp add: applied_def [of task "ApApply _"] appended_by_def)
  have p6: "served sv bb api rq (HtApply task (ApMark entry)) n1 (Some entry)"
    using go [OF p5 room(2), of HeRun s] r(5) by (simp add: applied_def [of task "ApMark _"] appended_by_def)
  have p7: "served sv bb api rq (HtApply task ApNext) n' (Some entry)"
    using go [OF p6 room(2), of HeRun s] r(7) by (simp add: applied_def [of task ApNext] appended_by_def)
  have "served sv bb api rq (applied task (ApDone None)) n' (Some entry)"
    using go [OF p7 room(3), of HeRun s] r(8) by (simp add: appended_by_def)
  then show ?thesis using that r(9) by blast
qed

definition kv_request :: "string \<Rightarrow> string \<Rightarrow> bytes \<Rightarrow> HttpRequest" where
  "kv_request meth key body =
     \<lparr>rqMethod = meth, rqEscaped = ''/kv/'' @ key, rqPath = ''/kv/'' @ key, rqBody = (body, None)\<rparr>"

lemma kv_request_key: "TrimPrefix (rqPath (kv_request meth key body)) ''/kv/'' = key"
  by (simp add: kv_request_def TrimPrefix_def HasPrefix_def)

lemma handle_kv_request:
  assumes "key \<noteq> []" and "slash \<notin> set key"
  shows "length v \<le> maxKVValueBytes \<Longrightarrow> \<exists>c. EncodeCommand \<lparr>cOperation = OperationPut, cKey = key, cValue = v\<rparr> = Inr c
      \<and> handleKV (kv_request ''PUT'' key v) = HtBegin (TaskWrite v) c"
    and "\<exists>c. EncodeCommand \<lparr>cOperation = OperationDelete, cKey = key, cValue = []\<rparr> = Inr c
      \<and> handleKV (kv_request ''DELETE'' key v) = HtBegin (TaskWrite []) c"
    and "handleKV (kv_request ''GET'' key v) = HtRole key"
proof -
  have m: "rqMethod (kv_request meth key v) = meth" "rqBody (kv_request meth key v) = (v, None)" for meth
    by (simp_all add: kv_request_def)
  have h: "handleKV (kv_request meth key v) =
      (if meth = ''GET'' then handleGet key else if meth = ''PUT'' then handlePut (kv_request meth key v) key
       else if meth = ''DELETE'' then handleDelete key else HtDone (not_allowed ''GET, PUT, DELETE''))" for meth
    using assms by (simp add: handleKV_def kv_request_key ContainsByte_def m)
  obtain c where c: "EncodeCommand \<lparr>cOperation = OperationPut, cKey = key, cValue = v\<rparr> = Inr c"
    using assms(1) by (simp add: EncodeCommand_def ValidateCommand_def operation_names)
  obtain d where d: "EncodeCommand \<lparr>cOperation = OperationDelete, cKey = key, cValue = []\<rparr> = Inr d"
    using assms(1) by (simp add: EncodeCommand_def ValidateCommand_def operation_names)
  show "\<exists>c. EncodeCommand \<lparr>cOperation = OperationPut, cKey = key, cValue = v\<rparr> = Inr c
      \<and> handleKV (kv_request ''PUT'' key v) = HtBegin (TaskWrite v) c" if "length v \<le> maxKVValueBytes"
    using that c by (simp add: h handlePut_def read_all_max_def m)
  show "\<exists>c. EncodeCommand \<lparr>cOperation = OperationDelete, cKey = key, cValue = []\<rparr> = Inr c
      \<and> handleKV (kv_request ''DELETE'' key v) = HtBegin (TaskWrite []) c"
    using d by (simp add: h handleDelete_def)
  show "handleKV (kv_request ''GET'' key v) = HtRole key" by (simp add: h handleGet_def)
qed

lemma get_alone:
  assumes "solo n" and "has_room n" and "key \<noteq> []" and "slash \<notin> set key"
    and saves: "\<And>st ps. fst (sv st ps) = None" and updates: "\<And>db d. fst (applyBolt bb db d) = None"
  obtains n' s' where "kvData s' = kvData s"
    "http_alone (Suc (8 + Suc (Suc k))) sv bb api (kv_request ''GET'' key v) (handleKV (kv_request ''GET'' key v)) n s
       = Some (if snd (Get s key) then [WriteHeader 200, Write (Bytes (fst (Get s key)))] else http_Error ''not found'' 404, n', s')"
proof -
  let ?noop = "\<lparr>cOperation = OperationNoop, cKey = [], cValue = []\<rparr>"
  obtain c where c: "EncodeCommand ?noop = Inr c" by (simp add: EncodeCommand_def ValidateCommand_def)
  have "valid_utf8 (cKey ?noop)" by simp
  then obtain n' s' where r: "kvData s' = apply_data (kvData s) ?noop"
      "http_alone (8 + Suc (Suc k)) sv bb api (kv_request ''GET'' key v) (HtBegin (TaskRead key) c) n s
       = http_alone (Suc (Suc k)) sv bb api (kv_request ''GET'' key v) (applied (TaskRead key) (ApDone None)) n' s'"
    by (rule http_alone_command [OF assms(1,2) c _ saves updates])
  have same: "kvData s' = kvData s" using r(1) by (simp add: apply_data_def)
  have "Get s' key = Get s key" using same by (simp add: Get_def)
  then have f: "http_alone (Suc (Suc k)) sv bb api (kv_request ''GET'' key v) (applied (TaskRead key) (ApDone None)) n' s'
      = Some (if snd (Get s key) then [WriteHeader 200, Write (Bytes (fst (Get s key)))] else http_Error ''not found'' 404, n', s')"
    by (simp add: applied_def next_event_def found_def split: prod.split)
  have "state n = Leader" using assms(1) by (simp add: solo_def)
  then have "http_alone (Suc (8 + Suc (Suc k))) sv bb api (kv_request ''GET'' key v) (HtRole key) n s
      = http_alone (8 + Suc (Suc k)) sv bb api (kv_request ''GET'' key v) (HtBegin (TaskRead key) c) n s"
    by (simp only: http_alone.simps HttpRun.case next_event_def http_step.simps option.case prod.case)
      (simp add: readBarrier_def c)
  with r(2) f handle_kv_request(3) [OF assms(3,4)] same show ?thesis by (intro that [of s' n']) simp_all
qed

end
