(* ===== verification/LogMatch.thy ===== *)
theory LogMatch
  imports NodeOps
begin

text \<open>
  What a round of replication does to two logs.  \<open>logs_match\<close> is Raft's log matching
  property for two nodes: where both hold an entry of the same term, they hold the same
  entries up to there.  Positions covered by a snapshot on either side are left out.
\<close>

definition logs_match :: "'s RaftNode \<Rightarrow> 't RaftNode \<Rightarrow> bool" where
  "logs_match l f =
     (\<forall>k e e'. entry_at l k = Some e \<and> entry_at f k = Some e' \<and> eTerm e = eTerm e' \<longrightarrow>
        (\<forall>j \<le> k. base l < j \<and> base f < j \<longrightarrow> entry_at f j = entry_at l j))"

subsection \<open>Entries of a merged log\<close>

lemma merge_log_nth:
  "i < length new \<Longrightarrow>
     merge_log old new ! i = new ! i
     \<or> i < length old \<and> merge_log old new ! i = old ! i \<and> eTerm (old ! i) = eTerm (new ! i)"
proof (induction old new arbitrary: i rule: merge_log.induct)
  case (3 old olds new news)
  then show ?case by (cases i) auto
qed auto

lemma entry_at_appended_low:
  assumes "log_ok f" and "p \<le> log_end f" and "k \<le> p"
  shows "entry_at (f\<lparr>nlog := appended f p es\<rparr>) k = entry_at f k"
proof (cases "base f < k")
  case True
  then have "k - base f - 1 < p - base f" "p - base f \<le> length (nlog f)" "p - base f \<le> length (appended f p es)"
    using assms(2,3) by (auto simp: appended_def)
  then show ?thesis using True assms(2,3) by (auto simp: entry_at_def appended_def nth_append)
qed (simp add: entry_at_def)

lemma entry_at_appended_sent:
  assumes "log_ok f" and "p \<le> log_end f" and "p + length es + 1 < 2 ^ 64" and "p < k" and "k \<le> p + length es"
    and "base f < k"
  defines "e \<equiv> (es ! (k - p - 1))\<lparr>eIndex := of_nat k\<rparr>"
  shows "\<exists>e'. entry_at (f\<lparr>nlog := appended f p es\<rparr>) k = Some e' \<and> (e' = e \<or> entry_at f k = Some e' \<and> eTerm e' = eTerm e)"
proof -
  let ?q = "p - base f" and ?old = "drop (p - base f) (nlog f)"
    and ?new = "drop (base f - p) (normalizeEntries (of_nat (p + 1)) es)"
  define i where "i = k - base f - 1 - ?q"
  have q: "?q \<le> length (nlog f)" using assms(2) by simp
  have i: "i < length ?new" "base f - p + i = k - p - 1" "k - base f - 1 = ?q + i"
    using assms(4,5,6) by (auto simp: i_def)
  have "of_nat (p + 1) + of_nat (k - p - 1) = (of_nat k :: uint64)"
    using assms(4) by (simp flip: of_nat_add)
  then have new: "?new ! i = e"
    using i(1,2) assms(4,5) by (simp add: nth_normalize e_def)
  have len: "k \<le> base f + length (appended f p es)"
    using length_appended(1) [of p f es] assms(2,5) by simp
  have ap: "appended f p es ! (?q + i) = merge_log ?old ?new ! i"
    unfolding appended_def using q by (simp add: nth_append)
  have "entry_at (f\<lparr>nlog := appended f p es\<rparr>) k = Some (merge_log ?old ?new ! i)"
    using len assms(6) ap i(3) by (simp add: entry_at_def)
  moreover have "entry_at f k = Some (?old ! i)" if "i < length ?old"
    using that i(3) assms(6) q by (auto simp: entry_at_def)
  ultimately show ?thesis
    using merge_log_nth [OF i(1), of ?old] new by auto
qed

subsection \<open>The request a leader builds\<close>

definition prev_of :: "'s RaftNode \<Rightarrow> string \<Rightarrow> nat" where
  "prev_of l p = max (base l) (unat (NextIndex l p) - 1)"

definition built_request :: "'s RaftNode \<Rightarrow> string \<Rightarrow> AppendEntriesRequest" where
  "built_request l p =
     \<lparr>aeTerm = currentTerm l, aeLeaderID = nid l, aePrevLogIndex = of_nat (prev_of l p),
      aePrevLogTerm = term_at l (prev_of l p), aeEntries = drop (prev_of l p - base l) (nlog l),
      aeLeaderCommit = commitIndex l\<rparr>"

lemma prev_of_ge: "base l \<le> prev_of l p"
  by (simp add: prev_of_def)

lemma prev_of_bound: "prev_of l p < 2 ^ 64"
  using unat_less_64 [of "lastIncludedIndex l"] unat_less_64 [of "NextIndex l p"]
  unfolding prev_of_def by linarith

lemma BuildAppendEntries_eq:
  assumes "node_ok l" and "state l = Leader" and "p \<in> set (peers l)"
  shows "BuildAppendEntries l p = Some (Inr (built_request l p))"
proof -
  have lo: "log_ok l" using assms(1) by (rule node_okD)
  obtain f where f: "nextIndex l = Some f" "p \<in> dom f"
    using node_okD(2) [OF assms(1)] assms(2,3) by (cases rule: progress_ok_cases) auto
  then obtain nx where nx: "f p = Some nx" "NextIndex l p = nx"
    by (auto simp: NextIndex_def go_map_read_def)
  define nx' where "nx' = (if nx \<le> lastIncludedIndex l then firstLogIndexLocked l else nx)"
  have u: "unat nx' = Suc (prev_of l p)"
    using unat_firstLogIndex [OF lo] nx(2) by (auto simp: nx'_def prev_of_def word_le_nat_alt)
  have pv: "nx' - 1 = of_nat (prev_of l p)"
    using u by (metis add_diff_cancel_left' of_nat_Suc of_nat_unat_64 plus_1_eq_Suc)
  have t: "logTermAtLocked l (nx' - 1) = Some (term_at l (prev_of l p))"
    using logTermAt_eq [OF lo] pv prev_of_bound [of l p] by (simp add: unat_of_nat_64)
  have e: "cloneEntriesFromLocked l nx' = Some (drop (prev_of l p - base l) (nlog l))"
    using cloneEntriesFrom_eq [OF lo, of nx'] u by simp
  show ?thesis
    using f nx t e pv by (simp add: BuildAppendEntries_def Let_def built_request_def flip: nx'_def)
qed

lemma built_request_end:
  assumes "prev_of l p \<le> log_end l"
  shows "prev_of l p + length (aeEntries (built_request l p)) = log_end l"
    "unat (aePrevLogIndex (built_request l p)) = prev_of l p"
  using assms prev_of_bound [of l p] by (auto simp: built_request_def prev_of_def unat_of_nat_64)

lemma built_request_entry:
  assumes "log_ok l" and "prev_of l p < k" and "entry_at l k = Some e"
  shows "(aeEntries (built_request l p) ! (k - prev_of l p - 1))\<lparr>eIndex := of_nat k\<rparr> = e"
proof -
  have k: "base l < k" "k \<le> log_end l" "e = nlog l ! (k - base l - 1)"
    using assms(3) by (auto simp: entry_at_def split: if_splits)
  have "prev_of l p - base l + (k - prev_of l p - 1) = k - base l - 1"
    using assms(2) prev_of_ge [of l p] by linarith
  then have "aeEntries (built_request l p) ! (k - prev_of l p - 1) = e"
    using k assms(2) prev_of_ge [of l p] by (simp add: built_request_def)
  moreover have "of_nat k = eIndex e" using entry_at_index [OF assms(1,3)] by (metis of_nat_unat_64)
  ultimately show ?thesis by simp
qed

subsection \<open>A round of replication\<close>

text \<open>
  A follower that accepts the leader's request holds the leader's entries, all of them, and
  the two logs still match.
\<close>

lemma replicated:
  assumes "log_ok l" and "log_ok f" and "logs_match l f" and "prev_of l p \<le> log_end l"
    and "prev_matches f (built_request l p)" and "anchored f (built_request l p)"
  defines "f' \<equiv> f\<lparr>nlog := appended f (prev_of l p) (aeEntries (built_request l p))\<rparr>"
  shows "base l < k \<Longrightarrow> base f < k \<Longrightarrow> k \<le> log_end l \<Longrightarrow> entry_at f' k = entry_at l k"
proof -
  assume k: "base l < k" "base f < k" "k \<le> log_end l"
  let ?p = "prev_of l p" and ?es = "aeEntries (built_request l p)"
  note ends = built_request_end [OF assms(4)]
  have pf: "?p \<le> log_end f" "?p + length ?es + 1 < 2 ^ 64"
    using assms(6) ends(2) by (simp_all add: anchored_def)
  obtain e where e: "entry_at l k = Some e" using k by (simp add: entry_at_def)
  show ?thesis
  proof (cases "k \<le> ?p")
    case True
    have "entry_at f' k = entry_at f k"
      unfolding f'_def by (rule entry_at_appended_low [OF assms(2) pf(1) True])
    moreover have "entry_at f k = entry_at l k"
    proof -
      have pp: "base l < ?p" "base f < ?p" "0 < ?p" using k True by simp_all
      then obtain a b where ab: "entry_at l ?p = Some a" "entry_at f ?p = Some b"
        using assms(4) pf(1) by (simp add: entry_at_def)
      have "term_at f ?p = term_at l ?p"
        using assms(5) pp ends(2) unfolding prev_matches_def built_request_def by (auto simp: unat_eq_0)
      then have "eTerm a = eTerm b" using pp ab by (simp add: term_at_def)
      then show ?thesis using assms(3) ab k True unfolding logs_match_def by blast
    qed
    ultimately show ?thesis by simp
  next
    case False
    then have kp: "?p < k" "k \<le> ?p + length ?es" using k(3) ends(1) by simp_all
    have sent: "(?es ! (k - ?p - 1))\<lparr>eIndex := of_nat k\<rparr> = e"
      by (rule built_request_entry [OF assms(1) kp(1) e])
    obtain e' where e': "entry_at f' k = Some e'" "e' = e \<or> entry_at f k = Some e' \<and> eTerm e' = eTerm e"
      using entry_at_appended_sent [OF assms(2) pf kp k(2)] sent unfolding f'_def by auto
    then have "e' = e" using assms(3) e k unfolding logs_match_def by (metis order_refl option.inject)
    then show ?thesis using e e'(1) by simp
  qed
qed

lemma replicated_match:
  assumes "log_ok l" and "log_ok f" and "logs_match l f" and "prev_of l p \<le> log_end l"
    and "prev_matches f (built_request l p)" and "anchored f (built_request l p)"
  shows "logs_match l (f\<lparr>nlog := appended f (prev_of l p) (aeEntries (built_request l p))\<rparr>)"
  unfolding logs_match_def
proof (intro allI impI, elim conjE)
  fix k e e' j
  let ?f = "f\<lparr>nlog := appended f (prev_of l p) (aeEntries (built_request l p))\<rparr>"
  assume "entry_at l k = Some e" "j \<le> k" "base l < j" "base ?f < j"
  then have "base f < j" "j \<le> log_end l" by (auto simp: entry_at_def split: if_splits)
  then show "entry_at ?f j = entry_at l j"
    using replicated [OF assms] \<open>base l < j\<close> by simp
qed

text \<open>The request is never beyond what its own entries reach, so neither is the follower's commit index.\<close>

lemma built_request_commit:
  assumes "node_ok l" and "prev_of l p \<le> log_end l"
  shows "unat (aeLeaderCommit (built_request l p))
    \<le> unat (aePrevLogIndex (built_request l p)) + length (aeEntries (built_request l p))"
  using assms built_request_end [OF assms(2)] by (simp add: built_request_def node_ok_def index_ok_def)

subsection \<open>A repeated request\<close>

lemma appended_again:
  assumes "p \<le> log_end n" and "nlog n' = appended n p es" and "lastIncludedIndex n' = lastIncludedIndex n"
  shows "appended n' p es = nlog n'"
  using assms(1,3) unfolding appended_def assms(2) by (simp add: merge_log_idem)

lemma append_again:
  fixes n :: "'s RaftNode" and s :: "'s option"
  assumes "log_ok n" and "prev_matches n req" and "anchored n req" and "\<not> append_refused n req"
  defines "m \<equiv> (append_node n req)\<lparr>store := s\<rparr>"
  shows "\<not> append_refused m req" "prev_matches m req" "anchored m req" "append_node m req = m" "\<not> append_changes m req"
proof -
  let ?p = "unat (aePrevLogIndex req)" and ?es = "aeEntries req"
  have m: "nlog m = appended n ?p ?es" "lastIncludedIndex m = lastIncludedIndex n"
      "lastIncludedTerm m = lastIncludedTerm n" "currentTerm m = aeTerm req" "state m = Follower"
      "leaderID m = aeLeaderID req" "nid m = nid n" "peers m = peers n" "selfMember m = selfMember n"
      "membershipConfigured m = membershipConfigured n"
    by (simp_all add: m_def append_node_def)
  have p: "?p \<le> log_end n" using assms(3) by (simp add: anchored_def)
  show r: "\<not> append_refused m req"
    using assms(4) m by (simp add: append_refused_def isMemberLocked_def)
  have "entry_at m ?p = entry_at n ?p"
    using entry_at_appended_low [OF assms(1) p order_refl, of ?es] entry_at_cong [of m "n\<lparr>nlog := appended n ?p ?es\<rparr>"] m
    by simp
  then have "term_at m ?p = term_at n ?p" using m(2,3) by (simp add: term_at_def)
  then show "prev_matches m req" using assms(2) by (simp add: prev_matches_def)
  show "anchored m req"
    using assms(3) length_appended(1) [OF p, of ?es] m by (simp add: anchored_def)
  have a: "appended m ?p ?es = nlog m" by (rule appended_again [OF p m(1,2)])
  then show "\<not> append_changes m req" using m by (simp add: append_changes_def)
  have f: "follow_node m req = m" using m by (cases m) (auto simp: follow_node_def)
  have "lastLogIndexLocked m = lastLogIndexLocked ((follow_node n req)\<lparr>nlog := appended n ?p ?es\<rparr>)"
    using m by (simp add: lastLogIndexLocked_def)
  then have "min (aeLeaderCommit req) (lastLogIndexLocked m) \<le> commitIndex m"
    by (simp add: m_def append_node_def follow_commit_index)
  then have "\<not> commitIndex m < min (aeLeaderCommit req) (lastLogIndexLocked m)"
    by (simp add: min_le_iff_disj not_less)
  then show "append_node m req = m"
    using f a by (simp add: append_node_def follow_commit_def Let_def del: min_less_iff_conj)
qed

end
