(* ===== verification/NodeProps.thy ===== *)
theory NodeProps
  imports LogMatch ApplySteps
begin

text \<open>
  The properties of a single node: its invariant, its votes, what it does with a leader's
  requests, how far a leader commits, and what it applies.
\<close>

text \<open>The node, the store and the requests at which the properties are evaluated.\<close>

definition no_save :: "unit saver" where
  "no_save s ps = (None, s)"

definition sample_log :: "LogEntry list" where
  "sample_log = [\<lparr>eTerm = 1, eIndex = 1, eCommand = ''p''\<rparr>, \<lparr>eTerm = 2, eIndex = 2, eCommand = ''q''\<rparr>]"

definition sample_node :: "unit RaftNode" where
  "sample_node =
     \<lparr>nid = ''a'', peers = [''b'', ''c''], selfMember = True, membershipConfigured = True,
      state = Follower, leaderID = [], currentTerm = 2, votedFor = [], nlog = sample_log,
      commitIndex = 1, lastApplied = 0, lastIncludedIndex = 0, lastIncludedTerm = 0, snapshot = [],
      nextIndex = None, matchIndex = None, store = Some (), commitReady = False\<rparr>"

definition sample_vote :: "string \<Rightarrow> uint64 \<Rightarrow> RequestVoteRequest" where
  "sample_vote c t = \<lparr>rvTerm = t, rvCandidateID = c, rvLastLogIndex = 2, rvLastLogTerm = 2\<rparr>"

definition sample_append :: AppendEntriesRequest where
  "sample_append =
     \<lparr>aeTerm = 3, aeLeaderID = ''b'', aePrevLogIndex = 1, aePrevLogTerm = 1,
      aeEntries = [\<lparr>eTerm = 3, eIndex = 2, eCommand = ''r''\<rparr>, \<lparr>eTerm = 3, eIndex = 3, eCommand = ''s''\<rparr>],
      aeLeaderCommit = 2\<rparr>"

lemmas sample_defs = no_save_def sample_log_def sample_node_def sample_vote_def sample_append_def

definition sample_leader :: "unit RaftNode" where
  "sample_leader =
     sample_node\<lparr>nid := ''b'', peers := [''a'', ''c''], state := Leader, leaderID := ''b'', currentTerm := 3,
       votedFor := ''b'', nlog := hd sample_log # aeEntries sample_append, commitIndex := 1,
       nextIndex := Some [''a'' \<mapsto> 2, ''c'' \<mapsto> 4], matchIndex := Some [''a'' \<mapsto> 0, ''c'' \<mapsto> 1]\<rparr>"

definition sample_change :: bytes where
  "sample_change =
     (case EncodeMembershipChange \<lparr>mcType = MembershipAddPeer, mcPeerID = ''d''\<rparr> of Inl _ \<Rightarrow> [] | Inr c \<Rightarrow> c)"

text \<open>The definitions that run an operation on a concrete node.\<close>

lemmas run_defs = RequestVote_def HandleAppendEntries_def appendEntriesToLogLocked_def AppendLocal_def Compact_def
  BecomeCandidate_def promoteCandidate_def stepDownForHigherTerm_def initLeaderProgressLocked_def
  advanceCommitLocked_def advance_loop.simps replicatedCount_def majority_def clusterSizeLocked_def
  markApplied_def persistLocked_def persistent_of_def isMemberLocked_def IsLogAtLeastUpToDate_def
  lastLogIndexLocked_def lastLogTermLocked_def firstLogIndexLocked_def containsLogIndexLocked_def
  logTermAtLocked_def go_index_def go_slice_from_def signalCommitReadyLocked_def Let_def

lemma node_ok_sample: "node_ok sample_node"
  by (simp add: node_ok_def ok_defs sample_defs)

lemma node_ok_sample_leader: "node_ok sample_leader" "has_room sample_leader"
  by (simp_all add: node_ok_def ok_defs has_room_def sample_leader_def sample_defs insert_commute)

lemma sample_commands:
  "DecodeMembershipChange ''p'' = (zeroMembershipChange, False, None)"
  "DecodeMembershipChange ''r'' = (zeroMembershipChange, False, None)"
  "DecodeMembershipChange ''s'' = (zeroMembershipChange, False, None)"
  "DecodeMembershipChange sample_change = (\<lparr>mcType = MembershipAddPeer, mcPeerID = ''d''\<rparr>, True, None)"
  by code_simp+

lemma no_save_ok [simp]: "persist_err no_save n = None"
  by (simp add: persist_err_def no_save_def split: option.split)

lemma sample_append_fits:
  "prev_matches sample_node sample_append" "anchored sample_node sample_append"
  "respects_commit sample_node sample_append" "\<not> append_refused sample_node sample_append"
  by (simp_all add: prev_matches_def anchored_def respects_commit_def append_refused_def isMemberLocked_def
      term_at_def entry_at_def sample_defs)

subsection \<open>The invariant\<close>

text \<open>C3. In any order, the program's operations on a node never panic and keep its invariant, as
  long as their arguments are those of \<open>ops_ok\<close>: an append request that passes the check of the
  previous entry starts inside or right after the log, stays below \<open>2 ^ 64\<close> and sends no other
  term for a committed position; there is room for one more entry and one more term; a
  membership change has passed validation, and it and an index to be marked as applied are
  committed.\<close>

theorem node_invariant:
  assumes "node_ok n" and "ops_ok sv ops n"
  shows "\<exists>n'. run_ops sv ops n = Some n' \<and> node_ok n'"
  by (rule run_ops_ok [OF assms])

theorem node_invariant_witness:
  "\<exists>n'. run_ops no_save [OpVote (sample_vote ''b'' 2), OpAppend sample_append, OpApplied 1, OpCompact ''snap''] sample_node
     = Some n' \<and> node_ok n'"
proof (rule node_invariant [OF node_ok_sample])
  show "ops_ok no_save [OpVote (sample_vote ''b'' 2), OpAppend sample_append, OpApplied 1, OpCompact ''snap''] sample_node"
    by (simp add: run_defs sample_defs prev_matches_def anchored_def respects_commit_def term_at_def entry_at_def)
qed

subsection \<open>Votes\<close>

text \<open>C5. Over any sequence of operations that does not remove the node itself, the term never
  falls, and within one term a vote once given is never changed.\<close>

theorem vote_once:
  assumes "node_ok n" and "ops_ok sv ops n" and "list_all (keeps_self (nid n)) ops"
    and "run_ops sv ops n = Some n'"
  shows "currentTerm n \<le> currentTerm n'
    \<and> (currentTerm n' = currentTerm n \<and> votedFor n \<noteq> [] \<longrightarrow> votedFor n' = votedFor n)"
  using votes.run_le [OF assms] by (simp add: vote_kept_def)

theorem vote_once_witness:
  "\<exists>n'. run_ops no_save [OpVote (sample_vote ''c'' 2), OpStepDown 2] (sample_node\<lparr>votedFor := ''b''\<rparr>) = Some n'
     \<and> currentTerm n' = 2 \<and> votedFor n' = ''b''"
proof -
  let ?n = "sample_node\<lparr>votedFor := ''b''\<rparr>" and ?ops = "[OpVote (sample_vote ''c'' 2), OpStepDown 2]"
  obtain n' where r: "run_ops no_save ?ops ?n = Some n'" "currentTerm n' = 2"
    by (simp add: run_defs sample_defs)
  have ok: "node_ok ?n" using node_ok_sample by simp
  have "ops_ok no_save ?ops ?n" by (simp add: run_defs sample_defs)
  moreover have "list_all (keeps_self (nid ?n)) ?ops" by simp
  ultimately have "votedFor n' = votedFor ?n"
    using vote_once [OF ok _ _ r(1)] r(2) by (simp add: sample_node_def)
  with r show ?thesis by simp
qed

text \<open>C15. \<^verbatim>\<open>RequestVote\<close> grants a vote exactly when the candidate's term is not older, both nodes
  are members, no other candidate has the vote of that term and the candidate's log is at
  least as up to date; the node then holds that vote in that term, and the reply carries the
  node's term.\<close>

theorem RequestVote_grants:
  assumes "RequestVote sv n req = (resp, err, n')"
  shows "(rvrVoteGranted resp \<longleftrightarrow>
      currentTerm n \<le> rvTerm req \<and> selfMember n \<and> isMemberLocked n (rvCandidateID req)
      \<and> (currentTerm n < rvTerm req \<or> votedFor n = [] \<or> votedFor n = rvCandidateID req)
      \<and> IsLogAtLeastUpToDate (rvLastLogIndex req) (rvLastLogTerm req)
           (lastLogIndexLocked n) (lastLogTermLocked n))
    \<and> (rvrVoteGranted resp \<longrightarrow> votedFor n' = rvCandidateID req \<and> currentTerm n' = rvTerm req)
    \<and> rvrTerm resp = currentTerm n' \<and> nlog n' = nlog n"
proof (cases "vote_refused n req")
  case True
  then show ?thesis using assms by (auto simp: RequestVote_refused vote_refused_def)
next
  case False
  have l: "lastLogIndexLocked (adopt_term n (rvTerm req)) = lastLogIndexLocked n"
    "lastLogTermLocked (adopt_term n (rvTerm req)) = lastLogTermLocked n"
    by (simp_all add: lastLogIndexLocked_def lastLogTermLocked_def)
  have v: "votedFor (adopt_term n (rvTerm req)) = (if currentTerm n < rvTerm req then [] else votedFor n)"
    by (simp add: adopt_term_def)
  show ?thesis
    using assms False
    by (auto simp: RequestVote_considered vote_refused_def vote_granted_def l v vote_node_def Let_def not_less max_def)
qed

theorem RequestVote_grants_witness:
  "rvrVoteGranted (fst (RequestVote no_save sample_node (sample_vote ''b'' 2)))
   \<and> \<not> rvrVoteGranted (fst (RequestVote no_save (sample_node\<lparr>votedFor := ''c''\<rparr>) (sample_vote ''b'' 2)))"
proof -
  obtain resp err n' where r: "RequestVote no_save sample_node (sample_vote ''b'' 2) = (resp, err, n')"
    by (cases rule: prod_cases3)
  obtain resp1 err1 n1 where
    r1: "RequestVote no_save (sample_node\<lparr>votedFor := ''c''\<rparr>) (sample_vote ''b'' 2) = (resp1, err1, n1)"
    by (cases rule: prod_cases3)
  show ?thesis
    using RequestVote_grants [OF r] RequestVote_grants [OF r1] r r1
    by (simp add: sample_defs isMemberLocked_def lastLogIndexLocked_def lastLogTermLocked_def)
qed

text \<open>C16. A granted vote that is answered without an error was saved first: the store was given,
  and took, a state with that term and that vote.\<close>

theorem vote_saved_first:
  assumes "RequestVote sv n req = (resp, None, n')" and "rvrVoteGranted resp" and "store n = Some s"
  shows "\<exists>ps s'. sv s ps = (None, s') \<and> psCurrentTerm ps = rvTerm req \<and> psVotedFor ps = rvCandidateID req
    \<and> store n' = Some s'"
proof -
  note g = RequestVote_granted [OF assms(1,2)]
  obtain err s' where "sv s (persistent_of (vote_node n req)) = (err, s')" by fastforce
  then have "sv s (persistent_of (vote_node n req)) = (None, s')" "store n' = Some s'"
    using g(1,4) assms(3) by (auto simp: persistLocked_def)
  then show ?thesis using g(2,3) by (auto simp: persistent_of_def)
qed

text \<open>A store that keeps every state it is given.\<close>

definition keep_save :: "PersistentState list saver" where
  "keep_save s ps = (None, ps # s)"

definition keeping_node :: "PersistentState list RaftNode" where
  "keeping_node =
     \<lparr>nid = ''a'', peers = [''b'', ''c''], selfMember = True, membershipConfigured = True,
      state = Follower, leaderID = [], currentTerm = 1, votedFor = [], nlog = sample_log,
      commitIndex = 1, lastApplied = 0, lastIncludedIndex = 0, lastIncludedTerm = 0, snapshot = [],
      nextIndex = None, matchIndex = None, store = Some [], commitReady = False\<rparr>"

theorem vote_saved_first_witness:
  "\<exists>resp n' ps. RequestVote keep_save keeping_node (sample_vote ''b'' 2) = (resp, None, n')
     \<and> rvrVoteGranted resp \<and> store n' = Some [ps] \<and> psCurrentTerm ps = 2 \<and> psVotedFor ps = ''b''"
proof -
  obtain resp n' where r: "RequestVote keep_save keeping_node (sample_vote ''b'' 2) = (resp, None, n')" "rvrVoteGranted resp"
    by (simp add: run_defs sample_defs keep_save_def keeping_node_def)
  have "store keeping_node = Some []" by (simp add: keeping_node_def)
  from vote_saved_first [OF r this] r show ?thesis by (auto simp: sample_vote_def keep_save_def)
qed

text \<open>C17. \<^verbatim>\<open>PreVote\<close> promises, for every term, exactly the vote that \<^verbatim>\<open>RequestVote\<close> with the same
  fields would give if the node had not voted yet; so it promises every vote that \<^verbatim>\<open>RequestVote\<close>
  would give.  Its reply carries the node's own term and no error.\<close>

theorem PreVote_agrees:
  fixes n :: "'s RaftNode" and t i u :: uint64 and c :: string
  defines "pre \<equiv> \<lparr>pvTerm = t, pvCandidateID = c, pvLastLogIndex = i, pvLastLogTerm = u\<rparr>"
    and "req \<equiv> \<lparr>rvTerm = t, rvCandidateID = c, rvLastLogIndex = i, rvLastLogTerm = u\<rparr>"
  shows "(PreVote n pre
        = (\<lparr>pvrTerm = currentTerm n, pvrVoteGranted = rvrVoteGranted (fst (RequestVote sv (n\<lparr>votedFor := []\<rparr>) req))\<rparr>, None))
    \<and> rvrVoteGranted (fst (RequestVote sv n req)) \<le> pvrVoteGranted (fst (PreVote n pre))"
proof -
  have g: "vote_granted (adopt_term m t) req
      = ((t > currentTerm m \<or> votedFor m = [] \<or> votedFor m = c)
         \<and> IsLogAtLeastUpToDate i u (lastLogIndexLocked m) (lastLogTermLocked m))" for m :: "'s RaftNode"
    by (auto simp: vote_granted_def adopt_term_def lastLogIndexLocked_def lastLogTermLocked_def req_def)
  have f: "vote_refused (n\<lparr>votedFor := []\<rparr>) req = vote_refused n req"
      "lastLogIndexLocked (n\<lparr>votedFor := []\<rparr>) = lastLogIndexLocked n"
      "lastLogTermLocked (n\<lparr>votedFor := []\<rparr>) = lastLogTermLocked n"
    by (simp_all add: vote_refused_def isMemberLocked_def lastLogIndexLocked_def lastLogTermLocked_def)
  have r: "rvTerm req = t" by (simp add: req_def)
  show ?thesis
  proof (cases "vote_refused n req")
    case True
    then show ?thesis using f(1) by (auto simp: RequestVote_refused PreVote_def vote_refused_def pre_def req_def Let_def)
  next
    case False
    then have "PreVote n pre
        = (\<lparr>pvrTerm = currentTerm n, pvrVoteGranted = IsLogAtLeastUpToDate i u (lastLogIndexLocked n) (lastLogTermLocked n)\<rparr>, None)"
      by (auto simp: PreVote_def vote_refused_def pre_def req_def Let_def)
    then show ?thesis using False f by (simp add: RequestVote_considered r g)
  qed
qed

subsection \<open>AppendEntries\<close>



text \<open>C12. An accepted request makes the log exactly the reference merge of the old log with the
  entries sent (everything up to the first entry whose term differs is kept, from there on
  the sender's entries replace it), and moves the commit index to the sender's, as far as the
  new log reaches.\<close>

theorem append_is_merge:
  assumes "log_ok n" and "\<not> append_refused n req" and "prev_matches n req" and "anchored n req"
  defines "p \<equiv> unat (aePrevLogIndex req)"
  shows "\<exists>err n'. HandleAppendEntries sv n req = Some (\<lparr>aerTerm = aeTerm req, aerSuccess = True\<rparr>, err, n')
    \<and> nlog n' = take (p - base n) (nlog n)
        @ merge_log (drop (p - base n) (nlog n)) (drop (base n - p) (normalizeEntries (of_nat (p + 1)) (aeEntries req)))
    \<and> commitIndex n' = max (commitIndex n) (min (aeLeaderCommit req) (lastLogIndexLocked n'))
    \<and> currentTerm n' = aeTerm req \<and> state n' = Follower"
proof -
  let ?m = "append_node n req"
  have "lastLogIndexLocked ((follow_node n req)\<lparr>nlog := appended n p (aeEntries req)\<rparr>) = lastLogIndexLocked ?m"
    by (simp add: append_node_def lastLogIndexLocked_def p_def)
  then have c: "commitIndex ?m = max (commitIndex n) (min (aeLeaderCommit req) (lastLogIndexLocked ?m))"
    by (simp add: append_node_def follow_commit_index p_def)
  have s: "lastLogIndexLocked (?m\<lparr>store := x\<rparr>) = lastLogIndexLocked ?m" for x by (simp add: lastLogIndexLocked_def)
  have l: "nlog ?m = appended n p (aeEntries req)" "currentTerm ?m = aeTerm req" "state ?m = Follower"
    by (simp_all add: append_node_def p_def)
  show ?thesis
    using HandleAppendEntries_match [OF assms(1-4), of sv] c l
    by (simp add: s appended_def)
qed

theorem append_is_merge_witness:
  "\<exists>err n'. HandleAppendEntries no_save sample_node sample_append = Some (\<lparr>aerTerm = 3, aerSuccess = True\<rparr>, err, n')
     \<and> nlog n' = [\<lparr>eTerm = 1, eIndex = 1, eCommand = ''p''\<rparr>, \<lparr>eTerm = 3, eIndex = 2, eCommand = ''r''\<rparr>,
                  \<lparr>eTerm = 3, eIndex = 3, eCommand = ''s''\<rparr>]
     \<and> commitIndex n' = 2"
proof -
  have l: "log_ok sample_node" using node_ok_sample by (rule node_okD)
  from append_is_merge [OF l sample_append_fits(4,1,2), of no_save] obtain err n' where
    n': "HandleAppendEntries no_save sample_node sample_append = Some (\<lparr>aerTerm = 3, aerSuccess = True\<rparr>, err, n')"
      "nlog n' = [\<lparr>eTerm = 1, eIndex = 1, eCommand = ''p''\<rparr>, \<lparr>eTerm = 3, eIndex = 2, eCommand = ''r''\<rparr>,
                  \<lparr>eTerm = 3, eIndex = 3, eCommand = ''s''\<rparr>]"
      "commitIndex n' = max 1 (min 2 (lastLogIndexLocked n'))"
    by (auto simp: sample_defs numeral_2_eq_2)
  then show ?thesis by (simp add: lastLogIndexLocked_def)
qed

text \<open>C13. A request that the node has accepted, with entries that start inside or right after its
  log and stay below \<open>2 ^ 64\<close>, succeeds again when it is delivered a second time; the node does
  not change and nothing is saved, also when the first save has failed.\<close>

theorem append_replay:
  assumes "log_ok n" and "\<not> append_refused n req" and "prev_matches n req" and "anchored n req"
    and "HandleAppendEntries sv n req = Some (resp, err, n')"
  shows "HandleAppendEntries sv n' req = Some (\<lparr>aerTerm = aeTerm req, aerSuccess = True\<rparr>, None, n')"
proof -
  have "prev_matches n req \<longrightarrow> anchored n req" using assms(4) by simp
  from assms(1) this assms(5) obtain s where n': "n' = (append_node n req)\<lparr>store := s\<rparr>"
  proof (cases rule: HandleAppendEntries_node)
    case (append s)
    from append(3) show ?thesis by (rule that)
  qed (use assms(2,3) in simp_all)
  note again = append_again [OF assms(1,3,4,2), of s, folded n']
  have "nlog n' = appended n (unat (aePrevLogIndex req)) (aeEntries req)" "lastIncludedIndex n' = lastIncludedIndex n"
    by (simp_all add: n' append_node_def)
  then have "log_ok n'" using log_ok_append_node(1) [OF assms(1,4)] by (simp add: log_ok_def append_node_def)
  then show ?thesis using HandleAppendEntries_match [OF _ again(1-3)] again(4,5) by simp
qed

theorem append_replay_witness:
  "\<exists>n'. HandleAppendEntries no_save n' sample_append = Some (\<lparr>aerTerm = 3, aerSuccess = True\<rparr>, None, n')
     \<and> length (nlog n') = 3"
proof -
  have l: "log_ok sample_node" using node_ok_sample by (rule node_okD)
  obtain resp err n' where h: "HandleAppendEntries no_save sample_node sample_append = Some (resp, err, n')"
      "length (nlog n') = 3"
    by (simp add: run_defs sample_defs)
  from append_replay [OF l sample_append_fits(4,1,2) h(1)] h(2) show ?thesis
    by (auto simp: sample_append_def)
qed

text \<open>C9. A leader and a follower whose logs match: the follower that accepts the request the leader
  builds for it then holds every entry of the leader's log (above what either has compacted),
  the logs still match, and the index the leader records for it is the end of the leader's
  log.\<close>

theorem replication_round:
  assumes "node_ok l" and "state l = Leader" and "p \<in> set (peers l)" and "prev_of l p \<le> log_end l"
    and "log_ok f" and "logs_match l f"
    and "BuildAppendEntries l p = Some (Inr req)" and "\<not> append_refused f req"
    and "prev_matches f req" and "anchored f req"
  shows "\<exists>err f'. HandleAppendEntries sv f req = Some (\<lparr>aerTerm = currentTerm l, aerSuccess = True\<rparr>, err, f')
    \<and> (\<forall>k. base l < k \<and> base f < k \<and> k \<le> log_end l \<longrightarrow> entry_at f' k = entry_at l k)
    \<and> logs_match l f' \<and> unat (reply_match req) = log_end l"
proof -
  have req: "req = built_request l p" using assms(7) BuildAppendEntries_eq [OF assms(1-3)] by simp
  have lo: "log_ok l" using assms(1) by (rule node_okD)
  let ?g = "f\<lparr>nlog := appended f (prev_of l p) (aeEntries req)\<rparr>"
  note rep = replicated [OF lo assms(5,6,4), folded req, OF assms(9,10)]
    and mat = replicated_match [OF lo assms(5,6,4), folded req, OF assms(9,10)]
    and ends = built_request_end [OF assms(4), folded req]
  let ?f' = "if append_changes f req then (append_node f req)\<lparr>store := persist_store sv (append_node f req)\<rparr> else append_node f req"
  have e: "entry_at ?f' = entry_at ?g"
    using ends(2) by (intro entry_at_cong) (auto simp: append_node_def)
  have b: "lastIncludedIndex ?f' = lastIncludedIndex f" by (simp add: append_node_def)
  have "logs_match l ?f' = logs_match l ?g" using e b by (simp add: logs_match_def)
  moreover have "unat (reply_match req) = log_end l"
    using ends log_ok_bound [OF lo] by (simp add: reply_match_def unat_add_of_nat_64)
  moreover have "aeTerm req = currentTerm l" by (simp add: req built_request_def)
  ultimately show ?thesis
    using HandleAppendEntries_match [OF assms(5,8-10), of sv] rep mat e by auto
qed

theorem replication_round_witness:
  "\<exists>req err f'. BuildAppendEntries sample_leader ''a'' = Some (Inr req)
     \<and> HandleAppendEntries no_save sample_node req = Some (\<lparr>aerTerm = 3, aerSuccess = True\<rparr>, err, f')
     \<and> logs_match sample_leader f' \<and> entry_at f' 3 = entry_at sample_leader 3 \<and> unat (reply_match req) = 3"
proof -
  let ?req = "sample_append\<lparr>aeLeaderCommit := 1\<rparr>"
  have l: "node_ok sample_leader" "state sample_leader = Leader" "''a'' \<in> set (peers sample_leader)"
      "prev_of sample_leader ''a'' \<le> log_end sample_leader"
    using node_ok_sample_leader by (simp_all add: sample_leader_def sample_defs prev_of_def NextIndex_def go_map_read_def)
  have f: "log_ok sample_node" using node_ok_sample by (rule node_okD)
  have b: "BuildAppendEntries sample_leader ''a'' = Some (Inr ?req)"
    by (simp add: BuildAppendEntries_def cloneEntriesFromLocked_def run_defs sample_leader_def sample_defs go_map_read_def)
  have m: "logs_match sample_leader sample_node"
    by (auto simp: logs_match_def entry_at_def sample_leader_def sample_defs nth_Cons split: if_splits nat.splits)
  have r: "\<not> append_refused sample_node ?req" "prev_matches sample_node ?req" "anchored sample_node ?req"
    using sample_append_fits by (simp_all add: append_refused_def prev_matches_def anchored_def)
  from replication_round [OF l f m b r, of no_save] b show ?thesis
    by (auto simp: sample_leader_def sample_defs)
qed

subsection \<open>Commitment\<close>

text \<open>An accepted request that sends another term for a committed position.\<close>

fun overwrites_commit :: "'s RaftNode \<Rightarrow> NodeOp \<Rightarrow> bool" where
  "overwrites_commit n (OpAppend req) = (\<not> append_refused n req \<and> prev_matches n req \<and> \<not> respects_commit n req)"
| "overwrites_commit n op = False"

lemma append_overwrites:
  assumes "node_ok n" and "anchored n req" and "\<not> respects_commit n req"
  shows "\<exists>k. base n < k \<and> k \<le> unat (commitIndex n) \<and> entry_at (append_node n req) k \<noteq> entry_at n k"
proof -
  let ?p = "unat (aePrevLogIndex req)" and ?es = "aeEntries req"
  have l: "log_ok n" using assms(1) by (rule node_okD)
  obtain j where j: "j < length ?es" "base n < ?p + 1 + j" "?p + 1 + j \<le> unat (commitIndex n)"
      "term_at n (?p + 1 + j) \<noteq> eTerm (?es ! j)"
    using assms(3) by (auto simp: respects_commit_def)
  let ?k = "?p + 1 + j"
  have a: "?p \<le> log_end n" "?p + length ?es + 1 < 2 ^ 64" using assms(2) by (simp_all add: anchored_def)
  obtain e' where e': "entry_at (n\<lparr>nlog := appended n ?p ?es\<rparr>) ?k = Some e'"
      "e' = (?es ! (?k - ?p - 1))\<lparr>eIndex := of_nat ?k\<rparr> \<or> entry_at n ?k = Some e' \<and> eTerm e' = eTerm (?es ! (?k - ?p - 1))"
    using entry_at_appended_sent [OF l a, of ?k] j(1,2) by auto
  then have "eTerm e' = eTerm (?es ! j)" by auto
  moreover have "entry_at (append_node n req) ?k = Some e'"
    using e'(1) entry_at_cong [of "append_node n req" "n\<lparr>nlog := appended n ?p ?es\<rparr>"] by (simp add: append_node_def)
  moreover have "entry_at n ?k \<noteq> Some e'" using calculation(1) j(2,4) by (auto simp: term_at_def)
  ultimately show ?thesis using j(2,3) by (intro exI [of _ ?k]) simp
qed

text \<open>C4. No operation lowers the commit index, the applied index or the snapshot index.  An entry at
  or below the commit index, and above the snapshot, changes exactly when the operation is an
  append request that the node accepts and that sends another term for such a position;
  \<^verbatim>\<open>HandleAppendEntries\<close> does not look at the commit index.  (The arguments are those of
  \<open>op_ok\<close>, except that an append request only has to start inside or right after the log.)\<close>

theorem committed_stable:
  assumes "node_ok n" and "op_ok n op \<or> (\<exists>req. op = OpAppend req \<and> anchored n req)" and "node_op sv op n = Some n'"
  shows "commitIndex n \<le> commitIndex n' \<and> lastApplied n \<le> lastApplied n'
    \<and> lastIncludedIndex n \<le> lastIncludedIndex n'
    \<and> ((\<forall>k. base n' < k \<and> k \<le> unat (commitIndex n) \<longrightarrow> entry_at n' k = entry_at n k) \<longleftrightarrow> \<not> overwrites_commit n op)"
proof (cases "op_ok n op")
  case True
  have "commit_kept n n'" using commits.le_op [OF assms(1) True TrueI assms(3)] by simp
  moreover have "\<not> overwrites_commit n op" using True by (cases op) auto
  ultimately show ?thesis by (auto simp: commit_kept_def)
next
  case False
  then obtain req where req: "op = OpAppend req" "anchored n req" using assms(2) by blast
  have m: "prev_matches n req" "\<not> respects_commit n req" using False req by simp_all
  obtain resp err where h: "HandleAppendEntries sv n req = Some (resp, err, n')" using assms(3) req(1) by auto
  have "prev_matches n req \<longrightarrow> anchored n req" using req(2) by simp
  from node_okD(1) [OF assms(1)] this h show ?thesis
  proof (cases rule: HandleAppendEntries_node)
    case (append s)
    have e: "entry_at n' = entry_at (append_node n req)" by (rule entry_at_cong) (simp_all add: append)
    have f: "base n' = base n" "commitIndex n \<le> commitIndex n'" "lastApplied n' = lastApplied n"
        "lastIncludedIndex n' = lastIncludedIndex n"
      by (simp_all add: append append_node_def follow_commit_index)
    have "overwrites_commit n op" using append(1,2) m req(1) by simp
    moreover obtain k where "base n < k" "k \<le> unat (commitIndex n)" "entry_at n' k \<noteq> entry_at n k"
      using append_overwrites [OF assms(1) req(2) m(2)] unfolding e by blast
    ultimately show ?thesis using f by auto
  next
    case same
    then show ?thesis using req(1) by simp
  next
    case (follow s)
    then show ?thesis using m(1) by simp
  qed
qed

theorem committed_stable_witness:
  "(\<exists>n'. node_op no_save (OpAppend sample_append) sample_node = Some n' \<and> nlog n' \<noteq> nlog sample_node
      \<and> entry_at n' 1 = entry_at sample_node 1)
   \<and> (\<exists>n'. node_op no_save (OpAppend sample_append) (sample_node\<lparr>commitIndex := 2\<rparr>) = Some n' \<and> commitIndex n' = 2
      \<and> \<not> (\<forall>k. base n' < k \<and> k \<le> 2 \<longrightarrow> entry_at n' k = entry_at sample_node k))"
proof -
  let ?n = "sample_node\<lparr>commitIndex := 2\<rparr>" and ?op = "OpAppend sample_append"
  obtain n1 where 1: "node_op no_save ?op sample_node = Some n1" "nlog n1 \<noteq> nlog sample_node" "base n1 = 0"
    by (simp add: run_defs sample_defs)
  obtain n2 where 2: "node_op no_save ?op ?n = Some n2" "commitIndex n2 = 2" "base n2 = 0"
    by (simp add: run_defs sample_defs)
  have ok: "node_ok ?n" by (simp add: node_ok_def ok_defs sample_defs)
  have a: "op_ok sample_node ?op" "\<not> overwrites_commit sample_node ?op" using sample_append_fits by simp_all
  have b: "anchored ?n sample_append" "overwrites_commit ?n ?op"
    by (simp_all add: anchored_def append_refused_def isMemberLocked_def prev_matches_def respects_commit_def term_at_def
        entry_at_def sample_defs)
  have "entry_at ?n = entry_at sample_node" by (rule entry_at_cong) simp_all
  then show ?thesis
    using committed_stable [OF node_ok_sample _ 1(1)] committed_stable [OF ok _ 2(1)] 1 2 a b by (auto simp: sample_node_def)
qed

lemma replicatedCount_card:
  "distinct (peers n) \<Longrightarrow>
     replicatedCount n k = 1 + card {p \<in> set (peers n). k \<le> MatchIndex n p}"
  by (simp add: replicatedCount_def MatchIndex_def distinct_card [symmetric] set_filter [symmetric] del: set_filter)

lemma committable_card:
  assumes "node_ok n" and "selfMember n"
  shows "committable n k \<longleftrightarrow> term_at n k = currentTerm n
    \<and> length (peers n) + 1 < 2 * (1 + card {p \<in> set (peers n). of_nat k \<le> MatchIndex n p})"
  using assms by (auto simp: committable_def replicatedCount_card node_ok_def membership_ok_def majority_def
      clusterSizeLocked_def)

text \<open>C10. \<^verbatim>\<open>advanceCommitLocked\<close> on a leader ends, moves the commit index only to an entry of the
  leader's own term that is known to be on more than half of the cluster, and leaves no such
  entry above it.\<close>

theorem commit_majority:
  assumes "node_ok n" and "state n = Leader" and "selfMember n"
  shows "\<exists>n'. advanceCommitLocked n = Some n' \<and> nlog n' = nlog n
    \<and> (let c = unat (commitIndex n'); reach = \<lambda>k. term_at n k = currentTerm n
          \<and> length (peers n) + 1 < 2 * (1 + card {p \<in> set (peers n). of_nat k \<le> MatchIndex n p})
       in unat (commitIndex n) \<le> c \<and> c \<le> log_end n
          \<and> (c \<noteq> unat (commitIndex n) \<longrightarrow> reach c)
          \<and> (\<forall>k. c < k \<and> k \<le> log_end n \<longrightarrow> \<not> reach k))"
proof -
  have l: "log_ok n" using assms(1) by (rule node_okD)
  have c: "unat (commitIndex n) \<le> log_end n" using assms(1) by (simp add: node_ok_def index_ok_def)
  have "unat (of_nat k :: uint64) = k" if "k \<le> log_end n" for k
    using log_ok_bound [OF l] that by (simp add: unat_of_nat_64)
  then have "\<exists>n'. advanceCommitLocked n = Some n' \<and> nlog n' = nlog n
    \<and> unat (commitIndex n) \<le> unat (commitIndex n') \<and> unat (commitIndex n') \<le> log_end n
    \<and> (unat (commitIndex n') \<noteq> unat (commitIndex n) \<longrightarrow> committable n (unat (commitIndex n')))
    \<and> (\<forall>k. unat (commitIndex n') < k \<and> k \<le> log_end n \<longrightarrow> \<not> committable n k)"
    using advanceCommit_eq [OF l] assms(2,3) c
    by (cases "best_commit n (log_end n)")
      (auto simp: commit_to_def signalCommitReadyLocked_def best_commit_None best_commit_Some)
  then show ?thesis unfolding committable_card [OF assms(1,3)] Let_def .
qed

theorem commit_majority_witness:
  "\<exists>n'. advanceCommitLocked (sample_leader\<lparr>matchIndex := Some [''a'' \<mapsto> 2, ''c'' \<mapsto> 0]\<rparr>) = Some n'
     \<and> commitIndex n' = 2"
proof -
  let ?l = "sample_leader\<lparr>matchIndex := Some [''a'' \<mapsto> 2, ''c'' \<mapsto> 0]\<rparr>"
  have "node_ok ?l" "state ?l = Leader" "selfMember ?l"
    by (simp_all add: node_ok_def ok_defs sample_leader_def sample_defs insert_commute)
  from commit_majority [OF this] obtain n' where "advanceCommitLocked ?l = Some n'" by blast
  then show ?thesis by (auto simp: run_defs sample_leader_def sample_defs go_map_read_def)
qed

subsection \<open>The leader's log\<close>

text \<open>C18. \<^verbatim>\<open>AppendLocal\<close> puts the command after the last entry, with the node's term and the next
  index, leaves the entries before it as they are, and returns that entry; a command that is
  an invalid membership change, or a membership change while another one is not yet applied,
  is refused and changes nothing.\<close>

theorem AppendLocal_at_end:
  assumes "node_ok n" and "has_room n" and "AppendLocal sv n command = Some (e, err, n')"
  shows "case append_error n command of
      Some bad \<Rightarrow> err = Some bad \<and> n' = n
    | None \<Rightarrow> nlog n' = nlog n @ [e] \<and> entry_at n' (log_end n + 1) = Some e
        \<and> eTerm e = currentTerm n \<and> unat (eIndex e) = log_end n + 1 \<and> eCommand e = command"
proof (cases "append_error n command")
  case None
  have l: "log_ok n" using assms(1) by (rule node_okD)
  have "unat (lastLogIndexLocked n + 1) = log_end n + 1"
    using assms(2) unat_lastLogIndex [OF l] by (simp add: has_room_def unat_plus_one_64)
  then show ?thesis
    using None assms(3) AppendLocal_appends [OF assms(1,2) None, of sv]
    by (auto simp: extended_def local_entry_def entry_at_def nth_append)
next
  case (Some bad)
  then show ?thesis using assms(3) AppendLocal_rejected [OF Some, of sv] by (simp only: option.case) simp
qed

theorem AppendLocal_at_end_witness:
  "\<exists>e n'. AppendLocal no_save sample_leader ''p'' = Some (e, None, n') \<and> entry_at n' 4 = Some e \<and> eTerm e = 3"
proof -
  have n: "append_error sample_leader ''p'' = None" by (simp add: append_error_def sample_commands)
  then obtain e n' where r: "AppendLocal no_save sample_leader ''p'' = Some (e, None, n')"
    using AppendLocal_appends [OF node_ok_sample_leader] by fastforce
  with AppendLocal_at_end [OF node_ok_sample_leader r] n show ?thesis
    by (simp add: sample_leader_def sample_defs eval_nat_numeral)
qed

lemma hasPending_iff:
  "hasPendingMembershipChangeLocked n \<longleftrightarrow>
     (\<exists>e \<in> set (nlog n). lastApplied n < eIndex e \<and> is_membership (eCommand e))"
proof -
  have "pending_from i es \<longleftrightarrow> (\<exists>e \<in> set es. i < eIndex e \<and> is_membership (eCommand e))" for i es
    by (induction es) (auto simp: is_membership_def not_less split: prod.splits)
  then show ?thesis by (simp add: hasPendingMembershipChangeLocked_def)
qed

text \<open>C19. While the log holds a membership change that is not applied, a second one is refused:
  at most one is under way.\<close>

theorem one_change_pending:
  assumes "AppendLocal sv n command = Some (e, None, n')" and "is_membership command"
  shows "\<not> (\<exists>p \<in> set (nlog n). lastApplied n < eIndex p \<and> is_membership (eCommand p))"
proof
  assume "\<exists>p \<in> set (nlog n). lastApplied n < eIndex p \<and> is_membership (eCommand p)"
  then have "hasPendingMembershipChangeLocked n" by (simp add: hasPending_iff)
  then obtain bad where "append_error n command = Some bad"
    using assms(2) by (cases "DecodeMembershipChange command" rule: prod_cases3)
      (force simp: append_error_def is_membership_def)
  from AppendLocal_rejected [OF this, of sv] assms(1) show False by simp
qed

theorem one_change_pending_witness:
  "\<exists>e n'. AppendLocal no_save sample_leader sample_change = Some (e, None, n')
     \<and> \<not> (\<exists>p \<in> set (nlog sample_leader). lastApplied sample_leader < eIndex p \<and> is_membership (eCommand p))"
proof -
  have "append_error sample_leader sample_change = None"
    by (simp add: append_error_def sample_commands hasPendingMembershipChangeLocked_def is_membership_def
        sample_leader_def sample_defs)
  then obtain e n' where r: "AppendLocal no_save sample_leader sample_change = Some (e, None, n')"
    using AppendLocal_appends [OF node_ok_sample_leader] by fastforce
  have "is_membership sample_change" by (simp add: is_membership_def sample_commands)
  from one_change_pending [OF r this] r show ?thesis by blast
qed

subsection \<open>Applying and compacting\<close>


text \<open>A state machine that lists the entries it is given and fails on one command.\<close>

definition picky :: "bytes \<Rightarrow> LogEntry list applier" where
  "picky c m e = (if eCommand e = c then Some (Errorf ''no'' []) else None, m @ [e])"


text \<open>C20. Compaction to a snapshot keeps every entry above \<^verbatim>\<open>lastApplied\<close>, the last index and
  term of the log, and the term at every index from \<^verbatim>\<open>lastApplied\<close> on.\<close>

theorem compact_keeps_log:
  assumes "node_ok n" and "Compact sv n snap = Some (err, n')"
  shows "node_ok n' \<and> commitIndex n' = commitIndex n \<and> lastApplied n' = lastApplied n
    \<and> lastLogIndexLocked n' = lastLogIndexLocked n \<and> lastLogTermLocked n' = lastLogTermLocked n
    \<and> (\<forall>k \<ge> unat (lastApplied n). term_at n' k = term_at n k)
    \<and> (\<forall>k > unat (lastApplied n). entry_at n' k = entry_at n k)"
proof (cases "lastApplied n \<le> lastIncludedIndex n \<or> term_at n (unat (lastApplied n)) = 0")
  case True
  then have "n' = n" using assms by (auto simp: Compact_eq split: if_splits)
  then show ?thesis using assms(1) by simp
next
  case False
  then have lt: "lastIncludedIndex n < lastApplied n" by (simp add: not_le)
  let ?c = "compacted n snap"
  have ok: "node_ok n'" using Compact_ok [OF assms(1), of sv snap] assms(2) by auto
  have n': "nlog n' = nlog ?c" "lastIncludedIndex n' = lastIncludedIndex ?c" "lastIncludedTerm n' = lastIncludedTerm ?c"
      "commitIndex n' = commitIndex ?c" "lastApplied n' = lastApplied ?c"
    using assms False by (auto simp: Compact_eq persistLocked_pair)
  have e: "entry_at n' = entry_at ?c" using n' by (intro entry_at_cong) simp_all
  then have t: "term_at n' = term_at ?c" using n' by (simp add: term_at_def fun_eq_iff)
  have l: "log_ok n" "log_ok n'" using assms(1) ok by (auto dest: node_okD(1))
  have i: "base n < unat (lastApplied n)" "unat (lastApplied n) \<le> log_end n"
    using assms(1) lt by (auto simp: node_ok_def index_ok_def word_le_nat_alt word_less_nat_alt)
  have en: "log_end n' = log_end n" using n' compacted_view(1) [OF assms(1) lt, of snap] by simp
  have pos: "0 < log_end n" "0 < log_end n'" using i en by linarith+
  have "lastLogTermLocked n' = lastLogTermLocked n"
    using lastLogTerm_eq [OF l(1) pos(1)] lastLogTerm_eq [OF l(2) pos(2)] en i t compacted_view(3) [OF assms(1) lt] by simp
  moreover have "lastLogIndexLocked n' = lastLogIndexLocked n"
    using unat_lastLogIndex [OF l(1)] unat_lastLogIndex [OF l(2)] en by (simp add: word_unat_eq_iff)
  moreover have "commitIndex n' = commitIndex n" "lastApplied n' = lastApplied n" using n' by (simp_all add: compacted_def)
  ultimately show ?thesis using ok e t compacted_view(2,3) [OF assms(1) lt] by simp
qed

theorem compact_keeps_log_witness:
  "\<exists>n'. Compact no_save (sample_node\<lparr>lastApplied := 1\<rparr>) ''snap'' = Some (None, n') \<and> length (nlog n') = 1
     \<and> lastLogIndexLocked n' = 2 \<and> entry_at n' 2 = entry_at sample_node 2"
proof -
  let ?n = "sample_node\<lparr>lastApplied := 1\<rparr>"
  have ok: "node_ok ?n" by (simp add: node_ok_def ok_defs sample_defs)
  obtain n' where r: "Compact no_save ?n ''snap'' = Some (None, n')" "length (nlog n') = 1"
    by (simp add: Compact_eq [OF ok], simp add: persistLocked_pair compacted_def term_at_def entry_at_def sample_defs)
  have "entry_at ?n = entry_at sample_node" by (rule entry_at_cong) simp_all
  then show ?thesis using compact_keeps_log [OF ok r(1)] r by (simp add: lastLogIndexLocked_def sample_defs)
qed

end
