(* ===== verification/HttpProps.thy ===== *)
theory HttpProps
  imports HttpFacts NodeProps
begin

text \<open>
  Properties of the HTTP API: which requests are refused, what an acknowledgement means, what
  a read sees, and what a client receives through a follower.
\<close>

subsection \<open>Answers come after the log\<close>

text \<open>C7. A request is interleaved with any operations of the rest of the program on the node that
  meet \<open>op_ok\<close> (an append request among them leaves no gap after the log and contradicts no
  committed entry).  When it is acknowledged with status 204, and when a read looks at the state
  machine, it has appended its own command to the log (the write itself, or the no-op of the
  read barrier) and the node has applied its log at least up to the index of that entry.\<close>

theorem answer_after_apply:
  assumes "served sv bb api rq run n e" and "run = HtDone [WriteHeader 204] \<or> run = HtGet key"
  shows "\<exists>entry. e = Some entry \<and> EncodeCommand (request_command rq) = Inr (eCommand entry)
    \<and> eIndex entry \<le> lastApplied n \<and> lastApplied n \<le> commitIndex n
    \<and> (rqMethod rq = ''GET'' \<longleftrightarrow> run = HtGet key)"
proof -
  have "node_ok n" "served_inv rq run n e" using served_all [OF assms(1)] by simp_all
  then show ?thesis using assms(2) by (auto simp: its_entry_def node_ok_def index_ok_def)
qed

subsection \<open>Writes and reads on a cluster of one\<close>

text \<open>C8. On the leader of a cluster of one whose stores accept every update and whose log has room,
  requests that run without interruption behave like a map, for every key that is a non-empty
  valid UTF-8 string without a slash and every value of at most 1 MiB: a \<^verbatim>\<open>PUT\<close> is answered with
  204 and a \<^verbatim>\<open>GET\<close> after it with 200 and the value that was put; a \<^verbatim>\<open>DELETE\<close> is answered with 204
  and a \<^verbatim>\<open>GET\<close> after it with 404.\<close>

theorem put_then_get:
  assumes "solo n" and "log_end n + 4 < 2 ^ 64" and "\<And>st ps. fst (sv st ps) = None"
    and "\<And>db d. fst (applyBolt bb db d) = None"
    and "key \<noteq> []" and "slash \<notin> set key" and "valid_utf8 key" and "length v \<le> maxKVValueBytes"
  shows "(\<exists>n1 s1 n2 s2. http_alone 9 sv bb api (kv_request ''PUT'' key v) (handleKV (kv_request ''PUT'' key v)) n s
        = Some ([WriteHeader 204], n1, s1)
      \<and> http_alone 11 sv bb api (kv_request ''GET'' key []) (handleKV (kv_request ''GET'' key [])) n1 s1
        = Some ([WriteHeader 200, Write (Bytes v)], n2, s2))
    \<and> (\<exists>n1 s1 n2 s2. http_alone 9 sv bb api (kv_request ''DELETE'' key v) (handleKV (kv_request ''DELETE'' key v)) n s
        = Some ([WriteHeader 204], n1, s1)
      \<and> http_alone 11 sv bb api (kv_request ''GET'' key []) (handleKV (kv_request ''GET'' key [])) n1 s1
        = Some (http_Error ''not found'' 404, n2, s2))"
proof -
  have room: "has_room n" using assms(2) by (simp add: has_room_def)
  have run: "\<exists>n1 s1 n2 s2. http_alone 9 sv bb api rq (HtBegin (TaskWrite body) c) n s = Some ([WriteHeader 204], n1, s1)
      \<and> http_alone 11 sv bb api (kv_request ''GET'' key []) (handleKV (kv_request ''GET'' key [])) n1 s1
        = Some (case Mapping.lookup (apply_data (kvData s) cmd) key of
            Some w \<Rightarrow> [WriteHeader 200, Write (Bytes w)] | None \<Rightarrow> http_Error ''not found'' 404, n2, s2)"
    if c: "EncodeCommand cmd = Inr c" "valid_utf8 (cKey cmd)" for cmd c body rq
  proof -
    obtain n1 s1 where w: "solo n1" "log_end n1 = log_end n + 1" "kvData s1 = apply_data (kvData s) cmd"
        "http_alone (8 + 1) sv bb api rq (HtBegin (TaskWrite body) c) n s
          = http_alone 1 sv bb api rq (applied (TaskWrite body) (ApDone None)) n1 s1"
      by (rule http_alone_command [OF assms(1) room c assms(3,4)])
    have room1: "has_room n1" using assms(2) w(2) by (simp add: has_room_def)
    obtain n2 s2 where g: "http_alone (Suc (8 + Suc (Suc 0))) sv bb api (kv_request ''GET'' key [])
        (handleKV (kv_request ''GET'' key [])) n1 s1
        = Some (if snd (Get s1 key) then [WriteHeader 200, Write (Bytes (fst (Get s1 key)))] else http_Error ''not found'' 404, n2, s2)"
      by (rule get_alone [OF w(1) room1 assms(5,6,3,4)])
    show ?thesis
      using w(3,4) g by (auto simp: Get_def applied_def split: option.splits)
  qed
  obtain c where c: "EncodeCommand \<lparr>cOperation = OperationPut, cKey = key, cValue = v\<rparr> = Inr c"
      "handleKV (kv_request ''PUT'' key v) = HtBegin (TaskWrite v) c"
    using handle_kv_request(1) [OF assms(5,6,8)] by blast
  obtain d where d: "EncodeCommand \<lparr>cOperation = OperationDelete, cKey = key, cValue = []\<rparr> = Inr d"
      "handleKV (kv_request ''DELETE'' key v) = HtBegin (TaskWrite []) d"
    using handle_kv_request(2) [OF assms(5,6)] by blast
  show ?thesis
    using run [OF c(1), of "kv_request ''PUT'' key v" v] run [OF d(1), of "kv_request ''DELETE'' key v" "[]"] assms(7) c(2) d(2)
    by (simp add: apply_data_def operation_names)
qed

subsection \<open>Refused requests\<close>

text \<open>The status with which a request is refused before anything is proposed.\<close>

definition bad_request :: "HttpRequest \<Rightarrow> nat option" where
  "bad_request rq =
     (let key = TrimPrefix (rqPath rq) ''/kv/'' in
      if key = [] \<or> slash \<in> set key then Some 400
      else if rqMethod rq \<notin> {''GET'', ''PUT'', ''DELETE''} then Some 405
      else if rqMethod rq = ''PUT'' \<and> length (fst (rqBody rq)) > 2 ^ 20 then Some 413
      else if rqMethod rq = ''PUT'' \<and> snd (rqBody rq) \<noteq> None then Some 400
      else None)"

lemma response_Error [simp]:
  assumes "200 \<le> code" and "code \<le> 999" and "bodyAllowedForStatus code"
  shows "\<exists>h b. response (http_Error msg code) = Some (code, h, b)"
    and "\<exists>h b. response (http_Error_err err code) = Some (code, h, b)"
    and "\<exists>h b. response (not_allowed methods) = Some (405, h, b)"
  using assms
  by (auto simp: response_def http_Error_def http_Error_err_def http_Error_chunk_def not_allowed_def newWriter_def
      bodyAllowedForStatus_def)

text \<open>C33. Exactly the requests with an empty key or a key with a slash, with another method than
  the three of the API, or with a body that is longer than 1 MiB or cannot be read, are
  refused at once, with status 400, 405, 413 and 400; nothing is read, proposed or forwarded
  for them, and for no other request is the answer given before the node is asked.\<close>

theorem bad_requests_refused:
  "case bad_request rq of
     None \<Rightarrow> \<forall>ops. handleKV rq \<noteq> HtDone ops
   | Some status \<Rightarrow> \<exists>ops h b. handleKV rq = HtDone ops \<and> response ops = Some (status, h, b)"
proof -
  let ?key = "TrimPrefix (rqPath rq) ''/kv/''"
  obtain data err where b: "rqBody rq = (data, err)" by (cases "rqBody rq")
  have e: "\<exists>c. EncodeCommand \<lparr>cOperation = op, cKey = ?key, cValue = v\<rparr> = Inr c"
    if "?key \<noteq> []" "op = OperationPut \<or> op = OperationDelete" for op v
    using that by (auto simp: EncodeCommand_def ValidateCommand_def operation_names)
  have p: "handlePut rq ?key =
      (if length data > 2 ^ 20 then HtDone (http_Error ''request body too large'' 413)
       else if err \<noteq> None then HtDone (http_Error ''read body'' 400)
       else HtBegin (TaskWrite data) (projr (EncodeCommand \<lparr>cOperation = OperationPut, cKey = ?key, cValue = data\<rparr>)))"
    if "?key \<noteq> []"
    using e [OF that, of OperationPut data] b
    by (auto simp: handlePut_def read_all_max_def maxKVValueBytes_def split: option.split)
  have d: "\<exists>c. handleDelete ?key = HtBegin (TaskWrite []) c" if "?key \<noteq> []"
    using e [OF that, of OperationDelete "[]"] by (auto simp: handleDelete_def)
  have a: "bodyAllowedForStatus code" if "code \<in> {400, 405, 413}" for code
    using that by (auto simp: bodyAllowedForStatus_def)
  show ?thesis
    using p d a response_Error(1) [of 400] response_Error(1) [of 413] response_Error(3) [of 400] b
    by (auto simp: bad_request_def handleKV_def handleGet_def ContainsByte_def Let_def)
qed

subsection \<open>Answers through a follower\<close>

lemma write_ops_append: "write_ops (xs @ ys) w = Option.bind (write_ops xs w) (write_ops ys)"
  by (induction xs arbitrary: w) (auto split: bind_splits)

definition header_of :: "(string \<times> string list) list \<Rightarrow> string \<Rightarrow> string list" where
  "header_of hs k = concat (map snd (filter (\<lambda>(j, _). j = k) hs))"

lemma write_values:
  "write_ops (map (AddHeader j) vals) w = Some (w\<lparr>wHeader := (wHeader w)(j := wHeader w j @ vals)\<rparr>)"
  by (induction vals arbitrary: w) simp_all

lemma write_headers:
  "write_ops (concat (map (\<lambda>(key, vals). map (AddHeader key) vals) hs)) w
     = Some (w\<lparr>wHeader := (\<lambda>k. wHeader w k @ header_of hs k)\<rparr>)"
proof (induction hs arbitrary: w)
  case Nil
  then show ?case by (cases w) (simp add: header_of_def)
next
  case (Cons h hs)
  obtain j vals where "h = (j, vals)" by (cases h)
  then show ?case
    using Cons by (auto simp: write_ops_append write_values header_of_def fun_eq_iff intro!: arg_cong [where f = Some])
qed

text \<open>C34. A client that asks a follower receives the leader's status and header unchanged and its
  body cut after 64 KiB, whatever its length; a leader that cannot be reached or whose answer
  cannot be read gives status 502.\<close>

theorem forwarded_answer:
  assumes "200 \<le> status" and "status \<le> 999"
  shows "response (forwarded_ops (forward_result (FwAnswer status header (body, None))))
      = Some (status, header_of header, if bodyAllowedForStatus status then [Bytes (take (64 * 1024) body)] else [])
    \<and> (\<exists>h b. response (forwarded_ops (forward_result (FwFailed err))) = Some (502, h, b))
    \<and> (length body \<le> 64 * 1024 \<longrightarrow> (\<exists>h b. response (forwarded_ops (forward_result (FwAnswer status header (body, Some err)))) = Some (502, h, b)))"
proof -
  have r: "forward_result (FwAnswer status header (body, None))
      = Inr \<lparr>frStatusCode = status, frHeader = header, frBody = take (64 * 1024) body\<rparr>"
    by (simp add: forward_result_def read_all_limit_def maxForwardResponseBytes_def min_def)
  have e: "\<exists>h b. response (forwarded_ops (Inl err)) = Some (502, h, b)"
    by (simp add: forwarded_ops_def bodyAllowedForStatus_def)
  have "response (forwarded_ops (forward_result (FwAnswer status header (body, None))))
      = Some (status, header_of header, if bodyAllowedForStatus status then [Bytes (take (64 * 1024) body)] else [])"
    using assms unfolding r
    by (simp add: forwarded_ops_def response_def write_ops_append write_headers newWriter_def)
  then show ?thesis
    using e by (auto simp: forward_result_def read_all_limit_def maxForwardResponseBytes_def)
qed

subsection \<open>Instances\<close>

definition solo_node :: "unit RaftNode" where
  "solo_node =
     \<lparr>nid = ''a'', peers = [], selfMember = True, membershipConfigured = False, state = Leader, leaderID = ''a'',
      currentTerm = 1, votedFor = ''a'', nlog = [], commitIndex = 0, lastApplied = 0, lastIncludedIndex = 0,
      lastIncludedTerm = 0, snapshot = [], nextIndex = Some Map.empty, matchIndex = Some Map.empty,
      store = Some (), commitReady = False\<rparr>"

lemma solo_sample: "solo solo_node" "log_end solo_node + 4 < 2 ^ 64" "has_room solo_node" "unat (currentTerm solo_node) + 1 < 2 ^ 64"
  by (simp_all add: solo_def node_ok_def ok_defs solo_node_def has_room_def)

lemma sample_saves: "fst (no_save st ps) = None"
  by (simp add: no_save_def)

lemma sample_updates: "fst (applyBolt ref_bbolt db d) = None"
  by (auto simp: applyBolt_def ref_bbolt_def split: prod.split)

lemma sample_key: "''k'' \<noteq> []" "slash \<notin> set ''k''" "valid_utf8 ''k''" "length ''v'' \<le> maxKVValueBytes"
  by (simp_all add: valid_utf8_ascii maxKVValueBytes_def)

theorem answer_after_apply_witness:
  "\<exists>(n :: unit RaftNode) entry. served no_save ref_bbolt (NewAPI True None) (kv_request ''PUT'' ''k'' ''v'') (HtDone [WriteHeader 204]) n (Some entry)
     \<and> eIndex entry \<le> lastApplied n"
proof -
  let ?rq = "kv_request ''PUT'' ''k'' ''v''"
  obtain c where c: "EncodeCommand \<lparr>cOperation = OperationPut, cKey = ''k'', cValue = ''v''\<rparr> = Inr c"
      "handleKV ?rq = HtBegin (TaskWrite ''v'') c"
    using handle_kv_request(1) [OF sample_key(1,2,4)] by blast
  have u: "valid_utf8 (cKey \<lparr>cOperation = OperationPut, cKey = ''k'', cValue = ''v''\<rparr>)" using sample_key(3) by simp
  have "served no_save ref_bbolt (NewAPI True None) ?rq (HtBegin (TaskWrite ''v'') c) solo_node None"
    using served.begin_request [of solo_node no_save ref_bbolt "NewAPI True None" ?rq] solo_sample(1) c(2) by (simp add: solo_def)
  then obtain n entry where s: "served no_save ref_bbolt (NewAPI True None) ?rq (applied (TaskWrite ''v'') (ApDone None)) n (Some entry)"
    by (rule served_command [OF solo_sample(1,3) c(1) u sample_saves sample_updates solo_sample(2,4)])
  then have s: "served no_save ref_bbolt (NewAPI True None) ?rq (HtDone [WriteHeader 204]) n (Some entry)"
    by (simp add: applied_def)
  from answer_after_apply [OF s, of "''k''"] s show ?thesis by auto
qed

theorem put_then_get_witness:
  "\<exists>n1 s1 n2 s2. http_alone 9 no_save ref_bbolt (NewAPI True None) (kv_request ''PUT'' ''k'' ''v'') (handleKV (kv_request ''PUT'' ''k'' ''v''))
       solo_node sample_kv = Some ([WriteHeader 204], n1, s1)
     \<and> http_alone 11 no_save ref_bbolt (NewAPI True None) (kv_request ''GET'' ''k'' []) (handleKV (kv_request ''GET'' ''k'' [])) n1 s1
       = Some ([WriteHeader 200, Write (Bytes ''v'')], n2, s2)"
  using put_then_get [where sv = no_save and bb = ref_bbolt and api = "NewAPI True None" and s = sample_kv,
      OF solo_sample(1,2) sample_saves sample_updates sample_key]
  by (rule conjunct1)

theorem forwarded_answer_witness:
  "response (forwarded_ops (forward_result (FwAnswer 200 [(''Content-Type'', [''text/plain''])] (''v'', None))))
     = Some (200, header_of [(''Content-Type'', [''text/plain''])], [Bytes ''v''])"
  using forwarded_answer [of 200 "[(''Content-Type'', [''text/plain''])]" "''v''"] by (simp add: bodyAllowedForStatus_def)

end
