(* ===== verification/ProcessProps.thy ===== *)
theory ProcessProps
  imports MainFacts HttpProps
begin

text \<open>
  Properties of the process: its start, its goroutines together, the apply loop and the
  metrics.
\<close>

subsection \<open>Start\<close>

text \<open>C35. A flag that is accepted names distinct peers, each with a non-empty id and a non-empty
  address without surrounding white space, and a list of such peers that is written as a flag
  is read back as it was.\<close>

theorem parsePeers_roundtrip:
  "(case parsePeers v of Inl err \<Rightarrow> True | Inr (ids, addrs) \<Rightarrow> good_peers ids addrs)
   \<and> (list_all (\<lambda>(i, a). good_peer i a) ps \<and> distinct (map fst ps) \<longrightarrow>
        parsePeers (print_peers ps) = Inr (map fst ps, map_of ps))"
  using parsePeers_good [of v] parsePeers_print [of ps] by (auto split: sum.split prod.split)

text \<open>C30. A process that starts, with an id that its own \<^verbatim>\<open>--peers\<close> flag does not list, on a raft store
  that is new, or holds what a well-formed node with its id has saved, starts well-formed: the
  node keeps its invariant and begins as a follower, there is a client for every peer of the
  flag, the KV database mirrors the state machine's map, and that map is the one of the snapshot
  if the store holds a snapshot.\<close>

theorem started_well:
  assumes "bbolt_laws bb cont tcont" and "run_start bb env f = Some (Inr st)"
    and "parsePeers (flPeers f) = Inr (ids, addrs)" and "flId f \<notin> set ids"
    and "store (stNode st) = Some raftStore" and "Load bb raftStore = Inr pst" and "saved_well (flId f) pst"
  shows "process_ok (process_init (stNode st) (stMachine st)) \<and> nid (stNode st) = flId f \<and> state (stNode st) = Follower
    \<and> lastApplied (stNode st) = lastIncludedIndex (stNode st) \<and> dom (stClients st) = set ids
    \<and> mirrored cont (stMachine st)
    \<and> (snapshot (stNode st) \<noteq> [] \<longrightarrow> unmarshal data_of_json (snapshot (stNode st)) = Some (kvData (stMachine st)))"
proof -
  note parts = run_start_parts [OF assms(2,3)]
  obtain s where s: "NewRaftNode (Load bb) (flId f) ids (Some s) = Inr (stNode st)" "store (stNode st) = Some s"
    by (rule start_node_parts [OF parts(1)])
  have "distinct ids" using parsePeers_good [OF assms(3)] by (simp add: good_peers_def)
  moreover have "Load bb s = Inr pst" using s(2) assms(5,6) by simp
  ultimately have "node_ok (stNode st) \<and> nid (stNode st) = flId f \<and> state (stNode st) = Follower
      \<and> lastApplied (stNode st) = lastIncludedIndex (stNode st)"
    using started_node_ok [OF s(1) _ assms(4) _ assms(7)] by simp
  then show ?thesis using started_machine [OF assms(1) parts(2)] parts(3) by (simp add: process_init_ok)
qed

subsection \<open>The goroutines together\<close>

text \<open>C6. The election timer, the heartbeat loop, the apply loop, any number of HTTP requests and the
  RPCs of the peers run interleaved in any order.  As long as no append request leaves a gap after
  the log or sends another term for an entry that is committed here, and neither the term nor the
  last index is about to wrap around, the node stays well-formed; commit, applied and snapshot
  index never fall, and an entry that is committed at one point is the same at every later point,
  as long as it is in the log.\<close>

theorem process_safe:
  assumes "node_ok n" and "tame_run sv bb api page (process_init n s) P" and "tame_run sv bb api page P Q"
  shows "node_ok (pNode Q) \<and> commitIndex (pNode P) \<le> commitIndex (pNode Q) \<and> lastApplied (pNode P) \<le> lastApplied (pNode Q)
    \<and> lastIncludedIndex (pNode P) \<le> lastIncludedIndex (pNode Q)
    \<and> (\<forall>k. base (pNode Q) < k \<and> k \<le> unat (commitIndex (pNode P)) \<longrightarrow> entry_at (pNode Q) k = entry_at (pNode P) k)"
proof -
  have "process_ok P" by (rule process_reach(1) [OF assms(2) process_init_ok [OF assms(1)]])
  note q = process_reach [OF assms(3) this]
  then show ?thesis by (simp add: process_ok_def commit_kept_def)
qed

text \<open>C31. No request is ever stuck and none panics: at every point of such a run at which the log has
  room, exactly the events a request waits for (its next section, the reply of a peer that has not
  answered, the retry timer, the leader's answer, the end of its context) take it further, and
  unless it is answered it waits for such an event other than one by which it gives up.\<close>

theorem request_never_stuck:
  assumes "node_ok n" and "tame_run sv bb api page (process_init n s) P"
    and "pRequests P k = Some (rq, run)" and "has_room (pNode P)"
  shows "(\<forall>ev. http_step sv bb api rq ev run (pNode P) (pMachine P) \<noteq> None \<longleftrightarrow> http_awaits run ev)
    \<and> ((\<exists>ops. run = HtDone ops) \<or> (\<exists>ev. http_awaits run ev \<and> \<not> gives_up ev))"
proof -
  have "process_ok P" by (rule process_reach(1) [OF assms(2) process_init_ok [OF assms(1)]])
  then have "node_ok (pNode P)" "http_ok (pNode P) run" "http_live run" using assms(3) by (auto simp: process_ok_def)
  from http_step_awaits [OF this(1) assms(4) this(2)] http_live_awaits [OF this(3)] show ?thesis by blast
qed

subsection \<open>The apply loop\<close>

text \<open>C32. A round of the apply loop that nobody interrupts ends: with an error, or waiting for the
  next commit with everything committed applied, fewer than 64 applied entries left in the log,
  and the snapshot, if it has taken one, that of the state machine at the index to which the
  log is compacted.\<close>

theorem apply_loop_bounded:
  assumes "node_ok n"
  shows "\<exists>r n' s'. loop_alone sv bb (AlApply ApNext) n s r n' s' \<and> node_ok n'
    \<and> ((\<exists>err. r = AlStopped (Some err))
       \<or> r = AlWait \<and> lastApplied n' = commitIndex n' \<and> unat (lastApplied n') < unat (lastIncludedIndex n') + 64
         \<and> (lastIncludedIndex n' = lastIncludedIndex n \<or> lastIncludedIndex n' = lastApplied n' \<and> snapshot n' = Snapshot s'))"
  by (rule loop_round [OF assms])

subsection \<open>Metrics\<close>

text \<open>A list of calls whose response has the status the recorder has seen.\<close>

definition answered :: "WriterOp list \<Rightarrow> bool" where
  "answered ops = (\<exists>h b. response ops = Some (recorder_status ops, h, b))"

lemma recorder_headers:
  "recorder_status (concat (map (\<lambda>(key, vals). map (AddHeader key) vals) hs) @ ops) = recorder_status ops"
proof -
  have "fold recorder_op (map (AddHeader key) vals) c = c" for key vals c
    by (induction vals) (simp_all add: recorder_op_def)
  then have "fold recorder_op (concat (map (\<lambda>(key, vals). map (AddHeader key) vals) hs)) c = c" for c
    by (induction hs) (auto split: prod.split)
  then show ?thesis by (simp add: recorder_status_def)
qed

lemma answered_simps [simp]:
  "answered [WriteHeader 204]" "answered [WriteHeader 400]" "answered [WriteHeader 200, Write c]"
  "answered (http_Redirect url)" "answered [SetHeader k v, Write c]" "answered http_NotFound"
  "200 \<le> code \<Longrightarrow> code \<le> 999 \<Longrightarrow> answered (http_Error msg code)"
  "200 \<le> code \<Longrightarrow> code \<le> 999 \<Longrightarrow> answered (http_Error_err err code)"
  "answered (not_allowed methods)"
  by (auto simp: answered_def recorder_status_def recorder_op_def response_def newWriter_def http_Redirect_def
      http_NotFound_def http_Error_def http_Error_err_def http_Error_chunk_def not_allowed_def Let_def)

lemma answered_forwarded:
  assumes "case res of Inl err \<Rightarrow> True | Inr fwd \<Rightarrow> 200 \<le> frStatusCode fwd \<and> frStatusCode fwd \<le> 999"
  shows "answered (forwarded_ops res)"
proof (cases res)
  case (Inr fwd)
  let ?ops = "[WriteHeader (frStatusCode fwd), Write (Bytes (frBody fwd))]"
  have "recorder_status (forwarded_ops res) = frStatusCode fwd"
    using Inr recorder_headers [of "frHeader fwd" ?ops]
    by (simp add: forwarded_ops_def) (simp add: recorder_status_def recorder_op_def)
  moreover have "\<exists>h b. response (forwarded_ops res) = Some (frStatusCode fwd, h, b)"
    using assms Inr by (simp add: forwarded_ops_def response_def write_ops_append write_headers newWriter_def Let_def)
  ultimately show ?thesis by (simp add: answered_def)
qed (simp add: forwarded_ops_def)

text \<open>A point of a request at which it has ended, if it has, with an answer.\<close>

fun ends_well :: "HttpRun \<Rightarrow> bool" where
  "ends_well (HtDone ops) = answered ops"
| "ends_well run = True"

lemma ends_well_plain [simp]:
  "ends_well (read_error err)" "ends_well (write_error body err)" "ends_well not_leader" "ends_well (found v)"
  "ends_well (readBarrier key)" "ends_well (forwardToLeader api rq body n)"
  by (auto simp: read_error_def write_error_def not_leader_def found_def readBarrier_def forwardToLeader_def answered_forwarded
      split: prod.split sum.split option.split)

lemma ends_well_runs [simp]: "ends_well (proposed task r)" "ends_well (applied task q)"
  by (auto simp: proposed_def applied_def split: ProposeRun.split ApplyRun.split option.split HttpTask.split)

lemma ends_well_step:
  assumes "http_step sv bb api rq ev run n s = Some (run', n', s', out)"
    and "\<forall>st h b. ev = HeAnswer (FwAnswer st h b) \<longrightarrow> 200 \<le> st \<and> st \<le> 999"
  shows "ends_well run'"
  using assms
  by (cases "(sv, bb, api, rq, ev, run, n, s)" rule: http_step.cases)
    (auto simp: forward_result_def intro!: answered_forwarded split: if_splits sum.split ForwardAnswer.split)

lemma ends_well_handler: "ends_well (NewHTTPHandlerWithForwarding rq)"
proof -
  have "ends_well (handleKV rq)"
    by (auto simp: handleKV_def handleGet_def handlePut_def handleDelete_def Let_def split: sum.split BodyError.split)
  moreover have "ends_well (handleClusterMembers rq)" "ends_well (handleClusterMember rq)"
    by (auto simp: handleClusterMembers_def handleClusterMember_def Let_def split: sum.split)
  ultimately show ?thesis
    by (simp add: NewHTTPHandlerWithForwarding_def serve_mux_def api_handler_def split: Route.split ApiHandler.split)
qed

text \<open>C36. Every answered request is counted once, under its method and the status that was really
  sent: whatever way a handler ends, the status the recorder has seen is the status of the
  response.\<close>

theorem counted_as_sent:
  assumes "NewHTTPHandlerWithForwarding rq = HtDone ops
      \<or> (\<exists>sv bb api ev run n s n' s' out. http_step sv bb api rq ev run n s = Some (HtDone ops, n', s', out)
          \<and> (\<forall>st h b. ev = HeAnswer (FwAnswer st h b) \<longrightarrow> 200 \<le> st \<and> st \<le> 999))"
  shows "\<exists>st h b. response ops = Some (st, h, b)
    \<and> InstrumentKV rq ops m = Some ((st, h, b), m\<lparr>mCalls := mCalls m @ [IncKvRequests (operationForMethod (rqMethod rq)) (decimal st)]\<rparr>)"
proof -
  have "ends_well (HtDone ops)"
    using assms
  proof (elim disjE exE conjE)
    assume "NewHTTPHandlerWithForwarding rq = HtDone ops"
    then show ?thesis using ends_well_handler [of rq] by simp
  qed (rule ends_well_step)
  then show ?thesis by (auto simp: answered_def InstrumentKV_def call_metric_def)
qed

subsection \<open>Instances\<close>

definition sample_peers :: "(string \<times> string) list" where
  "sample_peers = [(''n2'', ''localhost:9002''), (''n3'', ''localhost:9003'')]"

lemma sample_peers_ok: "list_all (\<lambda>(i, a). good_peer i a) sample_peers" "distinct (map fst sample_peers)"
  by code_simp+

theorem parsePeers_roundtrip_witness:
  "print_peers sample_peers = ''n2=localhost:9002,n3=localhost:9003''
   \<and> parsePeers (print_peers sample_peers) = Inr ([''n2'', ''n3''], map_of sample_peers)"
proof
  show "print_peers sample_peers = ''n2=localhost:9002,n3=localhost:9003''" by code_simp
  show "parsePeers (print_peers sample_peers) = Inr ([''n2'', ''n3''], map_of sample_peers)"
    using parsePeers_roundtrip [of "[]" sample_peers] sample_peers_ok by (simp add: sample_peers_def)
qed

definition sample_env :: "(ref_db, unit) Env" where
  "sample_env = \<lparr>envMkdirAll = (\<lambda>_. None), envOpen = (\<lambda>_. Inr []), envListen = (\<lambda>_. None), envDial = (\<lambda>_. Inr ())\<rparr>"

definition sample_flags :: Flags where
  "sample_flags = default_flags\<lparr>flId := ''n1'', flPeers := print_peers sample_peers\<rparr>"

lemma sample_metrics: "\<exists>m. NewMetrics ''n1'' = Some m"
  by (simp add: NewMetrics_def metric_descs_def Let_def)

theorem started_well_witness:
  "\<exists>st. run_start ref_bbolt sample_env sample_flags = Some (Inr st) \<and> state (stNode st) = Follower
     \<and> dom (stClients st) = {''n2'', ''n3''} \<and> process_ok (process_init (stNode st) (stMachine st))"
proof -
  have p: "parsePeers (flPeers sample_flags) = Inr ([''n2'', ''n3''], map_of sample_peers)"
    using parsePeers_print [OF sample_peers_ok] by (simp add: sample_flags_def sample_peers_def)
  have h: "parsePeers (flPeerHTTP sample_flags) = Inr ([], Map.empty)" by (simp add: sample_flags_def default_flags_def parsePeers_def TrimSpace_def trim_left.simps trim_right.simps)
  let ?db = "[(raftBucket, [])]"
  have b: "NewBoltRaftStore ref_bbolt (Inr []) = Inr \<lparr>bsDb = Some ?db\<rparr>"
    by (simp add: NewBoltRaftStore_def init_store_def ref_bbolt_def)
  have l: "Load ref_bbolt \<lparr>bsDb = Some ?db\<rparr> = Inr zeroPersistentState"
    by (simp add: Load_def ref_bbolt_def ref_bucket_def)
  obtain n where n: "NewRaftNode (Load ref_bbolt) ''n1'' [''n2'', ''n3''] (Some \<lparr>bsDb = Some ?db\<rparr>) = Inr n"
      "store n = Some \<lparr>bsDb = Some ?db\<rparr>" "snapshot n = []"
    by (simp add: NewRaftNode_def l zeroPersistentState_def Let_def)
  have sn: "start_node ref_bbolt sample_env sample_flags [''n2'', ''n3''] = Inr n"
    using b n(1) by (simp add: start_node_def sample_env_def sample_flags_def)
  have sm: "start_machine ref_bbolt sample_env sample_flags [] = Inr sample_kv"
    by (simp add: start_machine_def sample_env_def NewBolt_sample)
  obtain m where m: "NewMetrics ''n1'' = Some m" using sample_metrics by blast
  obtain st where st: "run_start ref_bbolt sample_env sample_flags = Some (Inr st)" "stNode st = n"
    using p h sn sm m n(3)
    by (simp add: run_start_def) (simp add: sample_flags_def sample_env_def DialPeerClient_def)
  have "saved_well (flId sample_flags) zeroPersistentState" by (simp add: saved_well_def)
  moreover have "flId sample_flags \<notin> set [''n2'', ''n3'']" by (simp add: sample_flags_def)
  ultimately show ?thesis
    using started_well [OF ref_bbolt_laws st(1) p _ _ l] st n(2) by auto
qed

definition append_process :: "(unit, ref_db) Process" where
  "append_process = process_init sample_node sample_kv"

lemma append_process_run:
  obtains Q where "tame_run no_save ref_bbolt (NewAPI True None) [] append_process Q"
    "commitIndex (pNode Q) = 2" "base (pNode Q) = 0"
proof -
  obtain resp err n where h: "HandleAppendEntries no_save sample_node sample_append = Some (resp, err, n)"
      "commitIndex n = 2" "lastIncludedIndex n = 0"
    by (simp add: run_defs sample_defs)
  have p: "pNode append_process = sample_node" by (simp add: append_process_def process_init_def)
  then have t: "tame (pNode append_process) (EvAppend sample_append)" using sample_append_fits by simp
  have "process_step no_save ref_bbolt (NewAPI True None) [] (EvAppend sample_append) append_process (append_process\<lparr>pNode := n\<rparr>)"
    using h(1) p by (intro process_step.append) simp
  from tame_run.more [OF tame_run.none t this] show ?thesis using that h(2,3) by simp
qed

theorem process_safe_witness:
  "\<exists>Q. tame_run no_save ref_bbolt (NewAPI True None) [] append_process Q
     \<and> commitIndex (pNode Q) = 2 \<and> node_ok (pNode Q) \<and> entry_at (pNode Q) 1 = entry_at sample_node 1"
proof -
  let ?R = "tame_run no_save ref_bbolt (NewAPI True None) []"
  obtain Q where q: "?R append_process Q" "commitIndex (pNode Q) = 2" "base (pNode Q) = 0"
    by (rule append_process_run)
  have i: "?R (process_init sample_node sample_kv) append_process" by (simp add: append_process_def tame_run.none)
  have "commitIndex (pNode append_process) = 1" "pNode append_process = sample_node"
    by (simp_all add: append_process_def process_init_def sample_defs)
  then show ?thesis using process_safe [OF node_ok_sample i q(1)] q by auto
qed

theorem request_never_stuck_witness:
  "http_step no_save ref_bbolt (NewAPI True None) (kv_request ''GET'' ''k'' []) HeRun (HtRole ''k'') solo_node sample_kv \<noteq> None
   \<and> http_step no_save ref_bbolt (NewAPI True None) (kv_request ''GET'' ''k'' []) (HeBegin None) (HtRole ''k'') solo_node sample_kv = None"
proof -
  let ?P = "process_init solo_node sample_kv" and ?rq = "kv_request ''GET'' ''k'' []"
  let ?Q = "?P\<lparr>pRequests := (pRequests ?P)(0 \<mapsto> (?rq, serve_process [] ?rq))\<rparr>"
  have "process_step no_save ref_bbolt (NewAPI True None) [] (EvAccept 0 ?rq) ?P ?Q"
    by (rule process_step.accept) (simp add: process_init_def)
  then have s: "tame_run no_save ref_bbolt (NewAPI True None) [] ?P ?Q"
    by (rule tame_run.more [OF tame_run.none, rotated]) simp
  have r: "serve_process [] ?rq = HtRole ''k''" by code_simp
  have n: "node_ok solo_node" "pNode ?Q = solo_node" "pMachine ?Q = sample_kv" "pRequests ?Q 0 = Some (?rq, HtRole ''k'')"
    using solo_sample(1) r by (simp_all add: solo_def process_init_def)
  have "has_room (pNode ?Q)" using n(2) solo_sample(3) by simp
  from request_never_stuck [OF n(1) s n(4) this]
  have "http_step no_save ref_bbolt (NewAPI True None) ?rq ev (HtRole ''k'') solo_node sample_kv \<noteq> None \<longleftrightarrow> ev = HeRun" for ev
    unfolding n(2,3) by (simp del: http_step.simps not_None_eq)
  from this [of HeRun] this [of "HeBegin None"] show ?thesis by (simp del: http_step.simps not_None_eq)
qed

theorem apply_loop_bounded_witness:
  "\<exists>r n' s'. loop_alone no_save ref_bbolt (AlApply ApNext) solo_node sample_kv r n' s' \<and> node_ok n'
     \<and> ((\<exists>err. r = AlStopped (Some err)) \<or> r = AlWait \<and> lastApplied n' = commitIndex n')"
  using apply_loop_bounded [of solo_node no_save ref_bbolt sample_kv] solo_sample(1) by (auto simp: solo_def)

definition sample_metrics_value :: Metrics where
  "sample_metrics_value = \<lparr>mNodeID = ''n1'', mRegistered = metric_descs ''n1'', mCalls = []\<rparr>"

theorem counted_as_sent_witness:
  "\<exists>h b. InstrumentKV (kv_request ''GET'' [] []) (http_Error ''invalid key'' 400) sample_metrics_value
     = Some ((400, h, b), sample_metrics_value\<lparr>mCalls := [IncKvRequests ''get'' ''400'']\<rparr>)"
proof -
  let ?rq = "kv_request ''GET'' [] []" and ?ops = "http_Error ''invalid key'' 400"
  have h: "NewHTTPHandlerWithForwarding ?rq = HtDone ?ops" by code_simp
  obtain st h b where r: "response ?ops = Some (st, h, b)"
      "InstrumentKV ?rq ?ops sample_metrics_value = Some ((st, h, b), sample_metrics_value\<lparr>mCalls :=
         mCalls sample_metrics_value @ [IncKvRequests (operationForMethod (rqMethod ?rq)) (decimal st)]\<rparr>)"
    using counted_as_sent [of ?rq ?ops sample_metrics_value] h by blast
  have "map_option fst (response ?ops) = Some 400" by code_simp
  then have "st = 400" using r(1) by simp
  moreover have "decimal (400 :: nat) = ''400''" "operationForMethod ''GET'' = ''get''" by code_simp+
  ultimately show ?thesis using r(2) by (simp add: kv_request_def sample_metrics_value_def)
qed

end
