(* ===== verification/BoltFacts.thy ===== *)
theory BoltFacts
  imports BoltStore Restart
begin

text \<open>
  The stable store gives back what was saved.  The interface the node relies on is the
  locale \<open>stable_store\<close>; the bbolt-backed store implements it for every database that
  obeys the laws of bbolt.
\<close>

subsection \<open>Reading back the JSON form\<close>

lemma state_names_utf8:
  "valid_utf8 ''term''" "valid_utf8 ''index''" "valid_utf8 ''command''" "valid_utf8 ''current_term''"
  "valid_utf8 ''voted_for''" "valid_utf8 ''peers''" "valid_utf8 ''self_member''"
  "valid_utf8 ''last_included_index''" "valid_utf8 ''last_included_term''" "valid_utf8 ''snapshot''"
  "valid_utf8 ''log''"
  by (simp_all add: valid_utf8_ascii)

lemma uint64_json_ok [simp]:
  "json_ok (uint64_json w)" "json_depth (uint64_json w) = 0" "decode_uint64 (uint64_json w) old = Some w"
  by (simp_all add: uint64_json_def)

lemma LogEntry_json_ok [simp]: "json_ok (LogEntry_json e)" "json_depth (LogEntry_json e) = 1"
  by (simp_all add: LogEntry_json_def state_names_utf8)

lemma LogEntry_dec_enc [simp]: "LogEntry_of_json (LogEntry_json e) = Some e"
  by (simp add: LogEntry_of_json_def LogEntry_json_def decode_struct_def field_match_def set_LogEntry_def
      zeroLogEntry_def decode_bytes_def b64_roundtrip)

interpretation entry_codec: json_codec LogEntry_json LogEntry_of_json "\<lambda>_. True"
  by unfold_locales (simp_all add: max_depth_def)

lemma decode_all_map: "(\<And>x. x \<in> set xs \<Longrightarrow> dec (enc x) = Some x) \<Longrightarrow> decode_all dec (map enc xs) = Some xs"
  by (induction xs) auto

definition storable :: "PersistentState \<Rightarrow> bool" where
  "storable st =
     (valid_utf8 (psVotedFor st) \<and> psPeers st \<noteq> Some [] \<and> list_all valid_utf8 (slice_elems (psPeers st)))"

lemma json_depth_obj_le:
  "(\<And>k v. (k, v) \<in> set ms \<Longrightarrow> json_depth v \<le> d) \<Longrightarrow> json_depth (JObj ms) \<le> Suc d"
  by auto

lemma json_depth_arr_le: "(\<And>v. v \<in> set vs \<Longrightarrow> json_depth v \<le> d) \<Longrightarrow> json_depth (JArr vs) \<le> Suc d"
  by auto

lemma PersistentState_json_ok:
  assumes "storable st"
  shows "json_ok (PersistentState_json st)"
  using assms
  by (cases "psPeers st"; cases "psSelfMember st")
    (auto simp: PersistentState_json_def storable_def state_names_utf8 list_all_iff slice_elems_def)

lemma PersistentState_depth: "json_depth (PersistentState_json st) \<le> 3"
proof -
  have "json_depth (JArr (map LogEntry_json (psLog st))) \<le> Suc 1"
    by (rule json_depth_arr_le) auto
  moreover have "json_depth (JArr (map JStr ps)) \<le> Suc 1" for ps
    by (rule json_depth_arr_le) auto
  ultimately show ?thesis
    unfolding PersistentState_json_def numeral_3_eq_3
    by (intro json_depth_obj_le) (auto simp del: json_depth.simps(1) split: option.splits if_splits)
qed

lemma decode_members_append:
  "decode_members names f (xs @ ys) a =
     (case decode_members names f xs a of None \<Rightarrow> None | Some b \<Rightarrow> decode_members names f ys b)"
  by (induction xs arbitrary: a) (auto split: option.split)

lemma decode_string_str: "decode_string (JStr s) old = Some s"
  by (simp add: decode_string_def)

lemma decode_slice_strings: "decode_slice (\<lambda>v. decode_string v []) (JArr (map JStr ps)) = Some (Some ps)"
  by (simp add: decode_slice_def decode_all_map decode_string_def)

lemma decode_slice_entries: "decode_slice LogEntry_of_json (JArr (map LogEntry_json es)) = Some (Some es)"
  by (simp add: decode_slice_def decode_all_map)

lemma PersistentState_dec_enc:
  assumes "storable st"
  shows "PersistentState_of_json (PersistentState_json st) = Some st"
proof -
  define N where "N = [''current_term'', ''voted_for'', ''peers'', ''self_member'', ''last_included_index'',
       ''last_included_term'', ''snapshot'', ''log'']"
  have m: "field_match ''current_term'' N = Some ''current_term''" "field_match ''voted_for'' N = Some ''voted_for''"
    "field_match ''peers'' N = Some ''peers''" "field_match ''self_member'' N = Some ''self_member''"
    "field_match ''last_included_index'' N = Some ''last_included_index''"
    "field_match ''last_included_term'' N = Some ''last_included_term''"
    "field_match ''snapshot'' N = Some ''snapshot''" "field_match ''log'' N = Some ''log''"
    by (simp_all add: field_match_def N_def)
  show ?thesis
    using assms
    unfolding PersistentState_of_json_def N_def [symmetric] PersistentState_json_def decode_struct_def json.case
      decode_members_append
    by (cases st; cases "psPeers st"; cases "psSelfMember st")
      (simp_all add: m set_PersistentState_def decode_string_str decode_bytes_def b64_roundtrip storable_def
        decode_slice_strings decode_slice_entries decode_bool_ptr_def slice_elems_def zeroPersistentState_def)
qed

interpretation state_codec: json_codec PersistentState_json PersistentState_of_json storable
  by unfold_locales
    (auto simp: PersistentState_json_ok PersistentState_dec_enc max_depth_def
      intro: order_trans [OF PersistentState_depth])

subsection \<open>The bbolt-backed store as a stable store\<close>

definition saved_data :: "('d \<Rightarrow> buckets) \<Rightarrow> 'd BoltRaftStore \<Rightarrow> bytes option" where
  "saved_data cont s =
     (case bsDb s of None \<Rightarrow> None
      | Some d \<Rightarrow> (case cont d raftBucket of None \<Rightarrow> None | Some m \<Rightarrow> m stateKey))"

definition saved_state :: "('d \<Rightarrow> buckets) \<Rightarrow> 'd BoltRaftStore \<Rightarrow> PersistentState" where
  "saved_state cont s =
     (case saved_data cont s of
        None \<Rightarrow> zeroPersistentState
      | Some data \<Rightarrow>
        (case unmarshal PersistentState_of_json data of None \<Rightarrow> zeroPersistentState | Some st \<Rightarrow> st))"

lemma Save_data:
  assumes "bbolt_laws api cont tcont" and "Save api s st = (err, s')"
  shows "saved_data cont s' = Some (print_json (PersistentState_json st))
    \<or> err \<noteq> None \<and> saved_data cont s' = saved_data cont s"
proof (cases "bsDb s")
  case None
  then show ?thesis using assms(2) by (auto simp: Save_def)
next
  case (Some d)
  let ?data = "print_json (PersistentState_json st)"
  let ?f = "\<lambda>tx. case bbCreateBucketIfNotExists api tx raftBucket of
      (Some err, tx) \<Rightarrow> (Some err, tx) | (None, tx) \<Rightarrow> bbPut api tx raftBucket stateKey ?data"
  obtain d' where u: "bbUpdate api d ?f = (err, d')" and s': "s' = s\<lparr>bsDb := Some d'\<rparr>"
    using assms(2) Some by (auto simp: Save_def Let_def split: prod.splits)
  from assms(1) u show ?thesis
  proof (cases rule: bbolt_updateE)
    case rollback
    then show ?thesis using Some s' by (simp add: saved_data_def)
  next
    case (commit t t')
    obtain e t1 where c: "bbCreateBucketIfNotExists api t raftBucket = (e, t1)" by fastforce
    have e: "e = None" using commit(2) c by (cases e) auto
    obtain m where m: "tcont t1 raftBucket = Some m"
      using bbolt_create [OF assms(1)] c e by (cases "tcont t raftBucket") auto
    have "tcont t' = (tcont t1)(raftBucket \<mapsto> m(stateKey \<mapsto> ?data))"
      using commit(2) c e by (intro bbolt_in_bucket(4) [OF assms(1) m]) simp
    then show ?thesis using commit(3) s' by (simp add: saved_data_def)
  qed
qed

lemma saved_state_marshalled:
  "storable st \<Longrightarrow> saved_data cont s = Some (print_json (PersistentState_json st)) \<Longrightarrow> saved_state cont s = st"
  by (simp add: saved_state_def state_codec.unmarshal_marshal)

lemma Load_saved:
  assumes "bbolt_laws api cont tcont" and "Load api s = Inr st"
  shows "st = saved_state cont s"
proof -
  obtain d where d: "bsDb s = Some d" using assms(2) by (cases "bsDb s") (auto simp: Load_def)
  obtain t where t: "bbView api d = Inr t" using assms(2) d by (cases "bbView api d") (auto simp: Load_def)
  have tc: "tcont t = cont d" using bbolt_view [OF assms(1) t] .
  show ?thesis
  proof (cases "cont d raftBucket")
    case None
    then show ?thesis using assms d t tc bbolt_bucket [OF assms(1)]
      by (auto simp: Load_def saved_state_def saved_data_def)
  next
    case (Some m)
    then have "bbGet api t raftBucket stateKey = m stateKey"
      using bbolt_in_bucket(1) [OF assms(1)] tc by simp
    then show ?thesis using assms(2) d t tc Some bbolt_bucket [OF assms(1)]
      by (auto simp: Load_def saved_state_def saved_data_def split: option.splits)
  qed
qed

lemma bolt_stable_store:
  assumes "bbolt_laws api cont tcont"
  shows "stable_store (Save api) (Load api) (saved_state cont) storable"
proof
  fix st s s' assume "storable st" "Save api s st = (None, s')"
  then show "saved_state cont s' = st" using Save_data [OF assms] saved_state_marshalled by blast
next
  fix st s s' err assume f: "storable st" "Save api s st = (Some err, s')"
  then show "saved_state cont s' = saved_state cont s \<or> saved_state cont s' = st"
    using Save_data [OF assms f(2)] saved_state_marshalled by (auto simp: saved_state_def)
next
  fix s st assume "Load api s = Inr st"
  then show "st = saved_state cont s" by (rule Load_saved [OF assms])
qed

interpretation bolt: stable_store "Save ref_bbolt" "Load ref_bbolt" "saved_state ref_cont" storable
  by (rule bolt_stable_store [OF ref_bbolt_laws])

text \<open>Saving and loading on the reference database.\<close>

lemma ref_save:
  "Save ref_bbolt \<lparr>bsDb = Some [(raftBucket, [(stateKey, x)])]\<rparr> st
     = (None, \<lparr>bsDb = Some [(raftBucket, [(stateKey, print_json (PersistentState_json st))])]\<rparr>)"
  "Save ref_bbolt \<lparr>bsDb = Some []\<rparr> st
     = (None, \<lparr>bsDb = Some [(raftBucket, [(stateKey, print_json (PersistentState_json st))])]\<rparr>)"
  by (simp_all add: Save_def ref_bbolt_def ref_bucket_def Let_def)

lemma ref_load:
  "storable st \<Longrightarrow>
     Load ref_bbolt \<lparr>bsDb = Some [(raftBucket, [(stateKey, print_json (PersistentState_json st))])]\<rparr> = Inr st"
  by (simp add: Load_def ref_bbolt_def ref_bucket_def state_codec.unmarshal_marshal)

end
