(* ===== verification/StoreProps.thy ===== *)
theory StoreProps
  imports NodeProps BoltFacts
begin

text \<open>
  Properties of the stores and of the transport, and of the node that runs on them: what a
  crash can lose, what a replay gives, and that a remote call is a local one.
\<close>

subsection \<open>Crash and restart\<close>

text \<open>C21. On the bbolt store: a node whose last save succeeded, with a vote and peer ids that are
  valid UTF-8, comes back with its term, vote, log and snapshot as they were saved, as a follower
  that has applied exactly the snapshot.  It is a member if it was saved as one, and its peers are
  the saved ones, except that an empty saved list is replaced by the peers of its flags.\<close>

theorem restart_restores:
  assumes "bbolt_laws api cont tcont" and "store n = Some s" and "storable (persistent_of n)"
    and "persistLocked (Save api) n = (None, n')" and "NewRaftNode (Load api) i ps (store n') = Inr k"
  shows "currentTerm k = currentTerm n \<and> votedFor k = votedFor n \<and> nlog k = nlog n
    \<and> snapshot k = snapshot n \<and> lastIncludedIndex k = lastIncludedIndex n
    \<and> lastIncludedTerm k = lastIncludedTerm n \<and> selfMember k = selfMember n
    \<and> peers k = (if peers n = [] then ps else peers n) \<and> state k = Follower
    \<and> commitIndex k = lastIncludedIndex n \<and> lastApplied k = lastIncludedIndex n"
proof -
  obtain s' where "k = recovered n i ps s'"
    using stable_store.restart_after_save [OF bolt_stable_store [OF assms(1)] assms(2-5)] by blast
  then show ?thesis by (simp add: recovered_def)
qed

text \<open>C22. A save is atomic: what can be loaded after it is the new state (when its vote and peer ids
  are valid UTF-8), or, only if the save returned an error, the state that was there before.\<close>

theorem save_atomic:
  assumes "bbolt_laws api cont tcont" and "storable st" and "Save api s st = (err, s')"
    and "Load api s = Inr old" and "Load api s' = Inr found"
  shows "found = st \<or> err \<noteq> None \<and> found = old"
proof -
  have "old = saved_state cont s" "found = saved_state cont s'"
    using Load_saved [OF assms(1)] assms(4,5) by simp_all
  then show ?thesis
    using Save_data [OF assms(1,3)] saved_state_marshalled [OF assms(2), of cont s'] by (auto simp: saved_state_def)
qed

text \<open>C23. A vote survives a crash: a node on the bbolt store that granted a vote without an
  error, crashed and came back, refuses every other candidate of that term.\<close>

theorem vote_survives_crash:
  assumes "bbolt_laws api cont tcont" and "store n = Some s"
    and "RequestVote (Save api) n req = (resp, None, n')" and "rvrVoteGranted resp"
    and "storable (persistent_of n')"
    and "NewRaftNode (Load api) (nid n) ps (store n') = Inr k"
    and "RequestVote sv k req' = (resp', err', k')" and "rvTerm req' = rvTerm req"
    and "rvCandidateID req' \<noteq> rvCandidateID req" and "rvCandidateID req \<noteq> []"
  shows "\<not> rvrVoteGranted resp'"
proof -
  let ?m = "vote_node n req"
  note g = RequestVote_granted [OF assms(3,4)]
  have "persistent_of n' = persistent_of ?m"
    using g(1) by (auto simp: persistLocked_pair persistent_of_def)
  then have st: "storable (persistent_of ?m)" using assms(5) by simp
  have "store ?m = Some s" using g(4) assms(2) by simp
  from stable_store.restart_after_save [OF bolt_stable_store [OF assms(1)] this st g(1) assms(6)]
  obtain s' where "k = recovered ?m (nid n) ps s'" by blast
  then have "votedFor k = rvCandidateID req" "currentTerm k = rvTerm req" using g by (simp_all add: recovered_def)
  then show ?thesis using RequestVote_taken [of k req' sv] assms(7-10) by simp
qed

subsubsection \<open>Instances\<close>

text \<open>A node on an empty database.\<close>

definition bolt_node :: "ref_db BoltRaftStore RaftNode" where
  "bolt_node =
     \<lparr>nid = ''a'', peers = [''b'', ''c''], selfMember = True, membershipConfigured = True,
      state = Follower, leaderID = [], currentTerm = 2, votedFor = [], nlog = sample_log,
      commitIndex = 1, lastApplied = 0, lastIncludedIndex = 0, lastIncludedTerm = 0, snapshot = [],
      nextIndex = None, matchIndex = None, store = Some \<lparr>bsDb = Some []\<rparr>, commitReady = False\<rparr>"

lemma storable_bolt_node: "storable (persistent_of bolt_node)"
  by (simp add: storable_def persistent_of_def bolt_node_def clonePeers_def slice_elems_def valid_utf8_ascii)

theorem restart_restores_witness:
  "\<exists>n' k. persistLocked (Save ref_bbolt) bolt_node = (None, n') \<and> NewRaftNode (Load ref_bbolt) ''a'' [''x''] (store n') = Inr k
     \<and> currentTerm k = 2 \<and> nlog k = sample_log \<and> peers k = [''b'', ''c'']"
proof -
  note st = storable_bolt_node
  obtain n' where n': "persistLocked (Save ref_bbolt) bolt_node = (None, n')"
      "store n' = Some \<lparr>bsDb = Some [(raftBucket, [(stateKey, print_json (PersistentState_json (persistent_of bolt_node)))])]\<rparr>"
    by (simp add: persistLocked_def bolt_node_def ref_save)
  obtain k where k: "NewRaftNode (Load ref_bbolt) ''a'' [''x''] (store n') = Inr k"
    unfolding n'(2) using NewRaftNode_recovered [where ld = "Load ref_bbolt", OF ref_load [OF st]] by blast
  have "store bolt_node = Some \<lparr>bsDb = Some []\<rparr>" by (simp add: bolt_node_def)
  from restart_restores [OF ref_bbolt_laws this st n'(1) k] n'(1) k show ?thesis by (simp add: bolt_node_def)
qed

theorem save_atomic_witness:
  "\<exists>s'. Save ref_bbolt \<lparr>bsDb = Some []\<rparr> (persistent_of bolt_node) = (None, s')
     \<and> Load ref_bbolt s' = Inr (persistent_of bolt_node)"
proof -
  let ?st = "persistent_of bolt_node" and ?s = "\<lparr>bsDb = Some []\<rparr>"
  obtain s' where s': "Save ref_bbolt ?s ?st = (None, s')"
      "s' = \<lparr>bsDb = Some [(raftBucket, [(stateKey, print_json (PersistentState_json ?st))])]\<rparr>"
    by (simp add: ref_save)
  have old: "Load ref_bbolt ?s = Inr zeroPersistentState" by (simp add: Load_def ref_bbolt_def)
  obtain found where f: "Load ref_bbolt s' = Inr found" using s'(2) ref_load [OF storable_bolt_node] by simp
  from save_atomic [OF ref_bbolt_laws storable_bolt_node s'(1) old f] s'(1) f show ?thesis by simp
qed

theorem vote_survives_crash_witness:
  "\<exists>n' resp k. RequestVote (Save ref_bbolt) bolt_node (sample_vote ''b'' 2) = (resp, None, n') \<and> rvrVoteGranted resp
     \<and> NewRaftNode (Load ref_bbolt) ''a'' [] (store n') = Inr k
     \<and> \<not> rvrVoteGranted (fst (RequestVote (Save ref_bbolt) k (sample_vote ''c'' 2)))"
proof -
  let ?sv = "Save ref_bbolt" and ?req = "sample_vote ''b'' 2" and ?req' = "sample_vote ''c'' 2"
  obtain resp n' where r: "RequestVote ?sv bolt_node ?req = (resp, None, n')" "rvrVoteGranted resp"
      "store n' = Some \<lparr>bsDb = Some [(raftBucket, [(stateKey, print_json (PersistentState_json (persistent_of n')))])]\<rparr>"
      "persistent_of n' = (persistent_of bolt_node)\<lparr>psVotedFor := ''b''\<rparr>"
    by (simp add: run_defs bolt_node_def sample_defs ref_save)
  have st: "storable (persistent_of n')"
    using storable_bolt_node r(4) by (simp add: storable_def valid_utf8_ascii)
  obtain k where k: "NewRaftNode (Load ref_bbolt) (nid bolt_node) [] (store n') = Inr k"
    unfolding r(3) using NewRaftNode_recovered [where ld = "Load ref_bbolt", OF ref_load [OF st]] by blast
  obtain resp' err' k' where r': "RequestVote ?sv k ?req' = (resp', err', k')" by (cases rule: prod_cases3)
  have "store bolt_node = Some \<lparr>bsDb = Some []\<rparr>" by (simp add: bolt_node_def)
  from vote_survives_crash [OF ref_bbolt_laws this r(1,2) st k r'] have "\<not> rvrVoteGranted resp'"
    by (simp add: sample_vote_def)
  then show ?thesis using r k r' by (simp add: bolt_node_def)
qed

end
