(* ===== verification/Findings.thy ===== *)
theory Findings
  imports ProcessProps StoreProps
begin

text \<open>
  Runs of the program that do what its documents or its own comments rule out.  Each is a
  concrete run of the definitions, evaluated; the properties of the other theories say under
  which conditions such runs cannot happen.
\<close>

subsection \<open>Proposals\<close>

definition late_append :: AppendEntriesRequest where
  "late_append =
     \<lparr>aeTerm = 9, aeLeaderID = ''a'', aePrevLogIndex = 3, aePrevLogTerm = 3,
      aeEntries = [\<lparr>eTerm = 9, eIndex = 4, eCommand = ''p''\<rparr>], aeLeaderCommit = 4\<rparr>"

text \<open>
  \<^verbatim>\<open>AppendLocal\<close> does not check that the node still leads.  A leader that steps down to term 9
  between \<^verbatim>\<open>State()\<close> and \<^verbatim>\<open>AppendLocal\<close> appends an entry of term 9 that no leader of term 9
  wrote.  The real leader's entry of the same term and index is then taken for it: the node
  accepts the request, keeps its own command and commits it.
\<close>

lemma follower_appends_own_entry:
  "\<exists>n1 n2 n3 e resp.
     ProposeWithRetryInterval no_save True PrRun (PrStart ''s'') sample_leader = Some (PrAppend ''s'', sample_leader, [])
     \<and> stepDownForHigherTerm no_save sample_leader 9 = (True, None, n1)
     \<and> ProposeWithRetryInterval no_save True PrRun (PrAppend ''s'') n1 = Some (PrCommitted e, n2, [])
     \<and> state n2 = Follower \<and> e = \<lparr>eTerm = 9, eIndex = 4, eCommand = ''s''\<rparr>
     \<and> HandleAppendEntries no_save n2 late_append = Some (resp, None, n3)
     \<and> aerSuccess resp \<and> commitIndex n3 = 4 \<and> nlog n3 ! 3 = e \<and> hd (aeEntries late_append) \<noteq> e"
  by (simp add: run_defs sample_defs sample_leader_def late_append_def sample_commands [unfolded sample_defs])

text \<open>
  \<^verbatim>\<open>isCommitted\<close> looks at the index of the proposed entry only.  A leader that loses its
  entry to another leader's reports success for a command that is not in the log.
\<close>

definition other_append :: AppendEntriesRequest where
  "other_append =
     \<lparr>aeTerm = 4, aeLeaderID = ''c'', aePrevLogIndex = 3, aePrevLogTerm = 3,
      aeEntries = [\<lparr>eTerm = 4, eIndex = 4, eCommand = ''p''\<rparr>], aeLeaderCommit = 4\<rparr>"

lemma lost_write_acknowledged:
  "\<exists>n1 n2 e resp.
     ProposeWithRetryInterval no_save True PrRun (PrAppend ''s'') sample_leader = Some (PrCommitted e, n1, [])
     \<and> HandleAppendEntries no_save n1 other_append = Some (resp, None, n2)
     \<and> ProposeWithRetryInterval no_save True PrRun (PrCommitted e) n2 = Some (PrDone e None, n2, [])
     \<and> eCommand e = ''s'' \<and> e \<notin> set (nlog n2)"
  by (simp add: run_defs isCommitted_def sample_defs sample_leader_def other_append_def sample_commands [unfolded sample_defs])

text \<open>
  A write whose proposal ends with \<^verbatim>\<open>ErrNotLeader\<close> is forwarded to the leader, also when the
  command is already in the node's own log: it may then be committed twice.
\<close>

lemma appended_command_forwarded:
  "\<exists>n1 n2 e.
     http_step no_save ref_bbolt api rq (HePropose PrRun) (HtPropose (TaskWrite v) (PrAppend ''s'')) sample_leader s
       = Some (HtPropose (TaskWrite v) (PrCommitted e), n1, s, [])
     \<and> stepDownForHigherTerm no_save n1 9 = (True, None, n2) \<and> e \<in> set (nlog n2)
     \<and> http_step no_save ref_bbolt api rq (HePropose PrRun) (HtPropose (TaskWrite v) (PrCommitted e)) n2 s
         = Some (HtPropose (TaskWrite v) (PrLeader e), n2, s, [])
     \<and> http_step no_save ref_bbolt api rq (HePropose PrRun) (HtPropose (TaskWrite v) (PrLeader e)) n2 s
         = Some (HtForward v, n2, s, [])"
  by (simp add: run_defs isCommitted_def word_le_nat_alt proposed_def write_error_def go_map_read_def go_map_get_def
      sample_defs sample_leader_def sample_commands [unfolded sample_defs])

subsection \<open>Replication\<close>

text \<open>
  A reply is recorded without looking at the term of the request it answers.  A round of term
  2 is still waiting when the node leads term 3 with another entry at index 2; the late reply
  commits that entry, which no other node holds.
\<close>

definition stale_request :: AppendEntriesRequest where
  "stale_request =
     \<lparr>aeTerm = 2, aeLeaderID = ''b'', aePrevLogIndex = 1, aePrevLogTerm = 1,
      aeEntries = [\<lparr>eTerm = 2, eIndex = 2, eCommand = ''q''\<rparr>], aeLeaderCommit = 1\<rparr>"

definition releader :: "unit RaftNode" where
  "releader =
     sample_leader\<lparr>nlog := take 2 (nlog sample_leader), nextIndex := Some [''a'' \<mapsto> 2, ''c'' \<mapsto> 2],
       matchIndex := Some [''a'' \<mapsto> 0, ''c'' \<mapsto> 0]\<rparr>"

lemma stale_reply_commits:
  "\<exists>n1 n2.
     replicateOnce no_save 0 (Reply ''a'' (Inr \<lparr>aerTerm = 2, aerSuccess = True\<rparr>)) (RpCollect [(''a'', stale_request)]) releader
       = Some (RpRecord ''a'' stale_request True [], n1, [])
     \<and> replicateOnce no_save 0 Run (RpRecord ''a'' stale_request True []) n1 = Some (RpDone None, n2, [])
     \<and> commitIndex releader = 1 \<and> commitIndex n2 = 2 \<and> nlog n2 ! 1 \<noteq> hd (aeEntries stale_request)"
  by (simp add: run_defs RecordReplicationSuccess_def go_map_read_def go_map_get_def reply_match_def rp_wait_def stale_request_def releader_def
      sample_leader_def sample_defs)

text \<open>
  A leader that steps down while a round is running ends the heartbeat loop with an error, and
  with it the process: the node does not come back as a follower.
\<close>

lemma step_down_ends_process:
  "\<exists>n1 n2.
     stepDownForHigherTerm no_save releader 9 = (True, None, n1)
     \<and> RunHeartbeatLoop no_save (HbReply Run) (HbRepl (RpBuild [''a'', ''c''] [])) n1
         = Some (HbStopped (ErrUnknownPeer ''a''), n2, [])
     \<and> run_exit (ExitLoop (Some (ErrUnknownPeer ''a''))) \<noteq> None"
  by (simp add: run_defs BuildAppendEntries_def run_exit_def releader_def sample_leader_def sample_defs)

text \<open>
  An index beyond the log has term 0.  A request whose previous entry is beyond the log with
  term 0 is accepted and leaves a gap in the log.
\<close>

definition gap_append :: AppendEntriesRequest where
  "gap_append =
     \<lparr>aeTerm = 3, aeLeaderID = ''b'', aePrevLogIndex = 7, aePrevLogTerm = 0,
      aeEntries = [\<lparr>eTerm = 3, eIndex = 8, eCommand = ''r''\<rparr>], aeLeaderCommit = 1\<rparr>"

lemma gap_accepted:
  "\<exists>resp n. HandleAppendEntries no_save sample_node gap_append = Some (resp, None, n)
     \<and> aerSuccess resp \<and> map eIndex (nlog n) = [1, 2, 8]"
  by (simp add: run_defs gap_append_def sample_defs)

subsection \<open>Applying and snapshots\<close>

text \<open>
  The apply loop and every HTTP request call \<^verbatim>\<open>ApplyCommitted\<close>, and the state machine is called
  without the node's lock.  A caller that is late hands the first entry to the state machine
  again after the second one; here the state machine is the list of the commands it was given.
\<close>

definition recorder :: "bytes list applier" where
  "recorder m e = (None, m @ [eCommand e])"

definition ready_node :: "unit RaftNode" where
  "ready_node = sample_node\<lparr>commitIndex := 2, nlog := [\<lparr>eTerm = 1, eIndex = 1, eCommand = ''p''\<rparr>, \<lparr>eTerm = 2, eIndex = 2, eCommand = ''r''\<rparr>]\<rparr>"

lemma entry_applied_twice:
  "\<exists>e n1 n2.
     ap_step no_save recorder ApNext ready_node [] = Some (ApApply e, ready_node, [])
     \<and> ap_run no_save recorder ApNext ready_node [] None n1 [''p'', ''r'']
     \<and> ap_run no_save recorder (ApApply e) n1 [''p'', ''r''] None n2 [''p'', ''r'', ''p'']
     \<and> lastApplied n1 = 2 \<and> lastApplied n2 = 2"
  by (simp add: ap_run_next ap_run_section nextCommittedEntry_def recorder_def ready_node_def run_defs sample_defs
      sample_commands [unfolded sample_defs])

text \<open>
  \<^verbatim>\<open>Apply\<close> writes the database before it takes the lock for the map.  A caller that is late
  between the two puts the value of the first entry back into the map after another caller has
  applied the second entry: reads return the old value, and the database has the new one.
\<close>

lemma map_and_database_differ:
  "\<exists>c s1 s2 s3 s4 t.
     ka_step ref_bbolt (KaStart (sample_entry OperationPut ''v'')) sample_kv = Some (KaMap c, s1)
     \<and> Apply ref_bbolt s1 (sample_entry OperationPut ''v'') = (None, s2)
     \<and> Apply ref_bbolt s2 (sample_entry OperationPut ''w'') = (None, s3) \<and> Get s3 ''k'' = (''w'', True)
     \<and> ka_step ref_bbolt (KaMap c) s3 = Some (KaDone None, s4) \<and> Get s4 ''k'' = (''v'', True)
     \<and> NewBoltKVStateMachine ref_bbolt (kvDb s4) = Inr t \<and> Get t ''k'' = (''w'', True)"
  by (simp add: Apply_def applyBolt_def ref_bbolt_def ref_bucket_def sample_kv_def sample_entry_decodes apply_data_def
      sample_command_def operation_names Get_def NewBoltKVStateMachine_def load_def)

text \<open>
  The snapshot is taken before \<^verbatim>\<open>Compact\<close> reads \<^verbatim>\<open>lastApplied\<close>.  A put that an HTTP request
  applies in between is compacted away with a snapshot that does not have it: after a restart
  the key is gone.
\<close>

definition put_command :: bytes where
  "put_command =
     (case EncodeCommand \<lparr>cOperation = OperationPut, cKey = ''k'', cValue = ''v''\<rparr> of Inl _ \<Rightarrow> [] | Inr c \<Rightarrow> c)"

definition full_node :: "unit RaftNode" where
  "full_node =
     sample_node\<lparr>commitIndex := 65, lastApplied := 64,
       nlog := map (\<lambda>i. \<lparr>eTerm = 1, eIndex = of_nat i, eCommand = ''p''\<rparr>) [1..<65]
         @ [\<lparr>eTerm = 1, eIndex = 65, eCommand = put_command\<rparr>]\<rparr>"

lemma put_command_decodes:
  "DecodeMembershipChange put_command = (zeroMembershipChange, False, None)"
  "DecodeCommand put_command = Inr \<lparr>cOperation = OperationPut, cKey = ''k'', cValue = ''v''\<rparr>"
  by code_simp+

lemma snapshot_misses_entry:
  "\<exists>n1 n2 s1 snap.
     applyCommittedLoop no_save ref_bbolt AlRun AlShould full_node sample_kv = Some (AlSnapshot, full_node, sample_kv)
     \<and> applyCommittedLoop no_save ref_bbolt AlRun AlSnapshot full_node sample_kv = Some (AlCompact snap, full_node, sample_kv)
     \<and> ap_run no_save (Apply ref_bbolt) ApNext full_node sample_kv None n1 s1 \<and> Get s1 ''k'' = (''v'', True)
     \<and> applyCommittedLoop no_save ref_bbolt AlRun (AlCompact snap) n1 s1 = Some (AlWait, n2, s1)
     \<and> lastIncludedIndex n2 = 65 \<and> nlog n2 = [] \<and> unmarshal data_of_json (snapshot n2) = Some Mapping.empty"
proof -
  let ?e = "\<lparr>eTerm = 1, eIndex = 65, eCommand = put_command\<rparr>" and ?n1 = "full_node\<lparr>lastApplied := 65\<rparr>"
  obtain s1 where s1: "Apply ref_bbolt sample_kv ?e = (None, s1)"
      "kvData s1 = apply_data (kvData sample_kv) \<lparr>cOperation = OperationPut, cKey = ''k'', cValue = ''v''\<rparr>"
    by (rule Apply_succeeds [of ?e _ ref_bbolt sample_kv]) (simp_all add: put_command_decodes sample_updates)
  have g: "Get s1 ''k'' = (''v'', True)" by (simp add: Get_def s1(2) apply_data_def OperationPut_def OperationNoop_def)
  have r: "ap_run no_save (Apply ref_bbolt) ApNext full_node sample_kv None ?n1 s1"
    using s1(1) put_command_decodes(1)
    by (simp add: ap_run_next ap_run_section nextCommittedEntry_def full_node_def nth_append run_defs sample_defs)
  obtain n2 where n2: "Compact no_save ?n1 (Snapshot sample_kv) = Some (None, n2)" "lastIncludedIndex n2 = 65"
      "nlog n2 = []" "snapshot n2 = Snapshot sample_kv"
    by (simp add: full_node_def nth_append run_defs sample_defs)
  have "ShouldSnapshot full_node snapshotThresholdEntries"
    by (simp add: ShouldSnapshot_def snapshotThresholdEntries_def full_node_def sample_defs)
  moreover have "unmarshal data_of_json (Snapshot sample_kv) = Some Mapping.empty"
    using unmarshal_Snapshot [of sample_kv] by (simp add: sample_kv_def)
  ultimately show ?thesis using g r n2
    by (intro exI [of _ ?n1] exI [of _ n2] exI [of _ s1] exI [of _ "Snapshot sample_kv"]) simp
qed

subsection \<open>The process\<close>

text \<open>
  The process serves the patterns \<^verbatim>\<open>/kv/\<close> and \<^verbatim>\<open>/metrics\<close> only, so the documented membership
  API answers 404, although the handler behind \<^verbatim>\<open>/kv/\<close> has it.
\<close>

definition members_request :: HttpRequest where
  "members_request = \<lparr>rqMethod = ''GET'', rqEscaped = ''/cluster/members'', rqPath = ''/cluster/members'', rqBody = ([], None)\<rparr>"

lemma members_api_not_served:
  "serve_process page members_request = HtDone http_NotFound"
  "NewHTTPHandlerWithForwarding members_request = HtLeaderID"
  by code_simp+

text \<open>
  A node that loses and wins the leadership between two ticks of the state logger is seen as
  leader both times, and \<^verbatim>\<open>raft_leader_elections_total\<close> does not count the second election.
\<close>

lemma reelection_not_counted:
  "log_change 5 Leader ''a'' \<lparr>lsTerm = 3, lsState = Some Leader, lsVote = ''a''\<rparr> m
     = (\<lparr>lsTerm = 5, lsState = Some Leader, lsVote = ''a''\<rparr>, m)"
  by (simp add: log_change_def)

text \<open>
  Keys that are not valid UTF-8 become the replacement character in the JSON of a command:
  two keys that the HTTP API keeps apart are one key of the store.
\<close>

lemma invalid_keys_collide:
  "EncodeCommand \<lparr>cOperation = OperationPut, cKey = [CHR 0xFF], cValue = ''v''\<rparr>
     = EncodeCommand \<lparr>cOperation = OperationPut, cKey = [CHR 0xFE], cValue = ''v''\<rparr>"
  by code_simp

text \<open>
  A node that applies its own removal forgets the vote it gave in the current term, and may
  vote again in that term once it is added back.
\<close>

lemma removal_forgets_vote:
  "\<exists>n. applyMembershipChangeLocked (sample_node\<lparr>votedFor := ''b''\<rparr>) \<lparr>mcType = MembershipRemovePeer, mcPeerID = ''a''\<rparr>
       = Some (None, n) \<and> currentTerm n = currentTerm sample_node \<and> votedFor n = []"
  by (simp add: applyMembershipChangeLocked_def MembershipRemovePeer_def MembershipAddPeer_def run_defs sample_defs)

text \<open>
  A node's own id among its peers is accepted: the node counts itself twice.
\<close>

lemma own_id_accepted:
  "\<exists>addrs n. parsePeers ''n1=x'' = Inr ([''n1''], addrs)
     \<and> start_node ref_bbolt sample_env sample_flags [''n1''] = Inr n \<and> Members n = [''n1'', ''n1''] \<and> clusterSizeLocked n = 2"
proof -
  have g: "good_peer ''n1'' ''x''" by code_simp
  have "parsePeers ''n1=x'' = Inr ([''n1''], map_of [(''n1'', ''x'')])"
    using parsePeers_print [of "[(''n1'', ''x'')]"] g by (simp add: print_peers_def print_peer_def)
  moreover have "NewBoltRaftStore ref_bbolt (Inr []) = Inr \<lparr>bsDb = Some [(raftBucket, [])]\<rparr>"
      "Load ref_bbolt \<lparr>bsDb = Some [(raftBucket, [])]\<rparr> = Inr zeroPersistentState"
    by (simp_all add: NewBoltRaftStore_def init_store_def ref_bbolt_def Load_def ref_bucket_def)
  ultimately show ?thesis
    by (simp add: start_node_def sample_env_def sample_flags_def NewRaftNode_def zeroPersistentState_def Members_def
        clusterSizeLocked_def Let_def)
qed

end
