(* ===== verification/NodeQuiet.thy ===== *)
theory NodeQuiet
  imports NodeOps
begin

text \<open>
  What the operations of a node do to its term, its vote and its role, whatever their
  arguments and whatever the node's log: nothing, or a step to a later term as a follower
  without a vote.  The exceptions are a granted vote, a candidacy and a promotion.
\<close>

subsection \<open>What operations do to terms, votes and roles\<close>

text \<open>
  Everything but \<^verbatim>\<open>RequestVote\<close>, \<^verbatim>\<open>BecomeCandidate\<close>, \<^verbatim>\<open>promoteCandidate\<close> and a membership change.
  Nothing is assumed here of the operation's arguments or of the node's log.
\<close>

fun routine :: "NodeOp \<Rightarrow> bool" where
  "routine (OpVote req) = False"
| "routine OpCandidate = False"
| "routine (OpPromote term) = False"
| "routine (OpChange change index) = False"
| "routine op = True"

definition quiet :: "'s RaftNode \<Rightarrow> 's RaftNode \<Rightarrow> bool" where
  "quiet n m =
     (nid m = nid n \<and> peers m = peers n \<and> selfMember m = selfMember n \<and> store m = store n
      \<and> currentTerm n \<le> currentTerm m
      \<and> (if currentTerm m = currentTerm n then votedFor m = votedFor n else votedFor m = [])
      \<and> (state m \<noteq> Follower \<longrightarrow> state m = state n \<and> currentTerm m = currentTerm n))"

text \<open>The node after an operation is the changed node, saved or not.\<close>

definition kept :: "'s saver \<Rightarrow> 's RaftNode \<Rightarrow> 's RaftNode \<Rightarrow> bool" where
  "kept sv m n' = (n' = m \<or> n' = m\<lparr>store := persist_store sv m\<rparr>)"

lemma quiet_frame:
  "nid m = nid n \<Longrightarrow> peers m = peers n \<Longrightarrow> selfMember m = selfMember n \<Longrightarrow> store m = store n \<Longrightarrow>
     currentTerm m = currentTerm n \<Longrightarrow> votedFor m = votedFor n \<Longrightarrow> state m = state n \<or> state m = Follower \<Longrightarrow> quiet n m"
  by (auto simp: quiet_def)

lemma advance_loop_only:
  "advance_loop n index = Some m \<Longrightarrow> \<exists>c r. m = n\<lparr>commitIndex := c, commitReady := r\<rparr>"
proof (induction n index rule: advance_loop.induct)
  case (1 n index)
  note eq = "1.prems" [unfolded advance_loop.simps [of n index]]
  show ?case
  proof (cases "index > commitIndex n")
    case True
    then obtain t where t: "logTermAtLocked n index = Some t" using eq by (auto split: option.splits)
    show ?thesis
    proof (cases "t = currentTerm n \<and> majority (clusterSizeLocked n) \<le> replicatedCount n index")
      case True
      then have "m = n\<lparr>commitIndex := index, commitReady := True\<rparr>"
        using eq t \<open>index > commitIndex n\<close> by (simp add: signalCommitReadyLocked_def)
      then show ?thesis by blast
    next
      case False
      then show ?thesis using "1.IH" [OF \<open>index > commitIndex n\<close> t] eq t \<open>index > commitIndex n\<close> by (auto split: if_splits)
    qed
  next
    case False
    then have "m = n\<lparr>commitIndex := commitIndex n, commitReady := commitReady n\<rparr>" using eq by simp
    then show ?thesis by blast
  qed
qed

lemma advanceCommit_only:
  assumes "advanceCommitLocked n = Some m"
  obtains c r where "m = n\<lparr>commitIndex := c, commitReady := r\<rparr>"
proof (cases "state n \<noteq> Leader \<or> \<not> selfMember n")
  case True
  then have "m = n\<lparr>commitIndex := commitIndex n, commitReady := commitReady n\<rparr>"
    using assms by (simp add: advanceCommitLocked_def)
  then show ?thesis by (rule that)
next
  case False
  then show ?thesis using that assms advance_loop_only by (fastforce simp: advanceCommitLocked_def)
qed

lemma append_loop_only: "append_loop n index es = Some (c, m) \<Longrightarrow> \<exists>l. m = n\<lparr>nlog := l\<rparr>"
proof (induction n index es rule: append_loop.induct)
  case (1 n index)
  then have "m = n\<lparr>nlog := nlog n\<rparr>" by simp
  then show ?case by blast
next
  case (2 n index e es)
  then show ?case by (auto split: if_splits option.splits)
qed

lemma kept_same: "quiet n n' \<Longrightarrow> \<exists>m. quiet n m \<and> kept sv m n'"
  unfolding kept_def by blast

lemma kept_saved: "quiet n m \<Longrightarrow> n' = m\<lparr>store := persist_store sv m\<rparr> \<Longrightarrow> \<exists>m. quiet n m \<and> kept sv m n'"
  unfolding kept_def by blast

lemma quiet_refl: "quiet n n"
  by (simp add: quiet_def)

lemma keptI:
  "quiet n m \<Longrightarrow> n' = (if b then m\<lparr>store := persist_store sv m\<rparr> else m) \<Longrightarrow> \<exists>m. quiet n m \<and> kept sv m n'"
  unfolding kept_def by (cases b) auto

lemma advanced_quiet:
  assumes "advanceCommitLocked k = Some m" and "quiet n k"
  shows "quiet n m"
  using assms(1) by (rule advanceCommit_only) (use assms(2) in \<open>simp add: quiet_def\<close>)

lemma append_entries_only:
  assumes "appendEntriesToLogLocked n i t es = Some (Inr (c, m))"
  obtains l where "m = n\<lparr>nlog := l\<rparr>"
  using assms append_loop_only that
  by (fastforce simp: appendEntriesToLogLocked_def split: option.splits if_splits)

lemma follow_quiet: "\<not> append_refused n req \<Longrightarrow> quiet n (follow_node n req)"
  by (auto simp: quiet_def follow_node_def append_refused_def)

lemma follow_commit_quiet: "quiet n m \<Longrightarrow> quiet n (follow_commit m c)"
  by (simp add: quiet_def follow_commit_def signalCommitReadyLocked_def Let_def)

lemma append_quiet:
  assumes "HandleAppendEntries sv n req = Some (resp, err, n')"
  shows "\<exists>m. quiet n m \<and> kept sv m n'"
proof (cases "append_refused n req")
  case True
  then have "n' = n" using assms by (simp add: HandleAppendEntries_refused)
  then show ?thesis using quiet_refl kept_same by blast
next
  case False
  let ?f = "follow_node n req"
  let ?a = "appendEntriesToLogLocked ?f (aePrevLogIndex req) (aePrevLogTerm req) (aeEntries req)"
  note eq = assms [unfolded HandleAppendEntries_step [OF False]]
  consider e where "?a = Some (Inl e)" | c m where "?a = Some (Inr (c, m))"
    using eq by (cases ?a) (auto split: sum.splits)
  then show ?thesis
  proof cases
    case 1
    then have "n' = (if aeTerm req > currentTerm n then ?f\<lparr>store := persist_store sv ?f\<rparr> else ?f)" using eq by simp
    with follow_quiet [OF False] show ?thesis by (rule keptI)
  next
    case 2
    then obtain l where "m = ?f\<lparr>nlog := l\<rparr>" by (rule append_entries_only)
    then have "quiet n m" using follow_quiet [OF False] by (simp add: quiet_def)
    then have "quiet n (follow_commit m (aeLeaderCommit req))" by (rule follow_commit_quiet)
    moreover have "n' = (if aeTerm req > currentTerm n \<or> c
        then (follow_commit m (aeLeaderCommit req))\<lparr>store := persist_store sv (follow_commit m (aeLeaderCommit req))\<rparr>
        else follow_commit m (aeLeaderCommit req))" using eq 2 by (simp add: Let_def)
    ultimately show ?thesis by (rule keptI)
  qed
qed

lemma local_quiet:
  assumes "AppendLocal sv n command = Some (e, err, n')"
  shows "\<exists>m. quiet n m \<and> kept sv m n'"
proof (cases "append_error n command")
  case (Some bad)
  then have "n' = n" using assms AppendLocal_rejected [OF Some, of sv] by simp
  then show ?thesis using quiet_refl kept_same by blast
next
  case None
  let ?k = "n\<lparr>nlog := nlog n @ [local_entry n command]\<rparr>"
  have "AppendLocal sv n command =
      (case (if state n = Leader then advanceCommitLocked ?k else Some ?k) of
         None \<Rightarrow> None | Some m \<Rightarrow> Some (local_entry n command, persist_err sv m, m\<lparr>store := persist_store sv m\<rparr>))"
    using None by (auto simp: AppendLocal_def append_error_def local_entry_def Let_def persistLocked_pair
        split: prod.splits if_splits option.splits)
  then obtain m where m: "(if state n = Leader then advanceCommitLocked ?k else Some ?k) = Some m"
      "n' = m\<lparr>store := persist_store sv m\<rparr>"
    using assms by (auto split: option.splits)
  have "quiet n ?k" by (simp add: quiet_frame)
  then have "quiet n m" using m(1) advanced_quiet by (auto split: if_splits)
  then show ?thesis using m(2) by (rule kept_saved)
qed

lemma matched_quiet:
  assumes "RecordReplicationSuccess n p k = Some (err, n')"
  shows "quiet n n'"
proof -
  consider "n' = n" | f g where "advanceCommitLocked (n\<lparr>matchIndex := f, nextIndex := g\<rparr>) = Some n'"
    using assms by (auto simp: RecordReplicationSuccess_def split: option.splits)
  then show ?thesis
  proof cases
    case 2
    then show ?thesis by (rule advanced_quiet) (simp add: quiet_frame)
  qed (simp add: quiet_frame)
qed

lemma mismatch_quiet: "RecordReplicationFailure n p = Some (err, n') \<Longrightarrow> quiet n n'"
  by (auto simp: RecordReplicationFailure_def quiet_def split: option.splits if_splits)

lemma ensure_quiet: "ensureLeaderProgress n = Some n' \<Longrightarrow> quiet n n'"
  by (auto simp: ensureLeaderProgress_def initLeaderProgressLocked_def Let_def quiet_frame split: if_splits
      elim!: advanced_quiet)

lemma compact_quiet:
  assumes "Compact sv n snap = Some (err, n')"
  shows "\<exists>m. quiet n m \<and> kept sv m n'"
proof -
  define c where "c = (\<lambda>l t. n\<lparr>nlog := l, lastIncludedIndex := lastApplied n, lastIncludedTerm := t, snapshot := snap\<rparr>)"
  have q: "quiet n (c l t)" for l t by (simp add: c_def quiet_frame)
  consider "n' = n" | l t where "persistLocked sv (c l t) = (err, n')"
    using assms by (auto simp: Compact_def Let_def c_def split: if_splits option.splits)
  then show ?thesis
  proof cases
    case 1
    then show ?thesis using quiet_refl kept_same by blast
  next
    case 2
    then have "n' = (c l t)\<lparr>store := persist_store sv (c l t)\<rparr>" by (simp add: persistLocked_pair)
    with q show ?thesis by (rule kept_saved)
  qed
qed

lemma routine_quiet:
  assumes "routine op" and "node_op sv op n = Some n'"
  shows "\<exists>m. quiet n m \<and> kept sv m n'"
proof (cases op)
  case (OpAppend req)
  then show ?thesis using assms(2) append_quiet by auto
next
  case (OpStepDown t)
  then have "n' = (if currentTerm n < t then (adopt_term n t)\<lparr>store := persist_store sv (adopt_term n t)\<rparr> else adopt_term n t)"
    using assms(2) by (cases "t \<le> currentTerm n") (auto simp: stepDown_eq adopt_term_def)
  moreover have "quiet n (adopt_term n t)" by (auto simp: quiet_def adopt_term_def)
  ultimately show ?thesis by (intro keptI)
next
  case (OpLocal c)
  then show ?thesis using assms(2) local_quiet by auto
next
  case (OpCompact c)
  then show ?thesis using assms(2) compact_quiet by auto
next
  case OpEnsure
  then show ?thesis using assms(2) by (intro kept_same ensure_quiet) simp
next
  case (OpMatched p k)
  then show ?thesis using assms(2) matched_quiet kept_same by fastforce
next
  case (OpMismatch p)
  then show ?thesis using assms(2) mismatch_quiet kept_same by fastforce
next
  case (OpApplied k)
  then show ?thesis using assms(2) by (intro kept_same quiet_frame) (auto simp: markApplied_def split: if_splits)
qed (use assms(1) in simp_all)

lemma stepDown_quiet:
  assumes "stepDownForHigherTerm sv n t = (down, err, n')"
  shows "\<exists>m. quiet n m \<and> kept sv m n'"
  by (rule routine_quiet [of "OpStepDown t"]) (simp_all add: assms)

lemma pv_step_quiet:
  assumes "pv_step sv ev r n = Some (r', n', out)"
  shows "\<exists>m. quiet n m \<and> kept sv m n'"
proof (cases "n' = n")
  case True
  then show ?thesis using quiet_refl kept_same by blast
next
  case False
  then obtain t down err where "stepDownForHigherTerm sv n t = (down, err, n')"
    using assms by (cases "(sv, ev, r, n)" rule: pv_step.cases)
      (auto simp: Let_def split: if_splits prod.splits sum.splits)
  then show ?thesis by (rule stepDown_quiet)
qed

text \<open>Every step of an election but two leaves the role alone, or gives it up.\<close>

lemma el_step_quiet:
  assumes "el_step sv ev r n = Some (r', n', out)" and "r \<noteq> ElBecome" and "\<And>t. r \<noteq> ElPromote t"
  shows "\<exists>m. quiet n m \<and> kept sv m n'"
proof (cases "n' = n")
  case True
  then show ?thesis using quiet_refl kept_same by blast
next
  case False
  then consider t down err where "stepDownForHigherTerm sv n t = (down, err, n')"
    | e q q' out' where "pv_step sv e q n = Some (q', n', out')"
    using assms by (cases "(sv, ev, r, n)" rule: el_step.cases)
      (auto simp: Let_def split: if_splits prod.splits sum.splits)
  then show ?thesis by cases (use stepDown_quiet pv_step_quiet in blast)+
qed

lemma initLeaderProgress_only:
  assumes "initLeaderProgressLocked n = Some m"
  shows "nid m = nid n" "peers m = peers n" "selfMember m = selfMember n" "store m = store n"
    "currentTerm m = currentTerm n" "votedFor m = votedFor n" "state m = state n"
  using assms unfolding initLeaderProgressLocked_def Let_def by (auto elim!: advanceCommit_only)

lemma promote_only:
  assumes "promoteCandidate sv n t = Some (ok, err, n')" and "n' \<noteq> n"
  obtains m where "state n = Candidate" "currentTerm n = t" "n' = m\<lparr>store := persist_store sv m\<rparr>"
    "nid m = nid n" "peers m = peers n" "selfMember m = selfMember n" "store m = store n"
    "currentTerm m = t" "votedFor m = votedFor n" "state m = Leader"
proof -
  let ?k = "n\<lparr>state := Leader, leaderID := nid n\<rparr>"
  have c: "state n = Candidate" "currentTerm n = t" "selfMember n"
    using assms by (auto simp: promoteCandidate_def split: if_splits)
  then obtain m where m: "initLeaderProgressLocked ?k = Some m" "n' = m\<lparr>store := persist_store sv m\<rparr>"
    using assms(1) by (auto simp: promoteCandidate_def persistLocked_pair split: option.splits)
  note f = initLeaderProgress_only [OF m(1)]
  show ?thesis by (rule that [OF c(1,2) m(2)]) (use f c in simp_all)
qed

end
