(* ===== verification/Cluster.thy ===== *)
theory Cluster
  imports NodeQuiet Restart
begin

text \<open>
  A cluster of nodes with a fixed membership.  Each process runs one election at a time, the
  way \<^verbatim>\<open>RunElectionTimer\<close> does; every other goroutine changes its node by the operations of
  the theory of node operations; processes crash and come back from their stable store, and
  saves fail.  The main result is that no term has two leaders.
\<close>

subsection \<open>The system\<close>

text \<open>
  \<open>grants\<close> are the votes that were given and answered without an error, as voter, term and
  candidate: the replies a candidate can receive, and a candidate's own vote once it is saved.
  \<open>wins\<close> records who became leader in which term.
\<close>

record 's Net =
  nodes :: "string \<Rightarrow> 's RaftNode"
  runs :: "string \<Rightarrow> ElectionRun"
  grants :: "(string \<times> uint64 \<times> string) set"
  wins :: "(uint64 \<times> string) set"

text \<open>
  A reply that grants a vote to a running election is one that was given, for the term of the
  election.  Refusals, errors, cancellations and all replies to pre-votes are arbitrary.
\<close>

definition genuine :: "'s Net \<Rightarrow> string \<Rightarrow> ElectionEvent \<Rightarrow> bool" where
  "genuine S p ev =
     (\<forall>q r. ev = VoteEvent (Reply q (Inr r)) \<and> rvrVoteGranted r \<longrightarrow>
        (\<exists>t v k w. runs S p = ElCollect t v k w \<and> (q, t, p) \<in> grants S))"

inductive net_step ::
  "'s saver \<Rightarrow> 's loader \<Rightarrow> string set \<Rightarrow> (string \<Rightarrow> string list) \<Rightarrow> 's Net \<Rightarrow> 's Net \<Rightarrow> bool"
  for sv ld ids conf where
  vote:
    "p \<in> ids \<Longrightarrow> rvCandidateID req \<in> ids \<Longrightarrow> RequestVote sv (nodes S p) req = (resp, err, n') \<Longrightarrow>
     net_step sv ld ids conf S
       (S\<lparr>nodes := (nodes S)(p := n'),
          grants := (if err = None \<and> rvrVoteGranted resp
                     then insert (p, rvTerm req, rvCandidateID req) (grants S) else grants S)\<rparr>)"
| operate:
    "p \<in> ids \<Longrightarrow> routine op \<Longrightarrow> node_op sv op (nodes S p) = Some n' \<Longrightarrow>
     net_step sv ld ids conf S (S\<lparr>nodes := (nodes S)(p := n')\<rparr>)"
| start:
    "p \<in> ids \<Longrightarrow> runs S p = ElDone won err \<Longrightarrow>
     net_step sv ld ids conf S (S\<lparr>runs := (runs S)(p := StartElection True)\<rparr>)"
| elect:
    "p \<in> ids \<Longrightarrow> genuine S p ev \<Longrightarrow> (runs S p = ElBecome \<longrightarrow> unat (currentTerm (nodes S p)) + 1 < 2 ^ 64) \<Longrightarrow>
     el_step sv ev (runs S p) (nodes S p) = Some (r', n', out) \<Longrightarrow>
     net_step sv ld ids conf S
       (S\<lparr>nodes := (nodes S)(p := n'), runs := (runs S)(p := r'),
          grants := (if runs S p = ElBecome \<and> r' = ElSnapshot
                     then insert (p, currentTerm n', p) (grants S) else grants S),
          wins := (if state (nodes S p) \<noteq> Leader \<and> state n' = Leader
                   then insert (currentTerm n', p) (wins S) else wins S)\<rparr>)"
| crash:
    "p \<in> ids \<Longrightarrow> NewRaftNode ld p (conf p) (store (nodes S p)) = Inr n' \<Longrightarrow>
     net_step sv ld ids conf S (S\<lparr>nodes := (nodes S)(p := n'), runs := (runs S)(p := ElDone False None)\<rparr>)"

text \<open>At the start every process has opened its store and runs no election.\<close>

definition net_init :: "'s loader \<Rightarrow> string set \<Rightarrow> (string \<Rightarrow> string list) \<Rightarrow> 's Net \<Rightarrow> bool" where
  "net_init ld ids conf S =
     ((\<forall>p \<in> ids. \<exists>s. ld s = Inr zeroPersistentState \<and> NewRaftNode ld p (conf p) (Some s) = Inr (nodes S p)
         \<and> runs S p = ElDone False None)
      \<and> grants S = {} \<and> wins S = {})"

lemma NewRaftNode_zero:
  "NewRaftNode ld i ps (Some s) = Inr n \<Longrightarrow> ld s = Inr zeroPersistentState \<Longrightarrow>
     nid n = i \<and> peers n = ps \<and> selfMember n \<and> votedFor n = [] \<and> store n = Some s \<and> state n = Follower"
  by (auto simp: NewRaftNode_def zeroPersistentState_def Let_def)

subsection \<open>The invariant\<close>

locale cluster = stable_store sv ld saved fit
  for sv :: "'s saver" and ld :: "'s loader" and saved :: "'s \<Rightarrow> PersistentState" and fit :: "PersistentState \<Rightarrow> bool" +
  fixes ids :: "string set" and conf :: "string \<Rightarrow> string list"
  assumes finite_ids: "finite ids"
    and named: "[] \<notin> ids"
    and conf_peers: "p \<in> ids \<Longrightarrow> distinct (conf p) \<and> set (conf p) = ids - {p}"
    and fit_state: "p \<in> ids \<Longrightarrow> psVotedFor ps \<in> insert [] ids \<Longrightarrow> psPeers ps = clonePeers (conf p) \<Longrightarrow> fit ps"
begin

text \<open>A term and a vote that still stand by a vote for \<open>c\<close> in term \<open>t\<close>.\<close>

definition holds :: "uint64 \<Rightarrow> string \<Rightarrow> uint64 \<Rightarrow> string \<Rightarrow> bool" where
  "holds term voted t c = (t < term \<or> t = term \<and> voted = c)"

definition disk_ok :: "string \<Rightarrow> PersistentState \<Rightarrow> bool" where
  "disk_ok p ps =
     (psVotedFor ps \<in> insert [] ids \<and> (psPeers ps = None \<or> psPeers ps = Some (conf p)) \<and> psSelfMember ps \<noteq> Some False)"

definition member :: "string \<Rightarrow> 's RaftNode \<Rightarrow> bool" where
  "member p n =
     (nid n = p \<and> peers n = conf p \<and> selfMember n \<and> votedFor n \<in> insert [] ids
      \<and> (\<exists>s. store n = Some s \<and> disk_ok p (saved s)))"

definition stands :: "'s RaftNode \<Rightarrow> uint64 \<Rightarrow> string \<Rightarrow> bool" where
  "stands n t c =
     (holds (currentTerm n) (votedFor n) t c
      \<and> (\<forall>s. store n = Some s \<longrightarrow> holds (psCurrentTerm (saved s)) (psVotedFor (saved s)) t c))"

text \<open>How an operation may move a node.\<close>

definition moves :: "'s RaftNode \<Rightarrow> 's RaftNode \<Rightarrow> bool" where
  "moves n m = (vote_kept n m \<and> peers m = peers n \<and> selfMember m = selfMember n \<and> store m = store n
     \<and> votedFor m \<in> insert [] ids)"

lemma moves_kept:
  assumes "p \<in> ids" and "member p n" and "moves n m" and "kept sv m n'"
  shows "member p n'" and "c \<noteq> [] \<Longrightarrow> stands n t c \<Longrightarrow> stands n' t c"
    and "persist_err sv m = None \<Longrightarrow> n' = m\<lparr>store := persist_store sv m\<rparr> \<Longrightarrow> stands n' (currentTerm m) (votedFor m)"
proof -
  obtain s where s: "store m = Some s" "disk_ok p (saved s)" using assms(2,3) by (auto simp: member_def moves_def)
  have v: "votedFor m \<in> insert [] ids" "peers m = conf p" "selfMember m" "nid m = p"
    using assms(2,3) by (auto simp: member_def moves_def vote_kept_def)
  then have f: "fit (persistent_of m)" by (intro fit_state [OF assms(1)]) (simp_all add: persistent_of_def)
  obtain s' where s': "persist_store sv m = Some s'"
      "saved s' = persistent_of m \<or> persist_err sv m \<noteq> None \<and> saved s' = saved s"
    by (rule persist_saved [OF s(1) f])
  have d: "disk_ok p (persistent_of m)"
    using v by (simp add: disk_ok_def persistent_of_def clonePeers_def)
  have k: "n' = m \<or> n' = m\<lparr>store := Some s'\<rparr>" using assms(4) s'(1) by (simp add: kept_def)
  have dk: "disk_ok p (saved s')" using s'(2) d s(2) by auto
  show "member p n'"
    using k v s dk by (auto simp: member_def)
  show "stands n' t c" if "c \<noteq> []" "stands n t c"
  proof -
    have "holds (currentTerm m) (votedFor m) t c"
      using that assms(3) by (auto simp: stands_def holds_def moves_def vote_kept_def)
    moreover have "holds (psCurrentTerm (saved s)) (psVotedFor (saved s)) t c"
      using that s(1) assms(3) by (simp add: stands_def moves_def)
    ultimately show ?thesis
      using k s(1) s'(2) by (auto simp: stands_def persistent_of_def)
  qed
  show "stands n' (currentTerm m) (votedFor m)"
    if "persist_err sv m = None" "n' = m\<lparr>store := persist_store sv m\<rparr>"
    using that s' by (simp add: stands_def holds_def persistent_of_def)
qed

text \<open>What a running election knows.\<close>

definition tally :: "(string \<times> uint64 \<times> string) set \<Rightarrow> string \<Rightarrow> uint64 \<Rightarrow> nat \<Rightarrow> string set \<Rightarrow> bool" where
  "tally g p t v open = (\<exists>G \<subseteq> set (conf p) - open. v = Suc (card G) \<and> (\<forall>q \<in> G. (q, t, p) \<in> g))"

definition own :: "(string \<times> uint64 \<times> string) set \<Rightarrow> string \<Rightarrow> 's RaftNode \<Rightarrow> bool" where
  "own g p n = (state n = Candidate \<longrightarrow> (p, currentTerm n, p) \<in> g)"

fun run_ok :: "(string \<times> uint64 \<times> string) set \<Rightarrow> string \<Rightarrow> 's RaftNode \<Rightarrow> ElectionRun \<Rightarrow> bool" where
  "run_ok g p n ElSnapshot = own g p n"
| "run_ok g p n (ElCollect t v k w) =
     (own g p n \<and> k = majority (length (conf p) + 1) \<and> distinct w \<and> set w \<subseteq> set (conf p) \<and> tally g p t v (set w))"
| "run_ok g p n (ElCheck t v k w granted) =
     (own g p n \<and> k = majority (length (conf p) + 1) \<and> distinct w \<and> set w \<subseteq> set (conf p)
      \<and> (\<exists>q \<in> set (conf p) - set w. tally g p t v (insert q (set w)) \<and> (granted \<longrightarrow> (q, t, p) \<in> g)))"
| "run_ok g p n (ElPromote t) =
     (own g p n \<and> (\<exists>v. majority (length (conf p) + 1) \<le> v \<and> tally g p t v {}))"
| "run_ok g p n r = True"

definition won :: "(string \<times> uint64 \<times> string) set \<Rightarrow> uint64 \<Rightarrow> string \<Rightarrow> bool" where
  "won g t p = (\<exists>Q \<subseteq> ids. card ids < 2 * card Q \<and> (\<forall>q \<in> Q. (q, t, p) \<in> g))"

definition inv :: "'s Net \<Rightarrow> bool" where
  "inv S =
     ((\<forall>p \<in> ids. member p (nodes S p) \<and> run_ok (grants S) p (nodes S p) (runs S p)
         \<and> (state (nodes S p) = Leader \<longrightarrow> (currentTerm (nodes S p), p) \<in> wins S))
      \<and> (\<forall>p t c. (p, t, c) \<in> grants S \<longrightarrow> p \<in> ids \<and> c \<in> ids \<and> stands (nodes S p) t c)
      \<and> (\<forall>p t c c'. (p, t, c) \<in> grants S \<and> (p, t, c') \<in> grants S \<longrightarrow> c = c')
      \<and> (\<forall>t p. (t, p) \<in> wins S \<longrightarrow> won (grants S) t p))"

lemma tally_mono: "tally g p t v w \<Longrightarrow> g \<subseteq> g' \<Longrightarrow> tally g' p t v w"
  unfolding tally_def by blast

lemma won_mono: "won g t p \<Longrightarrow> g \<subseteq> g' \<Longrightarrow> won g' t p"
  unfolding won_def by blast

lemma run_ok_mono:
  assumes "run_ok g p n r" and "g \<subseteq> g'" and "own g p n \<Longrightarrow> own g' p n'"
  shows "run_ok g' p n' r"
  using assms by (cases r) (auto intro: tally_mono)

text \<open>The one way the invariant is kept: one process changes.\<close>

lemma inv_replace:
  assumes "inv S" and "p \<in> ids" and "member p n'" and "\<And>t c. (p, t, c) \<in> grants S \<Longrightarrow> stands n' t c"
    and "g' = grants S \<or> (\<exists>c \<in> ids. g' = insert (p, currentTerm n', c) (grants S) \<and> stands n' (currentTerm n') c)"
    and "w' = wins S \<or> (\<exists>t. w' = insert (t, p) (wins S) \<and> won g' t p)"
    and "run_ok g' p n' r'" and "state n' = Leader \<longrightarrow> (currentTerm n', p) \<in> w'"
  shows "inv (S\<lparr>nodes := (nodes S)(p := n'), runs := (runs S)(p := r'), grants := g', wins := w'\<rparr>)"
proof -
  let ?S = "S\<lparr>nodes := (nodes S)(p := n'), runs := (runs S)(p := r'), grants := g', wins := w'\<rparr>"
  have old: "member q (nodes S q)" "run_ok (grants S) q (nodes S q) (runs S q)"
      "state (nodes S q) = Leader \<longrightarrow> (currentTerm (nodes S q), q) \<in> wins S" if "q \<in> ids" for q
    using assms(1) that by (auto simp: inv_def)
  have gr: "q \<in> ids \<and> c \<in> ids \<and> stands (nodes S q) t c" if "(q, t, c) \<in> grants S" for q t c
    using assms(1) that by (auto simp: inv_def)
  have un: "c = c'" if "(q, t, c) \<in> grants S" "(q, t, c') \<in> grants S" for q t c c'
    using assms(1) that by (auto simp: inv_def)
  have gg: "grants S \<subseteq> g'" and ww: "wins S \<subseteq> w'" using assms(5,6) by auto
  have 1: "member q (nodes ?S q) \<and> run_ok g' q (nodes ?S q) (runs ?S q)
      \<and> (state (nodes ?S q) = Leader \<longrightarrow> (currentTerm (nodes ?S q), q) \<in> w')" if "q \<in> ids" for q
    using old [OF that] assms(3,7,8) run_ok_mono [OF old(2) [OF that] gg] gg ww by (auto simp: own_def)
  have 2: "q \<in> ids \<and> c \<in> ids \<and> stands (nodes ?S q) t c" if "(q, t, c) \<in> g'" for q t c
  proof (cases "(q, t, c) \<in> grants S")
    case True
    then show ?thesis using gr assms(4) by auto
  next
    case False
    then show ?thesis using that assms(2,5) by auto
  qed
  have 3: "c = c'" if "(q, t, c) \<in> g'" "(q, t, c') \<in> g'" for q t c c'
  proof (cases "(q, t, c) \<in> grants S \<and> (q, t, c') \<in> grants S")
    case True
    then show ?thesis using un by blast
  next
    case False
    then have "q = p" "t = currentTerm n'" using that assms(5) by auto
    then show ?thesis using 2 [OF that(1)] 2 [OF that(2)] by (simp add: stands_def holds_def)
  qed
  have 4: "won g' t q" if "(t, q) \<in> w'" for t q
    using that assms(1,6) won_mono [OF _ gg] by (auto simp: inv_def)
  show ?thesis unfolding inv_def using 1 2 4 by simp (blast intro: 3)
qed

lemma inv_move:
  assumes "inv S" and "p \<in> ids" and "moves (nodes S p) m" and "kept sv m n'"
    and "g' = grants S \<or> (\<exists>c \<in> ids. g' = insert (p, currentTerm n', c) (grants S) \<and> stands n' (currentTerm n') c)"
    and "w' = wins S \<or> (\<exists>t. w' = insert (t, p) (wins S) \<and> won g' t p)"
    and "run_ok g' p n' r'" and "state n' = Leader \<longrightarrow> (currentTerm n', p) \<in> w'"
  shows "inv (S\<lparr>nodes := (nodes S)(p := n'), runs := (runs S)(p := r'), grants := g', wins := w'\<rparr>)"
proof (rule inv_replace [OF assms(1,2) _ _ assms(5-8)])
  have m: "member p (nodes S p)" using assms(1,2) by (simp add: inv_def)
  then show "member p n'" by (rule moves_kept(1) [OF assms(2) _ assms(3,4)])
  show "stands n' t c" if "(p, t, c) \<in> grants S" for t c
  proof (rule moves_kept(2) [OF assms(2) m assms(3,4)])
    show "c \<noteq> []" "stands (nodes S p) t c" using that assms(1) named by (auto simp: inv_def)
  qed
qed

lemma quiet_moves: "quiet n m \<Longrightarrow> member p n \<Longrightarrow> moves n m"
  by (auto simp: quiet_def moves_def vote_kept_def member_def split: if_splits)

lemma kept_fields [simp]:
  "kept sv m n' \<Longrightarrow> state n' = state m" "kept sv m n' \<Longrightarrow> currentTerm n' = currentTerm m"
  "kept sv m n' \<Longrightarrow> votedFor n' = votedFor m"
  by (auto simp: kept_def)

text \<open>A node that keeps its role, or falls back to follower, and gives no new vote.\<close>

lemma inv_quiet:
  assumes "inv S" and "p \<in> ids" and "quiet (nodes S p) m" and "kept sv m n'"
  shows "inv (S\<lparr>nodes := (nodes S)(p := n')\<rparr>)"
proof -
  have i: "member p (nodes S p)" "run_ok (grants S) p (nodes S p) (runs S p)"
      "state (nodes S p) = Leader \<longrightarrow> (currentTerm (nodes S p), p) \<in> wins S"
    using assms(1,2) by (auto simp: inv_def)
  have q: "state n' \<noteq> Follower \<longrightarrow> state n' = state (nodes S p) \<and> currentTerm n' = currentTerm (nodes S p)"
    using assms(3,4) by (simp add: quiet_def)
  then have "run_ok (grants S) p n' (runs S p)" by (intro run_ok_mono [OF i(2)]) (auto simp: own_def)
  moreover have "state n' = Leader \<longrightarrow> (currentTerm n', p) \<in> wins S" using q i(3) by auto
  ultimately have "inv (S\<lparr>nodes := (nodes S)(p := n'), runs := (runs S)(p := runs S p), grants := grants S, wins := wins S\<rparr>)"
    by (intro inv_move [OF assms(1,2) quiet_moves [OF assms(3) i(1)] assms(4)]) simp_all
  then show ?thesis by simp
qed

lemma vote_moves:
  assumes "member p n" and "rvCandidateID req \<in> ids" and "RequestVote sv n req = (resp, err, n')"
  obtains m where "moves n m" "kept sv m n'"
    "state m \<noteq> Follower \<longrightarrow> state m = state n \<and> currentTerm m = currentTerm n"
    "err = None \<and> rvrVoteGranted resp \<longrightarrow> persist_err sv m = None \<and> n' = m\<lparr>store := persist_store sv m\<rparr>
       \<and> currentTerm m = rvTerm req \<and> votedFor m = rvCandidateID req"
proof (cases "vote_refused n req \<or> \<not> (rvTerm req > currentTerm n \<or> vote_granted (adopt_term n (rvTerm req)) req)")
  case True
  then have n: "n' = n" "\<not> rvrVoteGranted resp"
    using assms(3) by (cases "vote_refused n req"; auto simp: RequestVote_refused RequestVote_considered)+
  show ?thesis
  proof (rule that)
    show "moves n n" using assms(1) by (auto simp: moves_def vote_kept_def member_def)
    show "kept sv n n'" unfolding n(1) kept_def by (rule disjI1) (rule refl)
  qed (use n(2) in blast)+
next
  case False
  let ?m = "vote_node n req"
  have r: "n' = ?m\<lparr>store := persist_store sv ?m\<rparr>" "err = persist_err sv ?m"
      "rvrVoteGranted resp = vote_granted (adopt_term n (rvTerm req)) req"
    using assms(3) False by (auto simp: RequestVote_considered)
  have t: "currentTerm n \<le> rvTerm req" using False by (auto simp: vote_refused_def)
  have "vote_kept n ?m" by (rule effect_vote_kept [of n "OpVote req"]) (use t in simp_all)
  then have "moves n ?m"
    using assms(1,2) by (auto simp: moves_def member_def vote_node_def adopt_term_def Let_def)
  moreover have "kept sv ?m n'" unfolding kept_def by (rule disjI2) (rule r(1))
  moreover have "state ?m \<noteq> Follower \<longrightarrow> state ?m = state n \<and> currentTerm ?m = currentTerm n"
    by (auto simp: vote_node_def adopt_term_def Let_def)
  moreover have "currentTerm ?m = rvTerm req \<and> votedFor ?m = rvCandidateID req" if "rvrVoteGranted resp"
    using t that r(3) by (auto simp: vote_node_def adopt_term_def Let_def)
  ultimately show ?thesis using r(2) by (intro that impI conjI) (blast intro: r(1))+
qed

lemma inv_vote:
  assumes "inv S" and "p \<in> ids" and "rvCandidateID req \<in> ids" and "RequestVote sv (nodes S p) req = (resp, err, n')"
  shows "inv (S\<lparr>nodes := (nodes S)(p := n'),
          grants := (if err = None \<and> rvrVoteGranted resp
                     then insert (p, rvTerm req, rvCandidateID req) (grants S) else grants S)\<rparr>)"
proof -
  have i: "member p (nodes S p)" "run_ok (grants S) p (nodes S p) (runs S p)"
      "state (nodes S p) = Leader \<longrightarrow> (currentTerm (nodes S p), p) \<in> wins S"
    using assms(1,2) by (auto simp: inv_def)
  let ?g = "if err = None \<and> rvrVoteGranted resp then insert (p, rvTerm req, rvCandidateID req) (grants S) else grants S"
  obtain m where m: "moves (nodes S p) m" "kept sv m n'"
    "state m \<noteq> Follower \<longrightarrow> state m = state (nodes S p) \<and> currentTerm m = currentTerm (nodes S p)"
    "err = None \<and> rvrVoteGranted resp \<longrightarrow> persist_err sv m = None \<and> n' = m\<lparr>store := persist_store sv m\<rparr>
       \<and> currentTerm m = rvTerm req \<and> votedFor m = rvCandidateID req"
    by (rule vote_moves [OF i(1) assms(3,4)])
  have g: "?g = grants S \<or> (\<exists>c \<in> ids. ?g = insert (p, currentTerm n', c) (grants S) \<and> stands n' (currentTerm n') c)"
    using m assms(3) moves_kept(3) [OF assms(2) i(1) m(1,2)] by auto
  have "run_ok ?g p n' (runs S p)" using m(2,3) by (intro run_ok_mono [OF i(2)]) (auto simp: own_def)
  moreover have "state n' = Leader \<longrightarrow> (currentTerm n', p) \<in> wins S" using m(2,3) i(3) by auto
  ultimately have "inv (S\<lparr>nodes := (nodes S)(p := n'), runs := (runs S)(p := runs S p), grants := ?g, wins := wins S\<rparr>)"
    by (intro inv_move [OF assms(1,2) m(1,2) g]) simp_all
  then show ?thesis by simp
qed

lemma inv_crash:
  assumes "inv S" and "p \<in> ids" and "NewRaftNode ld p (conf p) (store (nodes S p)) = Inr n'"
  shows "inv (S\<lparr>nodes := (nodes S)(p := n'), runs := (runs S)(p := ElDone False None)\<rparr>)"
proof -
  obtain s where s: "store (nodes S p) = Some s" "disk_ok p (saved s)"
    using assms(1,2) by (auto simp: inv_def member_def)
  then have l: "ld s = Inr (saved s)" using assms(3) load_saved [of s] by (cases "ld s") (auto simp: NewRaftNode_def)
  have n: "member p n'" "currentTerm n' = psCurrentTerm (saved s)" "votedFor n' = psVotedFor (saved s)"
      "store n' = Some s" "state n' = Follower"
    using assms(3) s l by (auto simp: NewRaftNode_def member_def disk_ok_def Let_def split: option.splits)
  have "stands n' t c" if "(p, t, c) \<in> grants S" for t c
    using that assms(1) s(1) n by (auto simp: inv_def stands_def)
  then have "inv (S\<lparr>nodes := (nodes S)(p := n'), runs := (runs S)(p := ElDone False None), grants := grants S, wins := wins S\<rparr>)"
    using n by (intro inv_replace [OF assms(1,2)]) simp_all
  then show ?thesis by simp
qed

lemma majority_enough: "p \<in> ids \<Longrightarrow> card ids < 2 * majority (length (conf p) + 1)"
proof -
  assume p: "p \<in> ids"
  have "length (conf p) = card (ids - {p})" using conf_peers [OF p] by (metis distinct_card)
  then have "length (conf p) + 1 = card ids" using card_Suc_Diff1 [OF finite_ids p] by simp
  then show ?thesis by (simp add: majority_def)
qed

lemma tally_start: "tally g p t 1 w"
  unfolding tally_def by (rule exI [of _ "{}"]) simp

lemma tally_less: "tally g p t v w \<Longrightarrow> w' \<subseteq> w \<Longrightarrow> tally g p t v w'"
  unfolding tally_def by blast

lemma tally_count:
  assumes "p \<in> ids" and "tally g p t v (insert q w)" and "q \<in> set (conf p)" and "q \<notin> w" and "(q, t, p) \<in> g"
  shows "tally g p t (v + 1) w"
proof -
  obtain G where G: "G \<subseteq> set (conf p) - insert q w" "v = Suc (card G)" "\<forall>x \<in> G. (x, t, p) \<in> g"
    using assms(2) unfolding tally_def by blast
  have "finite G" using G(1) by (meson finite_Diff finite_set finite_subset)
  then have "card (insert q G) = Suc (card G)" using G(1) by (subst card_insert_disjoint) auto
  then show ?thesis unfolding tally_def using G assms(3-5) by (intro exI [of _ "insert q G"]) auto
qed

lemma tally_won:
  assumes "p \<in> ids" and "tally g p t v {}" and "majority (length (conf p) + 1) \<le> v" and "(p, t, p) \<in> g"
  shows "won g t p"
proof -
  obtain G where G: "G \<subseteq> ids - {p}" "v = Suc (card G)" "\<forall>x \<in> G. (x, t, p) \<in> g"
    using assms(2) conf_peers [OF assms(1)] unfolding tally_def by auto
  have "finite G" using G(1) finite_ids by (meson finite_Diff finite_subset)
  then have "card (insert p G) = v" using G(1,2) by (subst card_insert_disjoint) auto
  then have "card ids < 2 * card (insert p G)" using majority_enough [OF assms(1)] assms(3) by linarith
  then show ?thesis unfolding won_def using G assms(1,4) by (intro exI [of _ "insert p G"]) auto
qed

lemma run_ok_wait:
  assumes "own g p n" and "distinct w" and "set w \<subseteq> set (conf p)" and "tally g p t v (set w)"
  shows "run_ok g p n (el_wait t v (majority (length (conf p) + 1)) w)"
  using assms by (simp add: el_wait_def)

text \<open>The steps that only count.\<close>

lemma el_step_run_ok:
  assumes "p \<in> ids" and "member p n" and "run_ok g p n r" and "el_step sv ev r n = Some (r', n', out)"
    and "r \<noteq> ElBecome" and "\<And>t. r \<noteq> ElPromote t"
    and "\<And>q x. ev = VoteEvent (Reply q (Inr x)) \<Longrightarrow> rvrVoteGranted x \<Longrightarrow> \<exists>t v k w. r = ElCollect t v k w \<and> (q, t, p) \<in> g"
  shows "run_ok g p n' r'"
proof -
  obtain m where "quiet n m" "kept sv m n'" using el_step_quiet [OF assms(4-6)] by blast
  then have own: "own g p n \<Longrightarrow> own g p n'" by (auto simp: quiet_def own_def)
  have pre: "run_ok g p n' (el_pre q)" for q by (cases q) auto
  show ?thesis
  proof (cases r)
    case ElSelf
    then show ?thesis using assms(4) pre by (cases "(sv, ev, r, n)" rule: el_step.cases) auto
  next
    case (ElPre q)
    then show ?thesis using assms(4) pre by (cases "(sv, ev, r, n)" rule: el_step.cases) auto
  next
    case ElSnapshot
    then have "el_step sv (VoteEvent Run) ElSnapshot n = Some (r', n', out)"
      using assms(4) by (cases "(sv, ev, r, n)" rule: el_step.cases) auto
    moreover have "peers n = conf p" using assms(2) by (simp add: member_def)
    ultimately have "r' = ElPromote (currentTerm n) \<and> majority (length (conf p) + 1) \<le> 1
        \<or> r' = el_wait (currentTerm n) 1 (majority (length (conf p) + 1)) (conf p)"
      by (auto simp: electionSnapshot_def split: if_splits)
    then show ?thesis
      using own ElSnapshot assms(3) tally_start [of g p "currentTerm n"] conf_peers [OF assms(1)] run_ok_wait
      by (elim disjE) (auto intro!: exI [of _ 1])
  next
    case (ElCollect t v k w)
    then have ok: "own g p n'" "k = majority (length (conf p) + 1)" "distinct w" "set w \<subseteq> set (conf p)" "tally g p t v (set w)"
      using assms(3) own by simp_all
    have rm: "distinct (remove1 q w)" "set (remove1 q w) \<subseteq> set (conf p)" "tally g p t v (set (remove1 q w))" for q
      using ok(3-5) tally_less [OF ok(5)] by (auto simp: set_remove1_subset dest: notin_set_remove1)
    consider "r' = ElDone False None" | err where "r' = ElDone False err"
      | q where "r' = el_wait t v k (remove1 q w)"
      | q x where "ev = VoteEvent (Reply q (Inr x))" "q \<in> set w" "r' = ElCheck t v k (remove1 q w) (rvrVoteGranted x)"
      using assms(4) ElCollect by (cases "(sv, ev, r, n)" rule: el_step.cases)
        (auto simp: Let_def split: if_splits sum.splits prod.splits)
    then show ?thesis
    proof cases
      case 3
      then show ?thesis using ok rm run_ok_wait by simp
    next
      case (4 q x)
      have "insert q (set (remove1 q w)) = set w" "q \<notin> set (remove1 q w)"
        using 4(2) ok(3) by (auto simp: set_remove1_eq)
      moreover have "rvrVoteGranted x \<longrightarrow> (q, t, p) \<in> g" using assms(7) [OF 4(1)] ElCollect by auto
      ultimately show ?thesis using 4 ok rm [of q] by (auto intro!: bexI [of _ q])
    qed simp_all
  next
    case (ElCheck t v k w granted)
    then obtain q where ok: "own g p n'" "k = majority (length (conf p) + 1)" "distinct w" "set w \<subseteq> set (conf p)"
        "q \<in> set (conf p)" "q \<notin> set w" "tally g p t v (insert q (set w))" "granted \<longrightarrow> (q, t, p) \<in> g"
      using assms(3) own by auto
    consider "r' = ElDone False None" | "granted" "k \<le> v + 1" "r' = ElPromote t"
      | "granted" "r' = el_wait t (v + 1) k w" | "r' = el_wait t v k w"
      using assms(4) ElCheck by (cases "(sv, ev, r, n)" rule: el_step.cases) (auto split: if_splits)
    then show ?thesis
    proof cases
      case 2
      then have "tally g p t (v + 1) (set w)" using tally_count [OF assms(1) ok(7,5,6)] ok(8) by simp
      then have "tally g p t (v + 1) {}" by (rule tally_less) simp
      then show ?thesis using 2 ok(1,2) by auto
    next
      case 3
      then have "tally g p t (v + 1) (set w)" using tally_count [OF assms(1) ok(7,5,6)] ok(8) by simp
      then show ?thesis using 3 ok run_ok_wait by simp
    next
      case 4
      have "tally g p t v (set w)" using ok(7) by (rule tally_less) auto
      then show ?thesis using 4 ok run_ok_wait by simp
    qed simp
  next
    case (ElDone won err)
    then show ?thesis using assms(4) by (cases "(sv, ev, r, n)" rule: el_step.cases) auto
  qed (use assms(5,6) in blast)+
qed

lemma inv_run:
  assumes "inv S" and "p \<in> ids" and "run_ok (grants S) p (nodes S p) r'"
  shows "inv (S\<lparr>runs := (runs S)(p := r')\<rparr>)"
  using assms by (auto simp: inv_def)

lemma inv_elect_quiet:
  assumes "inv S" and "p \<in> ids" and "genuine S p ev" and "el_step sv ev (runs S p) (nodes S p) = Some (r', n', out)"
    and "runs S p \<noteq> ElBecome" and "\<And>t. runs S p \<noteq> ElPromote t"
  shows "inv (S\<lparr>nodes := (nodes S)(p := n'), runs := (runs S)(p := r')\<rparr>)"
    and "state n' = Leader \<longrightarrow> state (nodes S p) = Leader"
proof -
  have i: "member p (nodes S p)" "run_ok (grants S) p (nodes S p) (runs S p)"
      "state (nodes S p) = Leader \<longrightarrow> (currentTerm (nodes S p), p) \<in> wins S"
    using assms(1,2) by (auto simp: inv_def)
  obtain m where m: "quiet (nodes S p) m" "kept sv m n'" using el_step_quiet [OF assms(4-6)] by blast
  then show "state n' = Leader \<longrightarrow> state (nodes S p) = Leader" by (simp add: quiet_def)
  have "run_ok (grants S) p n' r'"
    by (rule el_step_run_ok [OF assms(2) i(1,2) assms(4-6)]) (use assms(3) in \<open>auto simp: genuine_def\<close>)
  moreover have "state n' = Leader \<longrightarrow> (currentTerm n', p) \<in> wins S" using m i(3) by (auto simp: quiet_def)
  ultimately have "inv (S\<lparr>nodes := (nodes S)(p := n'), runs := (runs S)(p := r'), grants := grants S, wins := wins S\<rparr>)"
    by (intro inv_move [OF assms(1,2) quiet_moves [OF m(1) i(1)] m(2)]) simp_all
  then show "inv (S\<lparr>nodes := (nodes S)(p := n'), runs := (runs S)(p := r')\<rparr>)" by simp
qed

lemma inv_become:
  assumes "inv S" and "p \<in> ids" and "runs S p = ElBecome" and "unat (currentTerm (nodes S p)) + 1 < 2 ^ 64"
    and "el_step sv ev ElBecome (nodes S p) = Some (r', n', out)"
  shows "inv (S\<lparr>nodes := (nodes S)(p := n'), runs := (runs S)(p := r'),
      grants := (if r' = ElSnapshot then insert (p, currentTerm n', p) (grants S) else grants S)\<rparr>)"
    and "state n' = Candidate"
proof -
  let ?n = "nodes S p"
  let ?g = "if r' = ElSnapshot then insert (p, currentTerm n', p) (grants S) else grants S"
  define m where "m = ?n\<lparr>state := Candidate, leaderID := [], nextIndex := None, matchIndex := None,
       currentTerm := currentTerm ?n + 1, votedFor := nid ?n\<rparr>"
  have i: "member p ?n" using assms(1,2) by (simp add: inv_def)
  have n': "n' = m\<lparr>store := persist_store sv m\<rparr>"
      "r' = (if persist_err sv m \<noteq> None then ElDone False (persist_err sv m) else ElSnapshot)"
  proof -
    have ev: "ev = VoteEvent Run"
      using assms(5) by (cases "(sv, ev, ElBecome, ?n)" rule: el_step.cases) auto
    have "BecomeCandidate sv ?n = (persist_err sv m, m\<lparr>store := persist_store sv m\<rparr>)"
      by (simp add: BecomeCandidate_def persistLocked_pair m_def)
    then show "n' = m\<lparr>store := persist_store sv m\<rparr>"
        "r' = (if persist_err sv m \<noteq> None then ElDone False (persist_err sv m) else ElSnapshot)"
      using assms(5) unfolding ev by (simp_all del: not_None_eq)
  qed
  then show c: "state n' = Candidate" by (simp add: m_def)
  have "vote_kept ?n m" using effect_vote_kept [of ?n OpCandidate m] assms(4) by (simp add: m_def)
  then have mv: "moves ?n m" using i assms(2) by (simp add: moves_def member_def m_def)
  have k: "kept sv m n'" unfolding kept_def by (rule disjI2) (rule n'(1))
  have v: "votedFor m = p" "currentTerm n' = currentTerm m" using i n'(1) by (simp_all add: m_def member_def)
  have "stands n' (currentTerm n') p" if "r' = ElSnapshot"
    using moves_kept(3) [OF assms(2) i mv k _ n'(1)] n'(2) that v by (auto split: if_splits)
  then have g: "?g = grants S \<or> (\<exists>c \<in> ids. ?g = insert (p, currentTerm n', c) (grants S) \<and> stands n' (currentTerm n') c)"
    using assms(2) by auto
  have "run_ok ?g p n' r'" using n'(2) by (auto simp: own_def)
  then have "inv (S\<lparr>nodes := (nodes S)(p := n'), runs := (runs S)(p := r'), grants := ?g, wins := wins S\<rparr>)"
    using c by (intro inv_move [OF assms(1,2) mv k g]) simp_all
  then show "inv (S\<lparr>nodes := (nodes S)(p := n'), runs := (runs S)(p := r'), grants := ?g\<rparr>)" by simp
qed

lemma inv_promote:
  assumes "inv S" and "p \<in> ids" and "runs S p = ElPromote t"
    and "el_step sv ev (ElPromote t) (nodes S p) = Some (r', n', out)"
  shows "inv (S\<lparr>nodes := (nodes S)(p := n'), runs := (runs S)(p := r'),
      wins := (if state (nodes S p) \<noteq> Leader \<and> state n' = Leader then insert (currentTerm n', p) (wins S) else wins S)\<rparr>)"
proof -
  let ?n = "nodes S p"
  let ?w = "if state ?n \<noteq> Leader \<and> state n' = Leader then insert (currentTerm n', p) (wins S) else wins S"
  have i: "member p ?n" "run_ok (grants S) p ?n (ElPromote t)"
      "state ?n = Leader \<longrightarrow> (currentTerm ?n, p) \<in> wins S"
    using assms(1-3) by (auto simp: inv_def)
  have ev: "ev = VoteEvent Run"
    using assms(4) by (cases "(sv, ev, ElPromote t, ?n)" rule: el_step.cases) auto
  obtain ok err where pr: "promoteCandidate sv ?n t = Some (ok, err, n')" "r' = ElDone ok err"
    using assms(4) unfolding ev by auto
  have run: "run_ok (grants S) p n' r'" using pr(2) by simp
  show ?thesis
  proof (cases "n' = ?n")
    case True
    then have "inv (S\<lparr>runs := (runs S)(p := r')\<rparr>)" using run by (intro inv_run [OF assms(1,2)]) simp
    then show ?thesis using True by simp
  next
    case False
    then obtain m where m: "state ?n = Candidate" "currentTerm ?n = t" "n' = m\<lparr>store := persist_store sv m\<rparr>"
      "nid m = nid ?n" "peers m = peers ?n" "selfMember m = selfMember ?n" "store m = store ?n"
      "currentTerm m = t" "votedFor m = votedFor ?n" "state m = Leader"
      by (rule promote_only [OF pr(1)])
    have k: "kept sv m n'" unfolding kept_def by (rule disjI2) (rule m(3))
    have mv: "moves ?n m" using m i(1) by (auto simp: moves_def vote_kept_def member_def)
    obtain v where v: "majority (length (conf p) + 1) \<le> v" "tally (grants S) p t v {}" "(p, t, p) \<in> grants S"
      using i(2) m(1,2) by (auto simp: own_def)
    then have "won (grants S) t p" by (intro tally_won [OF assms(2)])
    moreover have l: "state n' = Leader" "currentTerm n' = t" using m by simp_all
    ultimately have w: "?w = wins S \<or> (\<exists>t. ?w = insert (t, p) (wins S) \<and> won (grants S) t p)" by auto
    have "inv (S\<lparr>nodes := (nodes S)(p := n'), runs := (runs S)(p := r'), grants := grants S, wins := ?w\<rparr>)"
      using run l m(1) by (intro inv_move [OF assms(1,2) mv k _ w]) simp_all
    then show ?thesis by simp
  qed
qed

lemma inv_step:
  assumes "net_step sv ld ids conf S S'" and "inv S"
  shows "inv S'"
  using assms
proof (cases rule: net_step.cases)
  case (vote p req resp err n')
  then show ?thesis using inv_vote [OF assms(2)] by simp
next
  case (operate p op n')
  then obtain m where "quiet (nodes S p) m" "kept sv m n'" using routine_quiet by blast
  then show ?thesis using operate inv_quiet [OF assms(2)] by simp
next
  case (start p won err)
  then show ?thesis using inv_run [OF assms(2)] by (simp add: StartElection_def)
next
  case (crash p n')
  then show ?thesis using inv_crash [OF assms(2)] by simp
next
  case (elect p ev r' n' out)
  consider "runs S p = ElBecome" | t where "runs S p = ElPromote t"
    | "runs S p \<noteq> ElBecome" "\<And>t. runs S p \<noteq> ElPromote t" by blast
  then show ?thesis
  proof cases
    case 1
    then show ?thesis using elect inv_become [OF assms(2) elect(2) 1] by simp
  next
    case 2
    then show ?thesis using elect inv_promote [OF assms(2) elect(2) 2] by simp
  next
    case 3
    note q = inv_elect_quiet [OF assms(2) elect(2,3,5) 3]
    then show ?thesis using elect(1) 3 by auto
  qed
qed

lemma inv_init:
  assumes "net_init ld ids conf S"
  shows "inv S"
proof -
  have "member p (nodes S p) \<and> state (nodes S p) = Follower" if p: "p \<in> ids" for p
  proof -
    obtain s where s: "ld s = Inr zeroPersistentState" "NewRaftNode ld p (conf p) (Some s) = Inr (nodes S p)"
      using assms p unfolding net_init_def by blast
    have "disk_ok p (saved s)" using load_saved [OF s(1), symmetric] by (simp add: disk_ok_def zeroPersistentState_def)
    moreover note NewRaftNode_zero [OF s(2,1)]
    ultimately show ?thesis by (simp add: member_def)
  qed
  moreover have "runs S p = ElDone False None" if "p \<in> ids" for p using assms that unfolding net_init_def by blast
  ultimately show ?thesis using assms by (simp add: inv_def net_init_def)
qed

text \<open>No term has two winners, and a leader has won its term.\<close>

lemma winners_agree:
  assumes "inv S" and "(t, p) \<in> wins S" and "(t, q) \<in> wins S"
  shows "p = q"
proof -
  obtain P Q where P: "P \<subseteq> ids" "card ids < 2 * card P" "\<forall>x \<in> P. (x, t, p) \<in> grants S"
    and Q: "Q \<subseteq> ids" "card ids < 2 * card Q" "\<forall>x \<in> Q. (x, t, q) \<in> grants S"
    using assms unfolding inv_def won_def by meson
  have f: "finite P" "finite Q" using P(1) Q(1) finite_ids finite_subset by blast+
  have "card (P \<union> Q) \<le> card ids" using P(1) Q(1) finite_ids by (intro card_mono) auto
  then have "P \<inter> Q \<noteq> {}" using card_Un_Int [OF f] P(2) Q(2) by auto
  then obtain x where "x \<in> P" "x \<in> Q" by blast
  then have "(x, t, p) \<in> grants S" "(x, t, q) \<in> grants S" using P(3) Q(3) by blast+
  then show ?thesis using assms(1) unfolding inv_def by blast
qed

lemma reach_inv:
  assumes "net_init ld ids conf S0" and "(net_step sv ld ids conf)\<^sup>*\<^sup>* S0 S"
  shows "inv S"
  using assms(2) by (induction rule: rtranclp_induct) (use inv_init [OF assms(1)] inv_step in blast)+

lemma one_leader:
  assumes "net_init ld ids conf S0" and "(net_step sv ld ids conf)\<^sup>*\<^sup>* S0 S" and "p \<in> ids" and "q \<in> ids"
    and "state (nodes S p) = Leader" and "state (nodes S q) = Leader"
    and "currentTerm (nodes S p) = currentTerm (nodes S q)"
  shows "p = q"
proof -
  note i = reach_inv [OF assms(1,2)]
  then have "(currentTerm (nodes S p), p) \<in> wins S" "(currentTerm (nodes S p), q) \<in> wins S"
    using assms(3-7) by (auto simp: inv_def)
  then show ?thesis by (rule winners_agree [OF i])
qed

end

end
