(* ===== verification/ClusterProps.thy ===== *)
theory ClusterProps
  imports Cluster BoltFacts
begin

text \<open>
  Election safety of the program on its bbolt store: a cluster of at least one process, each
  with the others as peers, under any interleaving of elections, votes, replication traffic,
  proposals, compactions, failing saves, crashes and restarts.
\<close>

lemma bolt_cluster:
  assumes "bbolt_laws api cont tcont" and "finite ids" and "\<forall>i \<in> ids. i \<noteq> [] \<and> valid_utf8 i"
    and "\<forall>p \<in> ids. distinct (conf p) \<and> set (conf p) = ids - {p}"
  shows "cluster (Save api) (Load api) (saved_state cont) storable ids conf"
proof (intro cluster.intro [OF bolt_stable_store [OF assms(1)]] cluster_axioms.intro)
  fix p and ps :: PersistentState
  assume "p \<in> ids" "psVotedFor ps \<in> insert [] ids" "psPeers ps = clonePeers (conf p)"
  then show "storable ps"
    using assms(3,4) by (auto simp: storable_def clonePeers_def slice_elems_def list_all_iff)
qed (use assms in auto)

text \<open>The three processes of the README's example.\<close>

definition sample_ids :: "string list" where
  "sample_ids = [''a'', ''b'', ''c'']"

definition sample_conf :: "string \<Rightarrow> string list" where
  "sample_conf p = filter (\<lambda>q. q \<noteq> p) sample_ids"

lemma sample_conf_ok:
  "finite (set sample_ids)" "\<forall>i \<in> set sample_ids. i \<noteq> [] \<and> valid_utf8 i"
  "\<forall>p \<in> set sample_ids. distinct (sample_conf p) \<and> set (sample_conf p) = set sample_ids - {p}"
  by (auto simp: sample_ids_def sample_conf_def valid_utf8_ascii)

interpretation sample_cluster: cluster "Save ref_bbolt" "Load ref_bbolt" "saved_state ref_cont" storable
    "set sample_ids" sample_conf
  by (rule bolt_cluster [OF ref_bbolt_laws sample_conf_ok])

text \<open>C1. Election safety: in every state the cluster can reach, no two processes are leaders of
  the same term.\<close>

theorem election_safety:
  assumes "bbolt_laws api cont tcont" and "finite ids" and "\<forall>i \<in> ids. i \<noteq> [] \<and> valid_utf8 i"
    and "\<forall>p \<in> ids. distinct (conf p) \<and> set (conf p) = ids - {p}"
    and "net_init (Load api) ids conf S0" and "(net_step (Save api) (Load api) ids conf)\<^sup>*\<^sup>* S0 S"
    and "p \<in> ids" and "q \<in> ids" and "state (nodes S p) = Leader" and "state (nodes S q) = Leader"
    and "currentTerm (nodes S p) = currentTerm (nodes S q)"
  shows "p = q"
  by (rule cluster.one_leader [OF bolt_cluster [OF assms(1-4)] assms(5-11)])

text \<open>C2. Over a whole run: nobody wins a term that somebody else has won, even when the first
  leader has crashed or stepped down long ago.\<close>

theorem one_winner_per_term:
  assumes "bbolt_laws api cont tcont" and "finite ids" and "\<forall>i \<in> ids. i \<noteq> [] \<and> valid_utf8 i"
    and "\<forall>p \<in> ids. distinct (conf p) \<and> set (conf p) = ids - {p}"
    and "net_init (Load api) ids conf S0" and "(net_step (Save api) (Load api) ids conf)\<^sup>*\<^sup>* S0 S"
    and "(t, p) \<in> wins S" and "(t, q) \<in> wins S"
  shows "p = q"
proof -
  note c = bolt_cluster [OF assms(1-4)]
  show ?thesis by (rule cluster.winners_agree [OF c cluster.reach_inv [OF c assms(5,6)] assms(7,8)])
qed

subsection \<open>A run in which a process becomes leader\<close>

definition boot :: "string \<Rightarrow> ref_db BoltRaftStore RaftNode" where
  "boot p =
     \<lparr>nid = p, peers = sample_conf p, selfMember = True, membershipConfigured = True, state = Follower,
      leaderID = [], currentTerm = 0, votedFor = [], nlog = [], commitIndex = 0, lastApplied = 0,
      lastIncludedIndex = 0, lastIncludedTerm = 0, snapshot = [], nextIndex = None, matchIndex = None,
      store = Some \<lparr>bsDb = Some []\<rparr>, commitReady = False\<rparr>"

text \<open>The state when only the first two processes have done anything.\<close>

definition sample_net ::
  "ElectionRun \<Rightarrow> ref_db BoltRaftStore RaftNode \<Rightarrow> ref_db BoltRaftStore RaftNode
     \<Rightarrow> (string \<times> uint64 \<times> string) set \<Rightarrow> (uint64 \<times> string) set \<Rightarrow> ref_db BoltRaftStore Net" where
  "sample_net r a b g w =
     \<lparr>nodes = boot(''a'' := a, ''b'' := b), runs = (\<lambda>_. ElDone False None)(''a'' := r), grants = g, wins = w\<rparr>"

definition sample_step :: "ref_db BoltRaftStore Net \<Rightarrow> ref_db BoltRaftStore Net \<Rightarrow> bool" where
  "sample_step = net_step (Save ref_bbolt) (Load ref_bbolt) (set sample_ids) sample_conf"

lemma sample_start: "sample_step (sample_net (ElDone won err) a b g w) (sample_net (StartElection True) a b g w)"
  using net_step.start [of "''a''" "set sample_ids" "sample_net (ElDone won err) a b g w"]
  by (simp add: sample_step_def sample_net_def sample_ids_def)

lemma sample_elect:
  assumes "el_step (Save ref_bbolt) ev r a = Some (r', a', out)"
    and "genuine (sample_net r a b g w) ''a'' ev" and "r = ElBecome \<longrightarrow> unat (currentTerm a) + 1 < 2 ^ 64"
    and "g' = (if r = ElBecome \<and> r' = ElSnapshot then insert (''a'', currentTerm a', ''a'') g else g)"
    and "w' = (if state a \<noteq> Leader \<and> state a' = Leader then insert (currentTerm a', ''a'') w else w)"
  shows "sample_step (sample_net r a b g w) (sample_net r' a' b g' w')"
proof -
  let ?S = "sample_net r a b g w"
  have "sample_net r' a' b g' w' = ?S\<lparr>nodes := (nodes ?S)(''a'' := a'), runs := (runs ?S)(''a'' := r'),
      grants := (if runs ?S ''a'' = ElBecome \<and> r' = ElSnapshot then insert (''a'', currentTerm a', ''a'') (grants ?S) else grants ?S),
      wins := (if state (nodes ?S ''a'') \<noteq> Leader \<and> state a' = Leader then insert (currentTerm a', ''a'') (wins ?S) else wins ?S)\<rparr>"
    unfolding assms(4,5) by (simp add: sample_net_def fun_upd_twist)
  then show ?thesis unfolding sample_step_def
    by (simp only:) (rule net_step.elect [OF _ assms(2)], use assms(1,3) in \<open>simp_all add: sample_net_def sample_ids_def\<close>)
qed

lemma sample_vote_step:
  assumes "RequestVote (Save ref_bbolt) b req = (resp, err, b')" and "rvCandidateID req \<in> set sample_ids"
    and "g' = (if err = None \<and> rvrVoteGranted resp then insert (''b'', rvTerm req, rvCandidateID req) g else g)"
  shows "sample_step (sample_net r a b g w) (sample_net r a b' g' w)"
proof -
  let ?S = "sample_net r a b g w"
  have "sample_net r a b' g' w = ?S\<lparr>nodes := (nodes ?S)(''b'' := b'),
      grants := (if err = None \<and> rvrVoteGranted resp
                 then insert (''b'', rvTerm req, rvCandidateID req) (grants ?S) else grants ?S)\<rparr>"
    unfolding assms(3) by (simp add: sample_net_def)
  then show ?thesis unfolding sample_step_def
    by (simp only:) (rule net_step.vote [OF _ assms(2)], use assms(1) in \<open>simp_all add: sample_net_def sample_ids_def\<close>)
qed

lemma sample_boot: "net_init (Load ref_bbolt) (set sample_ids) sample_conf (sample_net (ElDone False None) (boot ''a'') (boot ''b'') {} {})"
proof -
  have "Load ref_bbolt \<lparr>bsDb = Some []\<rparr> = Inr zeroPersistentState" by (simp add: Load_def ref_bbolt_def)
  moreover have "NewRaftNode (Load ref_bbolt) p (sample_conf p) (Some \<lparr>bsDb = Some []\<rparr>) = Inr (boot p)" if "p \<in> set sample_ids" for p
    using that calculation by (auto simp: NewRaftNode_def zeroPersistentState_def boot_def sample_ids_def sample_conf_def Let_def)
  ultimately show ?thesis unfolding net_init_def by (auto simp: sample_net_def)
qed

lemma sample_leader_elected:
  obtains S where "sample_step\<^sup>*\<^sup>* (sample_net (ElDone False None) (boot ''a'') (boot ''b'') {} {}) S"
    "state (nodes S ''a'') = Leader" "(1, ''a'') \<in> wins S"
proof -
  let ?a = "boot ''a''" and ?b = "boot ''b''"
    and ?req = "\<lparr>rvTerm = 1, rvCandidateID = ''a'', rvLastLogIndex = 0, rvLastLogTerm = 0\<rparr>"
    and ?pv = "\<lparr>pvrTerm = 0, pvrVoteGranted = True\<rparr>" and ?rv = "\<lparr>rvrTerm = 1, rvrVoteGranted = True\<rparr>"
  have c: "sample_conf ''a'' = [''b'', ''c'']" "sample_conf ''b'' = [''a'', ''c'']"
    by (simp_all add: sample_conf_def sample_ids_def)
  define a1 where "a1 = snd (BecomeCandidate (Save ref_bbolt) ?a)"
  define b1 where "b1 = snd (snd (RequestVote (Save ref_bbolt) ?b ?req))"
  define a2 where "a2 = snd (snd (the (promoteCandidate (Save ref_bbolt) a1 1)))"
  note run = boot_def c ref_save persistLocked_def electionSnapshot_def lastLogIndexLocked_def lastLogTermLocked_def
  have a1: "BecomeCandidate (Save ref_bbolt) ?a = (None, a1)" "state a1 = Candidate" "currentTerm a1 = 1"
      "nid a1 = ''a''" "peers a1 = [''b'', ''c'']" "nlog a1 = []" "lastIncludedIndex a1 = 0" "lastIncludedTerm a1 = 0"
    by (simp_all add: a1_def BecomeCandidate_def run)
  have b1: "RequestVote (Save ref_bbolt) ?b ?req = (?rv, None, b1)"
    by (simp add: b1_def RequestVote_def isMemberLocked_def IsLogAtLeastUpToDate_def Let_def run)
  have p: "sample_step (sample_net ElSelf ?a ?b {} {}) (sample_net (ElPre PvSelf) ?a ?b {} {})"
    by (rule sample_elect [of "VoteEvent Run"]) (simp_all add: genuine_def isSelfMember_def PreVoteElection_def boot_def)
  have p1: "sample_step (sample_net (ElPre PvSelf) ?a ?b {} {}) (sample_net (ElPre PvSnapshot) ?a ?b {} {})"
    by (rule sample_elect [of "PreEvent Run"]) (simp_all add: genuine_def isSelfMember_def boot_def)
  have p2: "sample_step (sample_net (ElPre PvSnapshot) ?a ?b {} {}) (sample_net (ElPre (PvCollect 1 2 [''b'', ''c''])) ?a ?b {} {})"
    by (rule sample_elect [of "PreEvent Run"]) (simp_all add: genuine_def majority_def pv_wait_def run)
  have p3: "sample_step (sample_net (ElPre (PvCollect 1 2 [''b'', ''c''])) ?a ?b {} {}) (sample_net ElBecome ?a ?b {} {})"
    by (rule sample_elect [of "PreEvent (Reply ''b'' (Inr ?pv))"])
      (simp_all add: genuine_def stepDownForHigherTerm_def boot_def)
  have e1: "sample_step (sample_net ElBecome ?a ?b {} {}) (sample_net ElSnapshot a1 ?b {(''a'', 1, ''a'')} {})"
    by (rule sample_elect [of "VoteEvent Run"]) (simp_all add: genuine_def a1, simp_all add: boot_def)
  have e2: "sample_step (sample_net ElSnapshot a1 ?b {(''a'', 1, ''a'')} {})
      (sample_net (ElCollect 1 1 2 [''b'', ''c'']) a1 ?b {(''a'', 1, ''a'')} {})"
    by (rule sample_elect [of "VoteEvent Run"]) (simp_all add: genuine_def majority_def el_wait_def a1 run)
  have e3: "sample_step (sample_net (ElCollect 1 1 2 [''b'', ''c'']) a1 ?b {(''a'', 1, ''a'')} {})
      (sample_net (ElCollect 1 1 2 [''b'', ''c'']) a1 b1 {(''b'', 1, ''a''), (''a'', 1, ''a'')} {})"
    by (rule sample_vote_step [OF b1]) (simp_all add: sample_ids_def)
  have e4: "sample_step (sample_net (ElCollect 1 1 2 [''b'', ''c'']) a1 b1 {(''b'', 1, ''a''), (''a'', 1, ''a'')} {})
      (sample_net (ElCheck 1 1 2 [''c''] True) a1 b1 {(''b'', 1, ''a''), (''a'', 1, ''a'')} {})"
    by (rule sample_elect [of "VoteEvent (Reply ''b'' (Inr ?rv))"])
      (simp_all add: genuine_def stepDownForHigherTerm_def sample_net_def a1)
  have e5: "sample_step (sample_net (ElCheck 1 1 2 [''c''] True) a1 b1 {(''b'', 1, ''a''), (''a'', 1, ''a'')} {})
      (sample_net (ElPromote 1) a1 b1 {(''b'', 1, ''a''), (''a'', 1, ''a'')} {})"
    by (rule sample_elect [of "VoteEvent Run"]) (simp_all add: genuine_def isCandidateForTerm_def a1)
  have a2: "promoteCandidate (Save ref_bbolt) a1 1 = Some (True, None, a2)" "state a2 = Leader" "currentTerm a2 = 1"
    by (simp_all add: a2_def a1_def promoteCandidate_def initLeaderProgressLocked_def advanceCommitLocked_def
        BecomeCandidate_def advance_loop.simps run)
  have e6: "sample_step (sample_net (ElPromote 1) a1 b1 {(''b'', 1, ''a''), (''a'', 1, ''a'')} {})
      (sample_net (ElDone True None) a2 b1 {(''b'', 1, ''a''), (''a'', 1, ''a'')} {(1, ''a'')})"
    by (rule sample_elect [of "VoteEvent Run"]) (simp_all add: genuine_def a1 a2)
  have s0: "sample_step (sample_net (ElDone False None) ?a ?b {} {}) (sample_net ElSelf ?a ?b {} {})"
    using sample_start [of False None ?a ?b "{}" "{}"] by (simp add: StartElection_def)
  have r: "sample_step\<^sup>*\<^sup>* (sample_net (ElDone False None) ?a ?b {} {})
      (sample_net (ElDone True None) a2 b1 {(''b'', 1, ''a''), (''a'', 1, ''a'')} {(1, ''a'')})"
    by (rule converse_rtranclp_into_rtranclp [of sample_step],
        rule s0 p p1 p2 p3 e1 e2 e3 e4 e5 e6)+ (rule rtranclp.rtrancl_refl)
  show ?thesis by (rule that [OF r]) (simp_all add: sample_net_def a2)
qed

theorem election_safety_witness:
  "\<exists>S. sample_step\<^sup>*\<^sup>* (sample_net (ElDone False None) (boot ''a'') (boot ''b'') {} {}) S \<and> state (nodes S ''a'') = Leader
     \<and> (\<forall>q \<in> set sample_ids. state (nodes S q) = Leader \<and> currentTerm (nodes S q) = currentTerm (nodes S ''a'') \<longrightarrow> q = ''a'')"
proof -
  obtain S where S: "sample_step\<^sup>*\<^sup>* (sample_net (ElDone False None) (boot ''a'') (boot ''b'') {} {}) S"
      "state (nodes S ''a'') = Leader"
    by (rule sample_leader_elected)
  have "q = ''a''" if "q \<in> set sample_ids" "state (nodes S q) = Leader" "currentTerm (nodes S q) = currentTerm (nodes S ''a'')" for q
    by (rule election_safety [OF ref_bbolt_laws sample_conf_ok sample_boot S(1) [unfolded sample_step_def] that(1) _ that(2) S(2) that(3)])
      (simp add: sample_ids_def)
  then show ?thesis using S by blast
qed

theorem one_winner_per_term_witness:
  "\<exists>S. sample_step\<^sup>*\<^sup>* (sample_net (ElDone False None) (boot ''a'') (boot ''b'') {} {}) S \<and> (1, ''a'') \<in> wins S
     \<and> (\<forall>q. (1, q) \<in> wins S \<longrightarrow> q = ''a'')"
proof -
  obtain S where S: "sample_step\<^sup>*\<^sup>* (sample_net (ElDone False None) (boot ''a'') (boot ''b'') {} {}) S"
      "(1, ''a'') \<in> wins S"
    by (rule sample_leader_elected)
  have "q = ''a''" if "(1, q) \<in> wins S" for q
    by (rule one_winner_per_term [OF ref_bbolt_laws sample_conf_ok sample_boot S(1) [unfolded sample_step_def] that S(2)])
  then show ?thesis using S by blast
qed

end
