(* ===== verification/GrpcProps.thy ===== *)
theory GrpcProps
  imports Grpc
begin

text \<open>
  The transport as a whole: a client call that reaches the server's handler is the local call
  of the node's handler, up to what the library makes of errors.
\<close>

text \<open>What a Go function that returns a response and an error tells its caller.\<close>

definition answer :: "'r \<times> GoError option \<Rightarrow> GoError + 'r" where
  "answer r = (case snd r of None \<Rightarrow> Inr (fst r) | Some err \<Rightarrow> Inl err)"

definition vote_answer :: "'s saver \<Rightarrow> 's RaftNode \<Rightarrow> RequestVoteRequest \<Rightarrow> GoError + RequestVoteResponse" where
  "vote_answer sv n req = (case RequestVote sv n req of (resp, err, _) \<Rightarrow> answer (resp, err))"

definition append_answer :: "'s saver \<Rightarrow> 's RaftNode \<Rightarrow> AppendEntriesRequest \<Rightarrow> (GoError + AppendEntriesResponse) option" where
  "append_answer sv n req = map_option (\<lambda>(resp, err, _). answer (resp, err)) (HandleAppendEntries sv n req)"

lemma Server_RequestVote_answer:
  "fst (Server_RequestVote sv n (Some q))
     = map_sum id toProtoRequestVoteResponse (vote_answer sv n (fromProtoRequestVoteRequest (Some q)))"
  by (simp add: Server_RequestVote_def vote_answer_def answer_def split: prod.split option.split)

lemma Server_PreVote_answer:
  "Server_PreVote n (Some q) = map_sum id toProtoPreVoteResponse (answer (PreVote n (fromProtoPreVoteRequest (Some q))))"
  by (simp add: Server_PreVote_def answer_def split: prod.split option.split)

lemma Server_AppendEntries_answer:
  "map_option fst (Server_AppendEntries sv n ch (Some q))
     = map_option (map_sum id toProtoAppendEntriesResponse) (append_answer sv n (fromProtoAppendEntriesRequest (Some q)))"
  by (simp add: Server_AppendEntries_def append_answer_def answer_def option.map_comp split: option.split prod.split)

lemma map_sum_wire: "map_sum wire id (map_sum id f r) = map_sum id f (map_sum wire id r)"
  by (cases r) simp_all

text \<open>C29. When the stub for a peer carries the message to that peer's server, and turns an error
  of the handler into some error of its own, each of the three client calls gives exactly the
  response of the node's own handler for the request, or an error if the handler failed.\<close>

theorem rpc_transparent:
  assumes "votes p = Some (\<lambda>q. map_sum wire id (fst (Server_RequestVote sv n (Some q))))"
    and "prevotes p = Some (\<lambda>q. map_sum wire id (Server_PreVote n (Some q)))"
    and "appends p = Some (\<lambda>q. case Server_AppendEntries sv n ch (Some q) of
           None \<Rightarrow> Inl lost | Some (r, _) \<Rightarrow> map_sum wire id r)"
  shows "PeerClient_RequestVote votes p vreq = map_sum wire id (vote_answer sv n vreq)
    \<and> PeerClient_PreVote prevotes p preq = map_sum wire id (answer (PreVote n preq))
    \<and> PeerClient_AppendEntries appends p areq
        = (case append_answer sv n areq of None \<Rightarrow> Inl lost | Some r \<Rightarrow> map_sum wire id r)"
proof (intro conjI)
  show "PeerClient_RequestVote votes p vreq = map_sum wire id (vote_answer sv n vreq)"
    unfolding PeerClient_RequestVote_def
    by (rule vote_rpc.call_served [where handler = "\<lambda>x. map_sum wire id (vote_answer sv n x)"]) (simp add: assms(1) Server_RequestVote_answer map_sum_wire)
  show "PeerClient_PreVote prevotes p preq = map_sum wire id (answer (PreVote n preq))"
    unfolding PeerClient_PreVote_def
    by (rule prevote_rpc.call_served [where handler = "\<lambda>x. map_sum wire id (answer (PreVote n x))"]) (simp add: assms(2) Server_PreVote_answer map_sum_wire)
  have "(case Server_AppendEntries sv n ch (Some q) of None \<Rightarrow> Inl lost | Some (r, _) \<Rightarrow> map_sum wire id r)
      = map_sum id toProtoAppendEntriesResponse (case append_answer sv n (fromProtoAppendEntriesRequest (Some q)) of
          None \<Rightarrow> Inl lost | Some r \<Rightarrow> map_sum wire id r)" for q
    using Server_AppendEntries_answer [of sv n ch q]
    by (cases "Server_AppendEntries sv n ch (Some q)";
        cases "append_answer sv n (fromProtoAppendEntriesRequest (Some q))") (auto simp: map_sum_wire)
  then show "PeerClient_AppendEntries appends p areq
      = (case append_answer sv n areq of None \<Rightarrow> Inl lost | Some r \<Rightarrow> map_sum wire id r)"
    unfolding PeerClient_AppendEntries_def by (intro append_rpc.call_served [where handler = "\<lambda>x. case append_answer sv n x of None \<Rightarrow> Inl lost | Some r \<Rightarrow> map_sum wire id r"]) (simp add: assms(3))
qed

theorem rpc_transparent_witness:
  "\<exists>n :: unit RaftNode. PeerClient_RequestVote
       [''a'' \<mapsto> \<lambda>q. map_sum id id (fst (Server_RequestVote (\<lambda>s ps. (None, s)) n (Some q)))] ''a''
       \<lparr>rvTerm = 1, rvCandidateID = ''b'', rvLastLogIndex = 0, rvLastLogTerm = 0\<rparr>
     = Inr \<lparr>rvrTerm = 1, rvrVoteGranted = True\<rparr>"
proof -
  let ?sv = "\<lambda>(s :: unit) (ps :: PersistentState). (None :: GoError option, s)"
    and ?req = "\<lparr>rvTerm = 1, rvCandidateID = ''b'', rvLastLogIndex = 0, rvLastLogTerm = 0\<rparr>"
  obtain n :: "unit RaftNode" where
    n: "vote_answer ?sv n ?req = Inr \<lparr>rvrTerm = 1, rvrVoteGranted = True\<rparr>"
  proof
    let ?n = "\<lparr>nid = ''a'', peers = [''b''], selfMember = True, membershipConfigured = True, state = Follower,
      leaderID = [], currentTerm = 0, votedFor = [], nlog = [], commitIndex = 0, lastApplied = 0, lastIncludedIndex = 0,
      lastIncludedTerm = 0, snapshot = [], nextIndex = None, matchIndex = None, store = None, commitReady = False\<rparr>"
    show "vote_answer ?sv ?n ?req = Inr \<lparr>rvrTerm = 1, rvrVoteGranted = True\<rparr>"
      by (simp add: vote_answer_def answer_def RequestVote_def isMemberLocked_def
          lastLogIndexLocked_def lastLogTermLocked_def persistLocked_def Let_def)
  qed
  have "PeerClient_RequestVote [''a'' \<mapsto> \<lambda>q. map_sum id id (fst (Server_RequestVote ?sv n (Some q)))] ''a'' ?req
      = map_sum id id (vote_answer ?sv n ?req)"
    by (rule conjunct1 [OF rpc_transparent [where
          prevotes = "[''a'' \<mapsto> \<lambda>q. map_sum id id (Server_PreVote n (Some q))]" and
          appends = "[''a'' \<mapsto> \<lambda>q. case Server_AppendEntries ?sv n None (Some q) of
            None \<Rightarrow> Inl CtxCanceled | Some (r, _) \<Rightarrow> map_sum id id r]"]]) simp_all
  then show ?thesis using n by auto
qed

end
