(* ===== verification/RunProps.thy ===== *)
theory RunProps
  imports NodeOps Restart
begin

text \<open>
  The calls that wait for replies: an election and a round of replication each take finitely
  many steps whatever the other goroutines do to the node in between, and never get stuck.
\<close>

subsection \<open>Elections end\<close>

text \<open>How far an election has come: its phase, and how many replies it waits for.\<close>

fun pv_left :: "PreVoteRun \<Rightarrow> nat \<times> nat" where
  "pv_left PvSelf = (8, 0)"
| "pv_left PvSnapshot = (7, 0)"
| "pv_left (PvCollect votes need waiting) = (6, length waiting)"
| "pv_left (PvDone won err) = (5, 0)"

fun el_left :: "ElectionRun \<Rightarrow> nat \<times> nat" where
  "el_left ElSelf = (9, 0)"
| "el_left (ElPre r) = pv_left r"
| "el_left ElBecome = (4, 0)"
| "el_left ElSnapshot = (3, 0)"
| "el_left (ElCollect term votes need waiting) = (2, 2 * length waiting)"
| "el_left (ElCheck term votes need waiting granted) = (2, 2 * length waiting + 1)"
| "el_left (ElPromote term) = (1, 0)"
| "el_left (ElDone won err) = (0, 0)"

definition lex2 :: "((nat \<times> nat) \<times> (nat \<times> nat)) set" where
  "lex2 = less_than <*lex*> less_than"

lemma wf_lex2: "wf lex2"
  by (simp add: lex2_def wf_lex_prod)

lemma in_lex2 [simp]: "((a, b), (c, d)) \<in> lex2 \<longleftrightarrow> a < c \<or> a = c \<and> b < d"
  by (simp add: lex2_def)

lemma no_descent:
  assumes "\<And>i. (f (Suc i), f i) \<in> lex2"
  shows False
  using assms wf_lex2 unfolding wf_iff_no_infinite_down_chain by blast

lemma pv_wait_left [simp]: "pv_left (pv_wait votes need waiting) = (if waiting = [] then (5, 0) else (6, length waiting))"
  by (simp add: pv_wait_def)

lemma el_wait_left [simp]: "el_left (el_wait term votes need waiting) = (if waiting = [] then (0, 0) else (2, 2 * length waiting))"
  by (simp add: el_wait_def)

lemma remove1_shorter: "p \<in> set xs \<Longrightarrow> length (remove1 p xs) < length xs"
  by (induction xs) auto

lemma el_pre_left: "(el_left (el_pre r), k) \<in> lex2 \<longleftrightarrow> (pv_left r, k) \<in> lex2" if "6 \<le> fst k"
  using that by (cases k; cases r) auto

lemma pv_step_left:
  assumes "pv_step sv ev r n = Some (r', n', out)"
  shows "(pv_left r', pv_left r) \<in> lex2" and "6 \<le> fst (pv_left r)"
  using assms remove1_shorter
  by (cases "(sv, ev, r, n)" rule: pv_step.cases;
      force simp: Let_def split: if_splits prod.splits sum.splits)+

lemma el_step_left:
  assumes "el_step sv ev r n = Some (r', n', out)"
  shows "(el_left r', el_left r) \<in> lex2"
proof (cases "\<exists>q. r = ElPre q")
  case True
  then obtain q e q' out' where q: "r = ElPre q" "pv_step sv e q n = Some (q', n', out')" "r' = el_pre q'"
    using assms by (cases "(sv, ev, r, n)" rule: el_step.cases) auto
  then show ?thesis using pv_step_left [OF q(2)] el_pre_left [of "pv_left q" q'] by simp
next
  case False
  then show ?thesis using assms remove1_shorter
    by (cases "(sv, ev, r, n)" rule: el_step.cases)
      (force simp: Let_def PreVoteElection_def split: if_splits prod.splits sum.splits)+
qed

text \<open>C37. An election ends: there is no infinite sequence of its steps, whatever replies arrive
  and whatever happens to the node between two steps.\<close>

theorem election_ends:
  "\<not> (\<forall>i. \<exists>n' out. el_step sv (evs i) (rs i) (ns i) = Some (rs (Suc i), n', out))"
proof
  assume "\<forall>i. \<exists>n' out. el_step sv (evs i) (rs i) (ns i) = Some (rs (Suc i), n', out)"
  then have "(el_left (rs (Suc i)), el_left (rs i)) \<in> lex2" for i using el_step_left by blast
  then show False by (rule no_descent)
qed

text \<open>A run that waits, waits for somebody.\<close>

fun pv_live :: "PreVoteRun \<Rightarrow> bool" where
  "pv_live (PvCollect votes need waiting) = (waiting \<noteq> [])"
| "pv_live (PvDone won err) = False"
| "pv_live r = True"

fun el_live :: "ElectionRun \<Rightarrow> bool" where
  "el_live (ElPre r) = pv_live r"
| "el_live (ElCollect term votes need waiting) = (waiting \<noteq> [])"
| "el_live r = True"

lemma pv_wait_live: "pv_live (pv_wait votes need waiting) \<or> (\<exists>won err. pv_wait votes need waiting = PvDone won err)"
  by (auto simp: pv_wait_def)

lemma el_pre_live: "pv_live r \<or> (\<exists>won err. r = PvDone won err) \<Longrightarrow> el_live (el_pre r)"
  by (cases r) auto

lemma el_wait_live: "el_live (el_wait term votes need waiting)"
  by (simp add: el_wait_def)

lemma pv_step_live:
  "pv_step sv ev r n = Some (r', n', out) \<Longrightarrow> pv_live r' \<or> (\<exists>won err. r' = PvDone won err)"
  using pv_wait_live
  by (cases "(sv, ev, r, n)" rule: pv_step.cases)
    (auto simp: Let_def split: if_splits prod.splits sum.splits)

lemma el_step_live: "el_step sv ev r n = Some (r', n', out) \<Longrightarrow> el_live r'"
  by (cases "(sv, ev, r, n)" rule: el_step.cases)
    (auto simp: Let_def PreVoteElection_def el_wait_live split: if_splits prod.splits sum.splits
      intro!: el_pre_live pv_step_live)

text \<open>
  What an election waits for at each point: its own next section, or, when the requests are
  out, the reply of any peer that has not answered and the end of its context.
\<close>

fun pv_awaits :: "PreVoteRun \<Rightarrow> PreVoteResponse RunEvent \<Rightarrow> bool" where
  "pv_awaits PvSelf ev = (ev = Run)"
| "pv_awaits PvSnapshot ev = (ev = Run)"
| "pv_awaits (PvCollect votes need waiting) ev =
     (case ev of Run \<Rightarrow> False | Reply p result \<Rightarrow> p \<in> set waiting | Cancel err \<Rightarrow> True)"
| "pv_awaits (PvDone won err) ev = False"

fun el_awaits :: "ElectionRun \<Rightarrow> ElectionEvent \<Rightarrow> bool" where
  "el_awaits (ElPre r) ev = (case ev of PreEvent e \<Rightarrow> pv_awaits r e | VoteEvent e \<Rightarrow> False)"
| "el_awaits (ElCollect term votes need waiting) ev =
     (case ev of VoteEvent (Reply p result) \<Rightarrow> p \<in> set waiting | VoteEvent (Cancel err) \<Rightarrow> True | _ \<Rightarrow> False)"
| "el_awaits (ElDone won err) ev = False"
| "el_awaits r ev = (ev = VoteEvent Run)"

fun el_cancels :: "ElectionEvent \<Rightarrow> bool" where
  "el_cancels (PreEvent (Cancel err)) = True"
| "el_cancels (VoteEvent (Cancel err)) = True"
| "el_cancels ev = False"

lemma pv_step_awaits: "pv_step sv ev r n \<noteq> None \<longleftrightarrow> pv_awaits r ev"
  by (cases "(sv, ev, r, n)" rule: pv_step.cases)
    (auto simp: Let_def electionSnapshot_def split: prod.split sum.split)

lemma el_step_awaits: "node_ok n \<Longrightarrow> el_step sv ev r n \<noteq> None \<longleftrightarrow> el_awaits r ev"
  using pv_step_awaits [of sv _ _ n]
  by (cases "(sv, ev, r, n)" rule: el_step.cases)
    (auto simp: Let_def electionSnapshot_def promoteCandidate_eq split: prod.split sum.split)

lemma pv_live_awaits: "pv_live r \<Longrightarrow> \<exists>ev. pv_awaits r ev \<and> \<not> el_cancels (PreEvent ev)"
proof (cases r)
  case (PvCollect votes need waiting)
  assume "pv_live r"
  with PvCollect have "pv_awaits r (Reply (hd waiting) (Inl CtxCanceled))" by simp
  then show ?thesis by (intro exI [of _ "Reply (hd waiting) (Inl CtxCanceled)"]) simp
qed (auto intro: exI [of _ Run])

lemma el_live_awaits:
  assumes "el_live r"
  shows "(\<exists>won err. r = ElDone won err) \<or> (\<exists>ev. el_awaits r ev \<and> \<not> el_cancels ev)"
proof (cases r)
  case (ElPre q)
  then obtain ev where "pv_awaits q ev" "\<not> el_cancels (PreEvent ev)" using assms pv_live_awaits [of q] by auto
  then show ?thesis using ElPre by (intro disjI2 exI [of _ "PreEvent ev"]) simp
next
  case (ElCollect t v k w)
  then show ?thesis using assms by (intro disjI2 exI [of _ "VoteEvent (Reply (hd w) (Inl CtxCanceled))"]) simp
qed (auto intro: exI [of _ "VoteEvent Run"])

text \<open>C38. An election is never stuck and never panics: at the start of the call, and at every point
  an election has reached by a step, on every well-formed node, exactly the events it waits for
  (its next section, the reply of a peer that has not answered, the end of its context) take it
  further.  Unless it has returned it waits for such an event that is not the end of its
  context.\<close>

theorem election_never_stuck:
  assumes "r = StartElection client \<or> (\<exists>ev q n n' out. el_step sv ev q n = Some (r, n', out))" and "node_ok m"
  shows "(\<forall>ev. el_step sv ev r m \<noteq> None \<longleftrightarrow> el_awaits r ev)
    \<and> ((\<exists>won err. r = ElDone won err) \<or> (\<exists>ev. el_awaits r ev \<and> \<not> el_cancels ev))"
proof -
  have "el_live r" using assms(1) el_step_live by (auto simp: StartElection_def)
  with el_live_awaits el_step_awaits [OF assms(2)] show ?thesis by blast
qed

theorem election_never_stuck_witness:
  "\<exists>m :: unit RaftNode. node_ok m
     \<and> (\<exists>n' out. el_step (\<lambda>s ps. (None, s)) (PreEvent Run) (ElPre PvSnapshot) m = Some (ElPre (PvCollect 1 2 [''b'', ''c'']), n', out))
     \<and> el_step (\<lambda>s ps. (None, s)) (PreEvent (Reply ''c'' (Inl CtxCanceled))) (ElPre (PvCollect 1 2 [''b'', ''c''])) m \<noteq> None
     \<and> el_step (\<lambda>s ps. (None, s)) (PreEvent (Reply ''d'' (Inl CtxCanceled))) (ElPre (PvCollect 1 2 [''b'', ''c''])) m = None"
proof -
  let ?r = "ElPre (PvCollect 1 2 [''b'', ''c''])"
  obtain m :: "unit RaftNode" where n: "NewRaftNode (\<lambda>_. Inr zeroPersistentState) ''a'' [''b'', ''c''] None = Inr m"
      "peers m = [''b'', ''c'']"
    by (simp add: NewRaftNode_def)
  then have ok: "node_ok m" by (intro node_ok_New [OF n(1)]) simp_all
  have s: "\<exists>n' out. el_step (\<lambda>s ps. (None, s)) (PreEvent Run) (ElPre PvSnapshot) m = Some (?r, n', out)"
    using n(2) by (simp add: electionSnapshot_def pv_wait_def majority_def)
  then have "?r = StartElection True \<or> (\<exists>ev q n n' out. el_step (\<lambda>s ps. (None, s)) ev q (n :: unit RaftNode) = Some (?r, n', out))"
    by blast
  from election_never_stuck [OF this ok]
  have "(el_step (\<lambda>s ps. (None, s)) ev ?r m = None) = (\<not> el_awaits ?r ev)" for ev by blast
  note this [of "PreEvent (Reply ''c'' (Inl CtxCanceled))"] this [of "PreEvent (Reply ''d'' (Inl CtxCanceled))"]
  then show ?thesis using ok s by - (rule exI [of _ m], simp del: el_step.simps not_None_eq)
qed

subsection \<open>Rounds of replication end\<close>

fun rp_left :: "ReplRun \<Rightarrow> nat \<times> nat" where
  "rp_left RpEnsure = (4, 0)"
| "rp_left RpPeers = (3, 0)"
| "rp_left (RpBuild todo built) = (2, length todo)"
| "rp_left (RpCollect waiting) = (1, 3 * length waiting)"
| "rp_left (RpRecord p req success waiting) = (1, 3 * length waiting + 2)"
| "rp_left (RpStop waiting) = (1, 3 * length waiting + 1)"
| "rp_left (RpDone err) = (0, 0)"

lemma rp_wait_left [simp]: "rp_left (rp_wait waiting) = (if waiting = [] then (0, 0) else (1, 3 * length waiting))"
  by (simp add: rp_wait_def)

lemma map_of_remove1_shorter: "map_of xs p = Some req \<Longrightarrow> length (remove1 (p, req) xs) < length xs"
  by (rule remove1_shorter) (rule map_of_SomeD)

lemma replicateOnce_left:
  assumes "replicateOnce sv stop ev r n = Some (r', n', out)"
  shows "(rp_left r', rp_left r) \<in> lex2"
  using assms
  by (cases "(sv, stop, ev, r, n)" rule: replicateOnce.cases)
    (auto simp: Let_def split: if_splits prod.splits sum.splits option.splits dest!: map_of_remove1_shorter)

text \<open>C39. A round of replication ends: there is no infinite sequence of its steps, whatever replies
  arrive and whatever happens to the node between two steps.\<close>

theorem replication_ends:
  "\<not> (\<forall>i. \<exists>n' out. replicateOnce sv stop (evs i) (rs i) (ns i) = Some (rs (Suc i), n', out))"
proof
  assume "\<forall>i. \<exists>n' out. replicateOnce sv stop (evs i) (rs i) (ns i) = Some (rs (Suc i), n', out)"
  then have "(rp_left (rs (Suc i)), rp_left (rs i)) \<in> lex2" for i using replicateOnce_left by blast
  then show False by (rule no_descent)
qed

end
