(* ===== verification/Spec2Isabelle.thy ===== *)
theory Spec2Isabelle
  imports Findings ClusterProps StoreProps KVProps GrpcProps RunProps
begin

text \<open>
  A verification library for the replicated key-value store of this repository.

  \<^bold>\<open>The program.\<close>  A process (\<^verbatim>\<open>cmd/node/main.go\<close>) runs one Raft node (\<^verbatim>\<open>raft/\<close>) on a stable
  store in a bbolt database (\<^verbatim>\<open>store/bolt_store.go\<close>), a key-value state machine in a second
  one (\<^verbatim>\<open>store/kv_state_machine.go\<close>), a gRPC server and clients for the Raft RPCs
  (\<^verbatim>\<open>raftgrpc/\<close>), an HTTP API for the users (\<^verbatim>\<open>client/http.go\<close>) and metrics
  (\<^verbatim>\<open>observability/metrics.go\<close>).  The election timer, the heartbeat loop, the apply loop, the
  state logger, every HTTP request and every RPC is a goroutine of its own; they share the node
  under its lock.

  \<^bold>\<open>How it is modelled.\<close>  A \<^verbatim>\<open>uint64\<close> is a 64-bit word, so additions wrap around as in Go; text
  and bytes are lists of characters with codes below 256; a panic (index out of range, write to
  a nil map) is \<^const>\<open>None\<close>; an error is a value of \<open>GoError\<close>.  A node is a record that every
  operation returns updated, over any type of stable store.  A function that releases the lock,
  waits for a reply or starts goroutines is a step machine: a datatype with one constructor per
  point between two critical sections, and a step function that performs one section.  What
  comes from outside (a reply, a tick, the end of a context, the result of an I/O call) is an
  argument of the step.  So any interleaving of goroutines is a sequence of steps.  A step function
  gives \<^const>\<open>None\<close> for a panic and for an event that the point does not wait for; the predicates
  \<open>el_awaits\<close> and \<open>http_awaits\<close> say which events those are, so that the theorems about them
  rule out panics.

  \<^bold>\<open>Theories, in the order of the code.\<close>
  \<^item> \<open>Prelude\<close>: words, Go slices and maps.  \<open>GoText\<close>, \<open>Json\<close>, \<open>JsonUtf8\<close>, \<open>Mux\<close>: what is used of
    Go's \<^verbatim>\<open>strings\<close>, \<^verbatim>\<open>unicode/utf8\<close>, \<^verbatim>\<open>encoding/base64\<close>, \<^verbatim>\<open>encoding/json\<close>, \<^verbatim>\<open>path\<close> and the
    multiplexer of \<^verbatim>\<open>net/http\<close>.
  \<^item> \<open>Types\<close>, \<open>Membership\<close>, \<open>Node\<close>: \<^verbatim>\<open>raft/types.go\<close>, \<^verbatim>\<open>raft/membership.go\<close>, \<^verbatim>\<open>raft/node.go\<close>, one
    definition per method.  \<open>NodeLog\<close>, \<open>NodeAppend\<close>, \<open>NodeCommit\<close>, \<open>NodeInv\<close>, \<open>NodeApply\<close>: the log in
    terms of natural numbers, the reference \<open>merge_log\<close> for the append loop, the reference for
    the commit rule, the invariant \<open>node_ok\<close>, the apply loop against \<open>sm_run\<close>.
  \<^item> \<open>Election\<close>, \<open>Replication\<close>, \<open>ApplySteps\<close>: the step machines of \<^verbatim>\<open>election.go\<close>,
    \<^verbatim>\<open>election_timer.go\<close>, \<^verbatim>\<open>heartbeat.go\<close>, \<^verbatim>\<open>proposal.go\<close> and of \<^verbatim>\<open>ApplyCommitted\<close>.
  \<^item> \<open>NodeOps\<close>: every critical section that writes, as one type of operations with
    preconditions; the locale \<open>op_order\<close> carries orders that all operations respect (votes,
    committed entries).  \<open>NodeQuiet\<close>: what they do to term, vote and role.  \<open>LogMatch\<close>: what a
    round of replication does to two logs.
  \<^item> \<open>Bbolt\<close>: the interface of the bbolt library as a record of functions with its documented
    laws \<open>bbolt_laws\<close>, and a reference implementation that satisfies them.  \<open>BoltStore\<close>,
    \<open>BoltFacts\<close>, \<open>Restart\<close>: the stable store, the locale \<open>stable_store\<close>, and a node that comes back.
  \<^item> \<open>KV\<close>, \<open>KVFacts\<close>: commands and state machine of \<^verbatim>\<open>store/\<close>.  \<open>Apply\<close> is an uninterrupted call;
    \<open>ka_step\<close> are its two parts, since the database is written outside the state machine's lock.
    The goroutines of \<open>Process\<close> call \<open>Apply\<close> as one step.
  \<^item> \<open>Grpc\<close>: the conversions, the server, the client, dialing; locales \<open>proto_message\<close> and
    \<open>proto_rpc\<close>.
  \<^item> \<open>Http\<close>, \<open>Metrics\<close>, \<open>NodeMain\<close>: the HTTP handlers with the response writer of \<^verbatim>\<open>net/http\<close>, the
    instrumentation, flags, start, routes, apply loop, state logger and exit of the process.
  \<^item> \<open>Goroutines\<close>, \<open>Process\<close>: every step of every goroutine is one operation of \<open>NodeOps\<close>; the
    locale \<open>goroutine\<close> is their contract; \<open>process_step\<close> interleaves them all and accepts every
    request of a peer; \<open>tame_run\<close> are its runs under the conditions below.  \<open>HttpFacts\<close>,
    \<open>MainFacts\<close>: a request under interference, a request alone, peer flags, start, apply loop.
  \<^item> \<open>Cluster\<close>: processes with fixed membership on a lossy network, with crashes and restarts.

  \<^bold>\<open>What is shown.\<close>
  \<^item> \<open>ClusterProps\<close>: election safety, at any moment and over a whole run.
  \<^item> \<open>NodeProps\<close>: no operation panics and all keep the invariant; which request can change a
    committed entry; votes; the append loop is the
    merge of the two logs; a round of replication makes the logs match; the commit rule;
    applying in order; compaction; refused requests and changes.
  \<^item> \<open>StoreProps\<close>, \<open>KVProps\<close>, \<open>GrpcProps\<close>: restart, atomic saves, votes across crashes; reads, replay,
    snapshots and the mirror in the database; a remote call is a local one.
  \<^item> \<open>RunProps\<close>: elections and replication rounds end; an election never panics and always waits for
    something that can happen.
  \<^item> \<open>HttpProps\<close>, \<open>ProcessProps\<close>: answers come after the entry is applied; reads see writes; which
    requests are refused; forwarding; start; safety of all goroutines together; no request is
    stuck or panics; the apply loop keeps the log short; the status that is counted is the one sent.
  \<^item> \<open>Findings\<close>: concrete runs in which the program does what its documents or names rule out.

  \<^bold>\<open>Bounds.\<close>  Operations that append an entry or start a term need room: the last index and the
  term are not at the end of 64 bits (\<open>has_room\<close>, \<open>roomy\<close>); everything else holds for all words.
  The JSON parser takes the length of its input as fuel, and \<open>parse_fuel\<close> shows that this is
  enough.  \<open>http_alone\<close> runs a request with a bound of steps; the theorem that uses it states that
  9 steps are enough for a write and 11 for a read on a cluster of one.  \<^verbatim>\<open>ApplyCommitted\<close> is a
  partial function whose termination is part of the theorems.

  \<^bold>\<open>Conditions on requests of peers.\<close>  \<^verbatim>\<open>HandleAppendEntries\<close> checks neither that a request leaves
  no gap after the log nor that it keeps the committed entries.  The definitions accept such
  requests as the code does, and \<open>Findings\<close> shows what becomes of them; the theorems about
  sequences of operations (\<open>ops_ok\<close>), about a request under interference (\<open>served\<close>) and about runs of
  the process (\<open>tame_run\<close>) exclude them by their hypotheses.  The cluster theory needs no such
  condition.

  \<^bold>\<open>Not modelled.\<close>  The generated gRPC stubs (\<^verbatim>\<open>proto/raft_grpc.pb.go\<close>) and the wire format: the
  library's call is a parameter.  The texts of errors.  Of a forwarded request, the building of
  the URL and the HTTP transport: their result is an argument.  The HTML body of a redirect,
  the sniffing of content types and the automatic headers of \<^verbatim>\<open>net/http\<close>.  The storage and the
  page of the prometheus library.  Log output, signal handling, timers as durations, and the
  graceful shutdown of the servers, which is I/O only.
\<close>

end
